(* ===== verification/Prelude.thy ===== *)
theory Prelude
  imports Main "HOL-Library.Word" "HOL-Library.Monad_Syntax"
begin

unbundle bit_operations_syntax

text \<open>
  Shared vocabulary of the development.  It holds the pointer type, the collections of
  rewrite rules the component theories fill, the search of a fixed-size table
  (\<open>first_slot\<close>) that every table of the library uses, the \<open>FOREACH_LIST\<close> loop of
  \<open>list.h\<close>, and the polling loop (\<open>wait_loop\<close>) that \<open>accept\<close>, \<open>connect\<close>, \<open>recv\<close> and
  \<open>epoll_pwait\<close> share.  A function that can run into undefined behaviour of C returns an
  option: \<open>None\<close> is the undefined behaviour.
\<close>

named_theorems view_defs \<open>how each process reads the shared structures\<close>
named_theorems wrap_defs \<open>definitions of the list.c wrappers\<close>
named_theorems api_defs \<open>definitions of the socket and event API\<close>

section \<open>Pointers\<close>

text \<open>Addresses are natural numbers, \<open>NULL\<close> is 0.\<close>

type_synonym ptr = nat
type_synonym byte = "8 word"

abbreviation (input) NULL :: ptr where
  "NULL \<equiv> 0"

section \<open>Tables searched from slot 0\<close>

text \<open>
  \<open>for (i = 0; i < MAX; i++) if (P(tab[i])) return tab + i; return NULL;\<close>
  with the index for the pointer.
\<close>

fun first_slot :: "('a \<Rightarrow> bool) \<Rightarrow> 'a list \<Rightarrow> nat option" where
  "first_slot P [] = None"
| "first_slot P (x # xs) = (if P x then Some 0 else map_option Suc (first_slot P xs))"

lemma first_slot_Some:
  "first_slot P xs = Some i \<longleftrightarrow> i < length xs \<and> P (xs ! i) \<and> (\<forall>j < i. \<not> P (xs ! j))"
proof (induction xs arbitrary: i)
  case Nil
  then show ?case by simp
next
  case (Cons x xs)
  show ?case
  proof (cases i)
    case 0
    then show ?thesis by auto
  next
    case (Suc k)
    then have "first_slot P (x # xs) = Some i \<longleftrightarrow> \<not> P x \<and> first_slot P xs = Some k"
      by simp
    also have "\<dots> \<longleftrightarrow> \<not> P x \<and> k < length xs \<and> P (xs ! k) \<and> (\<forall>j < k. \<not> P (xs ! j))"
      by (simp add: Cons.IH)
    finally show ?thesis
      using Suc by (auto simp: All_less_Suc2)
  qed
qed

lemma first_slot_None: "first_slot P xs = None \<longleftrightarrow> (\<forall>x \<in> set xs. \<not> P x)"
  by (induction xs) auto

lemma first_slotD:
  assumes "first_slot P xs = Some i"
  shows "i < length xs" and "P (xs ! i)"
  using assms by (auto simp: first_slot_Some)

lemma first_slot_unique:
  assumes "i < length xs" and "P (xs ! i)" and "\<And>j. j < length xs \<Longrightarrow> P (xs ! j) \<Longrightarrow> j = i"
  shows "first_slot P xs = Some i"
  using assms unfolding first_slot_Some by (metis less_trans nat_neq_iff)

lemma first_slot_update:
  "(i < length xs \<Longrightarrow> P y = P (xs ! i)) \<Longrightarrow> first_slot P (xs[i := y]) = first_slot P xs"
  by (induction xs arbitrary: i) (auto split: nat.splits)

text \<open>Counting slots across an update.\<close>

lemma count_update:
  "i < length xs \<Longrightarrow>
   length (filter P (xs[i := y])) + of_bool (P (xs ! i)) = length (filter P xs) + of_bool (P y)"
proof (induction xs arbitrary: i)
  case (Cons x xs)
  then show ?case by (cases i) auto
qed simp

section \<open>The loop FOREACH_LIST\<close>

text \<open>
  \<open>for (i = 0, entry = get(0); entry != NULL; i++, entry = get(i)) body\<close>.
  The body answers \<open>None\<close> (undefined behaviour), \<open>Some None\<close> (next entry) or
  \<open>Some (Some r)\<close> (\<open>return r\<close>).  The result is \<open>Some None\<close> when the loop ends at a
  \<open>NULL\<close> entry.  The fuel is a bound on the number of entries read.
\<close>

fun foreach_list ::
  "(int \<Rightarrow> ptr) \<Rightarrow> nat \<Rightarrow> int \<Rightarrow> (int \<Rightarrow> ptr \<Rightarrow> 'r option option) \<Rightarrow> 'r option option" where
  "foreach_list get 0 i body = None"
| "foreach_list get (Suc n) i body =
     (if get i = NULL then Some None
      else case body i (get i) of
             None \<Rightarrow> None
           | Some (Some r) \<Rightarrow> Some (Some r)
           | Some None \<Rightarrow> foreach_list get n (i + 1) body)"

text \<open>The same loop over the entries themselves.\<close>

fun scan :: "int \<Rightarrow> ptr list \<Rightarrow> (int \<Rightarrow> ptr \<Rightarrow> 'r option option) \<Rightarrow> 'r option option" where
  "scan i [] body = Some None"
| "scan i (x # xs) body =
     (case body i x of
        None \<Rightarrow> None
      | Some (Some r) \<Rightarrow> Some (Some r)
      | Some None \<Rightarrow> scan (i + 1) xs body)"

lemma foreach_list_scan_from:
  assumes "\<And>j. i \<le> j \<Longrightarrow> get j = (if j < i + int (length xs) then xs ! nat (j - i) else NULL)"
    and "NULL \<notin> set xs" and "length xs < n"
  shows "foreach_list get n i body = scan i xs body"
  using assms
proof (induction xs arbitrary: i n)
  case Nil
  then show ?case by (cases n) auto
next
  case (Cons x xs)
  from Cons.prems(3) obtain m where n: "n = Suc m" and m: "length xs < m"
    by (cases n) auto
  have here: "get i = x"
    using Cons.prems(1) [of i] by simp
  have "foreach_list get m (i + 1) body = scan (i + 1) xs body"
  proof (rule Cons.IH)
    fix j
    assume j: "i + 1 \<le> j"
    then have "nat (j - i) = Suc (nat (j - (i + 1)))"
      by simp
    then show "get j = (if j < i + 1 + int (length xs) then xs ! nat (j - (i + 1)) else NULL)"
      using Cons.prems(1) [of j] j by auto
  qed (use Cons.prems(2) m in auto)
  with here n Cons.prems(2) show ?case
    by (auto split: option.splits)
qed

lemma foreach_list_scan:
  assumes "\<And>j. get j = (if 0 \<le> j \<and> j < int (length xs) then xs ! nat j else NULL)"
    and "NULL \<notin> set xs" and "length xs < n"
  shows "foreach_list get n 0 body = scan 0 xs body"
  by (rule foreach_list_scan_from) (use assms in auto)

text \<open>A scan whose body never hits undefined behaviour returns at the first hit.\<close>

lemma scan_total:
  assumes "\<And>i x. x \<in> set xs \<Longrightarrow> body i x = Some (if P x then Some (f i x) else None)"
  shows "scan i xs body =
    Some (map_option (\<lambda>k. f (i + int k) (xs ! k)) (first_slot P xs))"
  using assms
proof (induction xs arbitrary: i)
  case Nil
  then show ?case by simp
next
  case (Cons x xs)
  have "scan (i + 1) xs body =
    Some (map_option (\<lambda>k. f (i + 1 + int k) (xs ! k)) (first_slot P xs))"
    by (rule Cons.IH) (use Cons.prems in auto)
  with Cons.prems [of x i] show ?case
    by (simp add: option.map_comp o_def add.assoc)
qed

section \<open>Polling loops\<close>

text \<open>
  \<open>while (!try()) SLEEP;\<close>.  One round \<open>try k s\<close> (with \<open>k\<close> the number of sleeps so far)
  is undefined (\<open>None\<close>), ends the loop with a value (\<open>Some (Some v, s')\<close>) or goes to
  sleep (\<open>Some (None, s')\<close>).  During the k-th sleep the rest of the system, the peer
  process above all, turns the state \<open>s\<close> into \<open>env k s\<close>.  The fuel bounds the number of
  rounds; \<open>Some (None, s')\<close> as the result says the call has not returned within them.
\<close>

fun wait_loop ::
  "nat \<Rightarrow> (nat \<Rightarrow> 's \<Rightarrow> 's) \<Rightarrow> nat \<Rightarrow> (nat \<Rightarrow> 's \<Rightarrow> ('v option \<times> 's) option) \<Rightarrow> 's
    \<Rightarrow> ('v option \<times> 's) option" where
  "wait_loop 0 env k try s = Some (None, s)"
| "wait_loop (Suc n) env k try s =
     (case try k s of
        None \<Rightarrow> None
      | Some (Some v, s') \<Rightarrow> Some (Some v, s')
      | Some (None, s') \<Rightarrow> wait_loop n env (Suc k) try (env k s'))"

lemma wait_loop_now:
  "try k s = Some (Some v, s') \<Longrightarrow> wait_loop (Suc n) env k try s = Some (Some v, s')"
  by simp

text \<open>The state in which round \<open>k + d\<close> starts, when the rounds before it all slept.\<close>

fun after_sleeps ::
  "nat \<Rightarrow> (nat \<Rightarrow> 's \<Rightarrow> 's) \<Rightarrow> nat \<Rightarrow> (nat \<Rightarrow> 's \<Rightarrow> ('v option \<times> 's) option) \<Rightarrow> 's
    \<Rightarrow> 's option" where
  "after_sleeps 0 env k try s = Some s"
| "after_sleeps (Suc d) env k try s =
     (case try k s of
        Some (None, s') \<Rightarrow> after_sleeps d env (Suc k) try (env k s')
      | _ \<Rightarrow> None)"

lemma wait_loop_after_sleeps:
  assumes "after_sleeps d env k try s = Some t"
  shows "wait_loop (d + n) env k try s = wait_loop n env (k + d) try t"
  using assms
proof (induction d arbitrary: k s)
  case 0
  then show ?case by simp
next
  case (Suc d)
  then show ?case
    by (auto split: option.splits prod.splits)
qed

lemma wait_loop_returns_after:
  assumes "after_sleeps d env k try s = Some t" and "try (k + d) t = Some (Some v, t')"
    and "d < n"
  shows "wait_loop n env k try s = Some (Some v, t')"
proof -
  from \<open>d < n\<close> obtain m where n: "n = d + Suc m"
    using less_imp_Suc_add by auto
  show ?thesis
    unfolding n wait_loop_after_sleeps [OF assms(1)]
    by (rule wait_loop_now [where n = m]) (rule assms(2))
qed

text \<open>
  A loop whose rounds never get stuck and which gives up at round \<open>b\<close> at the latest
  returns, whatever the rest of the system does meanwhile.
\<close>

lemma wait_loop_terminates:
  assumes "\<And>j s. I s \<Longrightarrow> j \<le> b \<Longrightarrow> \<exists>r s'. try j s = Some (r, s') \<and> I s'"
    and "\<And>j s. I s \<Longrightarrow> I (env j s)"
    and "\<And>j s s'. I s \<Longrightarrow> b \<le> j \<Longrightarrow> try j s \<noteq> Some (None, s')"
    and "I s" and "k \<le> b" and "b < k + n"
  shows "\<exists>v s'. wait_loop n env k try s = Some (Some v, s') \<and> I s'"
  using assms(4-6)
proof (induction n arbitrary: k s)
  case 0
  then show ?case by simp
next
  case (Suc n)
  obtain r s' where round: "try k s = Some (r, s')" and I': "I s'"
    using assms(1) Suc.prems(1,2) by blast
  show ?case
  proof (cases r)
    case (Some v)
    with round I' show ?thesis by auto
  next
    case None
    with round assms(3) Suc.prems(1) have "k < b"
      by (meson not_le)
    with Suc.prems(3) have "Suc k \<le> b" and "b < Suc k + n"
      by auto
    with Suc.IH assms(2) [OF I'] None round show ?thesis
      by auto
  qed
qed

end
