(* ===== verification/Extern.thy ===== *)
theory Extern
  imports Prelude
begin

text \<open>
  The code the library calls and that is not part of the repository, as one record of
  functions that every definition takes as its first argument: the linked list of the
  submodule \<open>linked-list\<close> (\<open>ll.h\<close>), the allocator of the submodule \<open>custom-malloc\<close>
  (\<open>_malloc.h\<close>) and the kernel.  \<open>ll_laws\<close> and \<open>malloc_laws\<close> state what the library relies
  on; \<open>ref_lib\<close> is a concrete instance for which both hold.
\<close>

section \<open>Error codes and events\<close>

datatype errno =
    E_NONE | EBADF | ENOMEM | EAFNOSUPPORT | EPROTONOSUPPORT | ENFILE | EAGAIN | ENETUNREACH
  | ECONNREFUSED | EINPROGRESS | EALREADY | ENOTCONN | EINVAL | EEXIST | ENOENT | E_SYS nat

type_synonym eventmask = "32 word"

text \<open>\<open>struct epoll_event\<close> of \<open><sys/epoll.h>\<close>; the union \<open>epoll_data\<close> is its 64 bits.\<close>

record epoll_event =
  ev_events :: eventmask
  ev_data :: "64 word"

section \<open>The kernel\<close>

text \<open>
  The system calls the library forwards (\<open>syscall(SYS_...)\<close>) and the shared memory calls of
  \<open>createSharedRegion\<close>.  The answer holds the return value, the \<open>errno\<close> the call sets, the
  bytes \<open>read\<close> stores and the events \<open>epoll_wait\<close> stores.
\<close>

datatype sysreq =
    SYS_close int
  | SYS_ioctl int nat ptr
  | SYS_read int nat
  | SYS_write int "byte list" nat
  | SYS_fcntl int int "64 word"
  | SYS_epoll_create1 int
  | SYS_epoll_ctl int int int "epoll_event option"
  | SYS_epoll_wait int int int
  | Ftok string char
  | Shmget int int
  | Shmat int ptr

record sysres =
  sys_ret :: int
  sys_errno :: "errno option"
  sys_bytes :: "byte list"
  sys_events :: "epoll_event list"

section \<open>The record of external functions\<close>

text \<open>
  \<open>'l\<close> is a list object of \<open>ll.h\<close>, \<open>'m\<close> the state of the allocator (all its regions),
  \<open>'k\<close> the state of the kernel.  Every list operation receives the malloc context that is
  current when it is called, because its nodes are allocated and freed there.
  \<open>ll_at c l\<close> and \<open>live m\<close> do not exist at run time: they say that the nodes of \<open>l\<close> belong to
  context \<open>c\<close>, and which blocks are allocated in which context.
\<close>

record ('m, 'l, 'k) ext =
  ll_new :: "ptr \<Rightarrow> 'l"
  ll_len :: "'l \<Rightarrow> int"
  ll_insert_n :: "ptr \<Rightarrow> 'l \<Rightarrow> ptr \<Rightarrow> int \<Rightarrow> int \<times> 'l"
  ll_insert_first :: "ptr \<Rightarrow> 'l \<Rightarrow> ptr \<Rightarrow> int \<times> 'l"
  ll_insert_last :: "ptr \<Rightarrow> 'l \<Rightarrow> ptr \<Rightarrow> int \<times> 'l"
  ll_remove_n :: "ptr \<Rightarrow> 'l \<Rightarrow> int \<Rightarrow> int \<times> 'l"
  ll_remove_first :: "ptr \<Rightarrow> 'l \<Rightarrow> int \<times> 'l"
  ll_remove_search :: "ptr \<Rightarrow> 'l \<Rightarrow> (ptr \<Rightarrow> bool) \<Rightarrow> int \<times> 'l"
  ll_get_n :: "ptr \<Rightarrow> 'l \<Rightarrow> int \<Rightarrow> ptr"
  ll_get_first :: "ptr \<Rightarrow> 'l \<Rightarrow> ptr"
  ll_delete :: "ptr \<Rightarrow> 'l \<Rightarrow> 'l"
  ll_at :: "ptr \<Rightarrow> 'l \<Rightarrow> bool"
  malloc :: "ptr \<Rightarrow> nat \<Rightarrow> 'm \<Rightarrow> ptr \<times> 'm"
  free :: "ptr \<Rightarrow> ptr \<Rightarrow> 'm \<Rightarrow> 'm"
  createMallocContext :: "ptr \<Rightarrow> ptr \<Rightarrow> int \<Rightarrow> 'm \<Rightarrow> 'm"
  live :: "'m \<Rightarrow> (ptr \<times> ptr) set"
  kernel_call :: "sysreq \<Rightarrow> 'k \<Rightarrow> sysres \<times> 'k"
  sizeof_interface :: nat

section \<open>What the library relies on\<close>

text \<open>The values of a list, read one by one with \<open>ll_get_n\<close>.\<close>

definition ll_elems :: "('m, 'l, 'k) ext \<Rightarrow> ptr \<Rightarrow> 'l \<Rightarrow> ptr list" where
  "ll_elems E c l = map (\<lambda>i. ll_get_n E c l (int i)) [0..<nat (ll_len E l)]"

text \<open>
  The behaviour of \<open>ll.h\<close>, as \<open>test/listtest.c\<close> exercises it, for a list whose nodes live in
  the context that is current: the operations are the ones of sequences, removing out of
  range does nothing and reading out of range gives \<open>NULL\<close>.
\<close>

definition ll_new_law :: "('m, 'l, 'k) ext \<Rightarrow> bool" where
  "ll_new_law E \<longleftrightarrow> (\<forall>c. ll_at E c (ll_new E c) \<and> ll_len E (ll_new E c) = 0)"

definition ll_read_law :: "('m, 'l, 'k) ext \<Rightarrow> bool" where
  "ll_read_law E \<longleftrightarrow> (\<forall>c l. ll_at E c l \<longrightarrow>
     0 \<le> ll_len E l
     \<and> (\<forall>n. n < 0 \<or> ll_len E l \<le> n \<longrightarrow> ll_get_n E c l n = NULL)
     \<and> ll_get_first E c l = ll_get_n E c l 0)"

definition ll_insert_law :: "('m, 'l, 'k) ext \<Rightarrow> bool" where
  "ll_insert_law E \<longleftrightarrow> (\<forall>c l v. ll_at E c l \<longrightarrow>
     ll_at E c (snd (ll_insert_first E c l v))
     \<and> ll_elems E c (snd (ll_insert_first E c l v)) = v # ll_elems E c l
     \<and> ll_at E c (snd (ll_insert_last E c l v))
     \<and> ll_elems E c (snd (ll_insert_last E c l v)) = ll_elems E c l @ [v]
     \<and> (\<forall>n. 0 \<le> n \<and> n \<le> ll_len E l \<longrightarrow>
          ll_at E c (snd (ll_insert_n E c l v n))
          \<and> ll_elems E c (snd (ll_insert_n E c l v n)) =
              take (nat n) (ll_elems E c l) @ v # drop (nat n) (ll_elems E c l)))"

definition ll_remove_law :: "('m, 'l, 'k) ext \<Rightarrow> bool" where
  "ll_remove_law E \<longleftrightarrow> (\<forall>c l. ll_at E c l \<longrightarrow>
     ll_at E c (snd (ll_remove_first E c l))
     \<and> ll_elems E c (snd (ll_remove_first E c l)) = tl (ll_elems E c l)
     \<and> (\<forall>n. ll_at E c (snd (ll_remove_n E c l n))
          \<and> ll_elems E c (snd (ll_remove_n E c l n)) =
              (if 0 \<le> n \<and> n < ll_len E l
               then take (nat n) (ll_elems E c l) @ drop (Suc (nat n)) (ll_elems E c l)
               else ll_elems E c l))
     \<and> (\<forall>P. ll_at E c (snd (ll_remove_search E c l P))
          \<and> ll_elems E c (snd (ll_remove_search E c l P)) =
              (case first_slot P (ll_elems E c l) of
                 None \<Rightarrow> ll_elems E c l
               | Some k \<Rightarrow> take k (ll_elems E c l) @ drop (Suc k) (ll_elems E c l))))"

definition ll_laws :: "('m, 'l, 'k) ext \<Rightarrow> bool" where
  "ll_laws E \<longleftrightarrow> ll_new_law E \<and> ll_read_law E \<and> ll_insert_law E \<and> ll_remove_law E"

text \<open>
  The allocator: a block it hands out is not \<open>NULL\<close> (unless it fails) and not allocated in
  any context; a block freed in the context it came from is no longer allocated.  Setting up
  the context of a region empties it and leaves the blocks of the other contexts alone.
\<close>

definition malloc_alloc_law :: "('m, 'l, 'k) ext \<Rightarrow> bool" where
  "malloc_alloc_law E \<longleftrightarrow>
     (\<forall>c n m. let (p, m') = malloc E c n m in
        if p = NULL then live E m' = live E m
        else p \<notin> snd ` live E m \<and> live E m' = insert (c, p) (live E m))"

definition malloc_free_law :: "('m, 'l, 'k) ext \<Rightarrow> bool" where
  "malloc_free_law E \<longleftrightarrow>
     (\<forall>c p m. (c, p) \<in> live E m \<longrightarrow> live E (free E c p m) = live E m - {(c, p)})"

definition malloc_context_law :: "('m, 'l, 'k) ext \<Rightarrow> bool" where
  "malloc_context_law E \<longleftrightarrow>
     (\<forall>c a n m. live E (createMallocContext E c a n m) = {(c', p) \<in> live E m. c' \<noteq> c})"

definition malloc_laws :: "('m, 'l, 'k) ext \<Rightarrow> bool" where
  "malloc_laws E \<longleftrightarrow> malloc_alloc_law E \<and> malloc_free_law E \<and> malloc_context_law E"

definition lib_ok :: "('m, 'l, 'k) ext \<Rightarrow> bool" where
  "lib_ok E \<longleftrightarrow> ll_laws E \<and> malloc_laws E"

text \<open>\<open>malloc\<close> never fails: the region is large enough for the run under consideration.\<close>

definition never_full :: "('m, 'l, 'k) ext \<Rightarrow> bool" where
  "never_full E \<longleftrightarrow> (\<forall>c n m. fst (malloc E c n m) \<noteq> NULL)"

lemma malloc_fresh:
  assumes "malloc_laws E" and "malloc E c n m = (p, m')" and "p \<noteq> NULL"
  shows "p \<notin> snd ` live E m" and "live E m' = insert (c, p) (live E m)"
proof -
  have "malloc_alloc_law E"
    using assms(1) by (simp add: malloc_laws_def)
  from this [unfolded malloc_alloc_law_def, rule_format, of c n m] assms(2,3)
  show "p \<notin> snd ` live E m" and "live E m' = insert (c, p) (live E m)"
    by simp_all
qed

lemma malloc_fails:
  assumes "malloc_laws E" and "malloc E c n m = (NULL, m')"
  shows "live E m' = live E m"
proof -
  have "malloc_alloc_law E"
    using assms(1) by (simp add: malloc_laws_def)
  from this [unfolded malloc_alloc_law_def, rule_format, of c n m] assms(2)
  show ?thesis by simp
qed

lemma free_live:
  "malloc_laws E \<Longrightarrow> (c, p) \<in> live E m \<Longrightarrow> live E (free E c p m) = live E m - {(c, p)}"
  by (simp add: malloc_laws_def malloc_free_law_def)

lemma length_ll_elems: "ll_read_law E \<Longrightarrow> ll_at E c l \<Longrightarrow> int (length (ll_elems E c l)) = ll_len E l"
  by (simp add: ll_elems_def ll_read_law_def)

lemma ll_get_n_elems:
  assumes "ll_read_law E" and "ll_at E c l"
  shows "ll_get_n E c l n =
    (if 0 \<le> n \<and> n < int (length (ll_elems E c l)) then ll_elems E c l ! nat n else NULL)"
  using assms by (auto simp: ll_elems_def ll_read_law_def)

lemma ll_insert_first_elems:
  assumes "ll_laws E" and "ll_at E c l" and "ll_insert_first E c l v = (r, l')"
  shows "ll_at E c l'" and "ll_elems E c l' = v # ll_elems E c l"
proof -
  have "ll_insert_law E"
    using assms(1) by (simp add: ll_laws_def)
  from this [unfolded ll_insert_law_def, rule_format, OF assms(2), of v] assms(3)
  show "ll_at E c l'" and "ll_elems E c l' = v # ll_elems E c l"
    by simp_all
qed

lemma ll_insert_last_elems:
  assumes "ll_laws E" and "ll_at E c l" and "ll_insert_last E c l v = (r, l')"
  shows "ll_at E c l'" and "ll_elems E c l' = ll_elems E c l @ [v]"
proof -
  have "ll_insert_law E"
    using assms(1) by (simp add: ll_laws_def)
  from this [unfolded ll_insert_law_def, rule_format, OF assms(2), of v] assms(3)
  show "ll_at E c l'" and "ll_elems E c l' = ll_elems E c l @ [v]"
    by simp_all
qed

lemma ll_remove_first_elems:
  assumes "ll_laws E" and "ll_at E c l" and "ll_remove_first E c l = (r, l')"
  shows "ll_at E c l'" and "ll_elems E c l' = tl (ll_elems E c l)"
proof -
  have "ll_remove_law E"
    using assms(1) by (simp add: ll_laws_def)
  from this [unfolded ll_remove_law_def, rule_format, OF assms(2)] assms(3)
  show "ll_at E c l'" and "ll_elems E c l' = tl (ll_elems E c l)"
    by simp_all
qed

section \<open>A concrete instance\<close>

text \<open>
  A list object is its context and its values; used under another context it does nothing.
  The allocator remembers its live blocks and hands out the address above the largest one.
  The kernel knows no descriptor: every call answers -1, and \<open>shmat\<close> maps at the address
  asked for or, without one, at 4096.
\<close>

type_synonym ref_ll = "ptr \<times> ptr list"
type_synonym ref_heap = "(ptr \<times> ptr) list"

definition ref_at :: "ptr \<Rightarrow> ref_ll \<Rightarrow> bool" where
  "ref_at c l \<longleftrightarrow> fst l = c"

definition ref_op :: "(ptr list \<Rightarrow> ptr list) \<Rightarrow> ptr \<Rightarrow> ref_ll \<Rightarrow> int \<times> ref_ll" where
  "ref_op f c l = (if fst l = c then (0, (c, f (snd l))) else (-1, l))"

definition ref_get :: "ptr \<Rightarrow> ref_ll \<Rightarrow> int \<Rightarrow> ptr" where
  "ref_get c l n = (if 0 \<le> n \<and> n < int (length (snd l)) then snd l ! nat n else NULL)"

definition ref_remove_n :: "int \<Rightarrow> ptr list \<Rightarrow> ptr list" where
  "ref_remove_n n xs =
     (if 0 \<le> n \<and> n < int (length xs) then take (nat n) xs @ drop (Suc (nat n)) xs else xs)"

definition ref_remove_search :: "(ptr \<Rightarrow> bool) \<Rightarrow> ptr list \<Rightarrow> ptr list" where
  "ref_remove_search P xs =
     (case first_slot P xs of None \<Rightarrow> xs | Some k \<Rightarrow> take k xs @ drop (Suc k) xs)"

definition ref_malloc :: "ptr \<Rightarrow> nat \<Rightarrow> ref_heap \<Rightarrow> ptr \<times> ref_heap" where
  "ref_malloc c n m = (let p = Suc (foldr max (map snd m) 0) in (p, (c, p) # m))"

definition ref_free :: "ptr \<Rightarrow> ptr \<Rightarrow> ref_heap \<Rightarrow> ref_heap" where
  "ref_free c p m = removeAll (c, p) m"

definition ref_kernel :: "sysreq \<Rightarrow> unit \<Rightarrow> sysres \<times> unit" where
  "ref_kernel q k =
     (case q of
        Ftok name c \<Rightarrow> \<lparr>sys_ret = 1, sys_errno = None, sys_bytes = [], sys_events = []\<rparr>
      | Shmget key n \<Rightarrow> \<lparr>sys_ret = 1, sys_errno = None, sys_bytes = [], sys_events = []\<rparr>
      | Shmat shmid addr \<Rightarrow>
          \<lparr>sys_ret = (if addr = NULL then 4096 else int addr), sys_errno = None,
           sys_bytes = [], sys_events = []\<rparr>
      | _ \<Rightarrow> \<lparr>sys_ret = -1, sys_errno = Some EBADF, sys_bytes = [], sys_events = []\<rparr>, k)"

definition ref_lib :: "(ref_heap, ref_ll, unit) ext" where
  "ref_lib = \<lparr>
     ll_new = (\<lambda>c. (c, [])),
     ll_len = (\<lambda>l. int (length (snd l))),
     ll_insert_n = (\<lambda>c l v n. ref_op (\<lambda>xs. take (nat n) xs @ v # drop (nat n) xs) c l),
     ll_insert_first = (\<lambda>c l v. ref_op (\<lambda>xs. v # xs) c l),
     ll_insert_last = (\<lambda>c l v. ref_op (\<lambda>xs. xs @ [v]) c l),
     ll_remove_n = (\<lambda>c l n. ref_op (ref_remove_n n) c l),
     ll_remove_first = (\<lambda>c l. ref_op tl c l),
     ll_remove_search = (\<lambda>c l P. ref_op (ref_remove_search P) c l),
     ll_get_n = ref_get,
     ll_get_first = (\<lambda>c l. ref_get c l 0),
     ll_delete = (\<lambda>c l. (c, [])),
     ll_at = ref_at,
     malloc = ref_malloc,
     free = ref_free,
     createMallocContext = (\<lambda>c start n m. filter (\<lambda>(c', p). c' \<noteq> c) m),
     live = set,
     kernel_call = ref_kernel,
     sizeof_interface = 128\<rparr>"

lemma ref_elems [simp]: "ll_elems ref_lib c l = snd l"
  by (auto simp: ll_elems_def ref_lib_def ref_get_def intro: nth_equalityI)

lemma ref_lib_ll_laws: "ll_laws ref_lib"
  unfolding ll_laws_def ll_new_law_def ll_read_law_def ll_insert_law_def ll_remove_law_def ref_elems
  by (auto simp: ref_lib_def ref_at_def ref_op_def ref_get_def ref_remove_n_def
      ref_remove_search_def)

lemma foldr_max_ge: "p \<in> set xs \<Longrightarrow> p \<le> foldr max xs (0::nat)"
  by (induction xs) auto

lemma ref_malloc_fresh: "Suc (foldr max (map snd m) 0) \<notin> snd ` set (m :: ref_heap)"
proof
  assume "Suc (foldr max (map snd m) 0) \<in> snd ` set m"
  then have "Suc (foldr max (map snd m) 0) \<le> foldr max (map snd m) 0"
    by (intro foldr_max_ge) auto
  then show False by simp
qed

lemma ref_lib_malloc_laws: "malloc_laws ref_lib"
proof -
  have "malloc_alloc_law ref_lib"
    using ref_malloc_fresh
    by (simp add: malloc_alloc_law_def ref_lib_def ref_malloc_def Let_def)
  moreover have "malloc_free_law ref_lib"
    by (simp add: malloc_free_law_def ref_lib_def ref_free_def)
  moreover have "malloc_context_law ref_lib"
    by (auto simp: malloc_context_law_def ref_lib_def)
  ultimately show ?thesis
    by (simp add: malloc_laws_def)
qed

lemma ref_lib_ok: "lib_ok ref_lib"
  by (simp add: lib_ok_def ref_lib_ll_laws ref_lib_malloc_laws)

lemma ref_lib_never_full: "never_full ref_lib"
  by (simp add: never_full_def ref_lib_def ref_malloc_def Let_def)

end
