(* ===== verification/LList.thy ===== *)
theory LList
  imports Extern
begin

text \<open>
  \<open>list.c\<close> and \<open>list.h\<close>: the wrapper that runs every operation of \<open>ll.h\<close> under the malloc
  context of the list.  Each operation takes the context \<open>cur\<close> that is current when it is
  called (\<open>getCurrentMallocContext\<close>) and returns the one that is current afterwards; the
  names \<open>prevCtx\<close> and \<open>cur1\<close> are those of \<open>PROLOGUE\<close> and \<open>EPILOGUE\<close>.  The second half states
  the wrapper's contract as the locale \<open>list_object\<close>, draws its consequences there and
  interprets it on the wrapper.
\<close>

section \<open>The operations\<close>

record 'l llist =
  ll_list :: 'l
  malloc_ctx :: ptr

definition llist_len :: "('m, 'l, 'k) ext \<Rightarrow> 'l llist \<Rightarrow> int" where
  "llist_len E list = ll_len E (ll_list list)"

definition hasDataList :: "('m, 'l, 'k) ext \<Rightarrow> 'l llist \<Rightarrow> bool" where
  "hasDataList E list \<longleftrightarrow> llist_len E list > 0"

definition llist_new :: "('m, 'l, 'k) ext \<Rightarrow> ptr \<Rightarrow> ptr \<Rightarrow> 'l llist \<times> ptr" where
  "llist_new E ctx cur =
     (let prevCtx = cur; cur1 = ctx
      in (\<lparr>ll_list = ll_new E cur1, malloc_ctx = ctx\<rparr>, prevCtx))"

definition llist_delete :: "('m, 'l, 'k) ext \<Rightarrow> 'l llist \<Rightarrow> ptr \<Rightarrow> 'l llist \<times> ptr" where
  "llist_delete E list cur =
     (let prevCtx = cur; cur1 = malloc_ctx list
      in (list\<lparr>ll_list := ll_delete E cur1 (ll_list list)\<rparr>, prevCtx))"

definition llist_insert_n ::
  "('m, 'l, 'k) ext \<Rightarrow> 'l llist \<Rightarrow> ptr \<Rightarrow> int \<Rightarrow> ptr \<Rightarrow> int \<times> 'l llist \<times> ptr" where
  "llist_insert_n E list val n cur =
     (let prevCtx = cur; cur1 = malloc_ctx list;
          (ret, l') = ll_insert_n E cur1 (ll_list list) val n
      in (ret, list\<lparr>ll_list := l'\<rparr>, prevCtx))"

definition llist_insert_first ::
  "('m, 'l, 'k) ext \<Rightarrow> 'l llist \<Rightarrow> ptr \<Rightarrow> ptr \<Rightarrow> int \<times> 'l llist \<times> ptr" where
  "llist_insert_first E list val cur =
     (let prevCtx = cur; cur1 = malloc_ctx list;
          (ret, l') = ll_insert_first E cur1 (ll_list list) val
      in (ret, list\<lparr>ll_list := l'\<rparr>, prevCtx))"

definition llist_insert_last ::
  "('m, 'l, 'k) ext \<Rightarrow> 'l llist \<Rightarrow> ptr \<Rightarrow> ptr \<Rightarrow> int \<times> 'l llist \<times> ptr" where
  "llist_insert_last E list val cur =
     (let prevCtx = cur; cur1 = malloc_ctx list;
          (ret, l') = ll_insert_last E cur1 (ll_list list) val
      in (ret, list\<lparr>ll_list := l'\<rparr>, prevCtx))"

definition llist_remove_n ::
  "('m, 'l, 'k) ext \<Rightarrow> 'l llist \<Rightarrow> int \<Rightarrow> ptr \<Rightarrow> int \<times> 'l llist \<times> ptr" where
  "llist_remove_n E list n cur =
     (let prevCtx = cur; cur1 = malloc_ctx list;
          (ret, l') = ll_remove_n E cur1 (ll_list list) n
      in (ret, list\<lparr>ll_list := l'\<rparr>, prevCtx))"

definition llist_remove_first ::
  "('m, 'l, 'k) ext \<Rightarrow> 'l llist \<Rightarrow> ptr \<Rightarrow> int \<times> 'l llist \<times> ptr" where
  "llist_remove_first E list cur =
     (let prevCtx = cur; cur1 = malloc_ctx list;
          (ret, l') = ll_remove_first E cur1 (ll_list list)
      in (ret, list\<lparr>ll_list := l'\<rparr>, prevCtx))"

definition llist_remove_search ::
  "('m, 'l, 'k) ext \<Rightarrow> 'l llist \<Rightarrow> (ptr \<Rightarrow> bool) \<Rightarrow> ptr \<Rightarrow> int \<times> 'l llist \<times> ptr" where
  "llist_remove_search E list cond cur =
     (let prevCtx = cur; cur1 = malloc_ctx list;
          (ret, l') = ll_remove_search E cur1 (ll_list list) cond
      in (ret, list\<lparr>ll_list := l'\<rparr>, prevCtx))"

definition llist_get_n :: "('m, 'l, 'k) ext \<Rightarrow> 'l llist \<Rightarrow> int \<Rightarrow> ptr \<Rightarrow> ptr \<times> ptr" where
  "llist_get_n E list n cur =
     (let prevCtx = cur; cur1 = malloc_ctx list
      in (ll_get_n E cur1 (ll_list list) n, prevCtx))"

definition llist_get_first :: "('m, 'l, 'k) ext \<Rightarrow> 'l llist \<Rightarrow> ptr \<Rightarrow> ptr \<times> ptr" where
  "llist_get_first E list cur =
     (let prevCtx = cur; cur1 = malloc_ctx list
      in (ll_get_first E cur1 (ll_list list), prevCtx))"

text \<open>
  \<open>FOREACH_LIST(list)\<close>: one entry more than the list holds is read, the \<open>NULL\<close> that ends
  the loop, hence the fuel.
\<close>

definition FOREACH_LIST ::
  "('m, 'l, 'k) ext \<Rightarrow> 'l llist \<Rightarrow> ptr \<Rightarrow> (int \<Rightarrow> ptr \<Rightarrow> 'r option option) \<Rightarrow> 'r option option"
  where
  "FOREACH_LIST E list cur body =
     foreach_list (\<lambda>i. fst (llist_get_n E list i cur)) (Suc (nat (llist_len E list))) 0 body"

definition llist_remove ::
  "('m, 'l, 'k) ext \<Rightarrow> 'l llist \<Rightarrow> ptr \<Rightarrow> ptr \<Rightarrow> (int \<times> 'l llist \<times> ptr) option" where
  "llist_remove E list val cur =
     (case FOREACH_LIST E list cur (\<lambda>i entry. Some (if entry = val then Some i else None)) of
        None \<Rightarrow> None
      | Some None \<Rightarrow> Some (0, list, cur)
      | Some (Some i) \<Rightarrow>
          (let (_, list', cur') = llist_remove_n E list i cur in Some (1, list', cur')))"

lemmas llist_defs [wrap_defs] =
  llist_len_def llist_new_def llist_delete_def llist_insert_n_def llist_insert_first_def
  llist_insert_last_def llist_remove_n_def llist_remove_first_def llist_remove_search_def
  llist_get_n_def llist_get_first_def

section \<open>The contract\<close>

text \<open>
  A list object has values \<open>elems\<close>, an owner context \<open>home\<close> and a validity \<open>ok\<close>.  Its
  operations are those of sequences, keep validity and owner, and leave the current malloc
  context as they found it.
\<close>

locale list_object =
  fixes ok :: "'o \<Rightarrow> bool"
    and elems :: "'o \<Rightarrow> ptr list"
    and home :: "'o \<Rightarrow> ptr"
    and len :: "'o \<Rightarrow> int"
    and ins_first :: "'o \<Rightarrow> ptr \<Rightarrow> ptr \<Rightarrow> int \<times> 'o \<times> ptr"
    and ins_last :: "'o \<Rightarrow> ptr \<Rightarrow> ptr \<Rightarrow> int \<times> 'o \<times> ptr"
    and rem_n :: "'o \<Rightarrow> int \<Rightarrow> ptr \<Rightarrow> int \<times> 'o \<times> ptr"
    and rem_first :: "'o \<Rightarrow> ptr \<Rightarrow> int \<times> 'o \<times> ptr"
    and get_n :: "'o \<Rightarrow> int \<Rightarrow> ptr \<Rightarrow> ptr \<times> ptr"
    and get_first :: "'o \<Rightarrow> ptr \<Rightarrow> ptr \<times> ptr"
  assumes len_elems: "ok q \<Longrightarrow> len q = int (length (elems q))"
    and ins_first_law: "ok q \<Longrightarrow> \<exists>r q'. ins_first q v cur = (r, q', cur) \<and> ok q'
          \<and> elems q' = v # elems q \<and> home q' = home q"
    and ins_last_law: "ok q \<Longrightarrow> \<exists>r q'. ins_last q v cur = (r, q', cur) \<and> ok q'
          \<and> elems q' = elems q @ [v] \<and> home q' = home q"
    and rem_n_law: "ok q \<Longrightarrow> \<exists>r q'. rem_n q n cur = (r, q', cur) \<and> ok q'
          \<and> elems q' = (if 0 \<le> n \<and> n < int (length (elems q))
                        then take (nat n) (elems q) @ drop (Suc (nat n)) (elems q)
                        else elems q) \<and> home q' = home q"
    and rem_first_law: "ok q \<Longrightarrow> \<exists>r q'. rem_first q cur = (r, q', cur) \<and> ok q'
          \<and> elems q' = tl (elems q) \<and> home q' = home q"
    and get_n_law: "ok q \<Longrightarrow> get_n q n cur =
          (if 0 \<le> n \<and> n < int (length (elems q)) then elems q ! nat n else NULL, cur)"
    and get_first_law: "ok q \<Longrightarrow> get_first q cur =
          (case elems q of [] \<Rightarrow> NULL | x # _ \<Rightarrow> x, cur)"
begin

lemma has_data: "ok q \<Longrightarrow> len q > 0 \<longleftrightarrow> elems q \<noteq> []"
  by (simp add: len_elems)

text \<open>Reading every entry until \<open>NULL\<close> visits the values in order.\<close>

lemma foreach_elems:
  assumes "ok q" and "NULL \<notin> set (elems q)"
  shows "foreach_list (\<lambda>i. fst (get_n q i cur)) (Suc (nat (len q))) 0 body =
    scan 0 (elems q) body"
  by (rule foreach_list_scan) (use assms in \<open>auto simp: get_n_law len_elems\<close>)

lemma foreach_find:
  assumes "ok q" and "NULL \<notin> set (elems q)"
    and "\<And>i x. x \<in> set (elems q) \<Longrightarrow> body i x = Some (if P x then Some (f i x) else None)"
  shows "foreach_list (\<lambda>i. fst (get_n q i cur)) (Suc (nat (len q))) 0 body =
    Some (map_option (\<lambda>k. f (int k) (elems q ! k)) (first_slot P (elems q)))"
proof -
  have "scan 0 (elems q) body =
    Some (map_option (\<lambda>k. f (0 + int k) (elems q ! k)) (first_slot P (elems q)))"
    by (rule scan_total) (rule assms(3))
  then show ?thesis
    by (simp only: foreach_elems [OF assms(1,2)] add_0)
qed

text \<open>A queue: what was inserted last comes out after everything before it.\<close>

lemma fifo:
  assumes "ok q" and "ins_last q v cur = (r, q', cur')"
  shows "get_first q' cur = (if elems q = [] then v else hd (elems q), cur)"
proof -
  from ins_last_law [OF assms(1), of v cur] assms(2)
  have "ok q'" and "elems q' = elems q @ [v]"
    by auto
  then show ?thesis
    by (cases "elems q") (simp_all add: get_first_law)
qed

end

lemma remove1_first_slot:
  "remove1 v xs = (case first_slot (\<lambda>x. x = v) xs of
     None \<Rightarrow> xs | Some k \<Rightarrow> take k xs @ drop (Suc k) xs)"
  by (induction xs) (auto split: option.splits)

section \<open>The wrapper meets the contract\<close>

definition llist_ok :: "('m, 'l, 'k) ext \<Rightarrow> 'l llist \<Rightarrow> bool" where
  "llist_ok E list \<longleftrightarrow> ll_laws E \<and> ll_at E (malloc_ctx list) (ll_list list)"

definition llist_elems :: "('m, 'l, 'k) ext \<Rightarrow> 'l llist \<Rightarrow> ptr list" where
  "llist_elems E list = ll_elems E (malloc_ctx list) (ll_list list)"

lemma llist_new_ok:
  assumes "ll_laws E"
  shows "\<exists>l. llist_new E ctx cur = (l, cur) \<and> llist_ok E l \<and> llist_elems E l = []
    \<and> malloc_ctx l = ctx"
  using assms
  by (auto simp: llist_new_def llist_ok_def llist_elems_def ll_laws_def ll_new_law_def
      ll_elems_def Let_def)

lemma llist_get_n_val:
  "llist_ok E l \<Longrightarrow> llist_get_n E l n cur =
     (if 0 \<le> n \<and> n < int (length (llist_elems E l)) then llist_elems E l ! nat n else NULL, cur)"
  by (simp add: llist_get_n_def llist_ok_def llist_elems_def Let_def ll_laws_def ll_get_n_elems)

lemma llist_get_first_val:
  assumes "llist_ok E l"
  shows "llist_get_first E l cur = (case llist_elems E l of [] \<Rightarrow> NULL | x # _ \<Rightarrow> x, cur)"
proof -
  from assms have "llist_get_first E l cur = llist_get_n E l 0 cur"
    by (simp add: llist_get_first_def llist_get_n_def llist_ok_def ll_laws_def ll_read_law_def)
  with llist_get_n_val [OF assms, of 0 cur] show ?thesis
    by (simp split: list.split)
qed

lemma llist_insert_first_ok:
  assumes "llist_ok E l"
  shows "\<exists>r l'. llist_insert_first E l v cur = (r, l', cur) \<and> llist_ok E l'
    \<and> llist_elems E l' = v # llist_elems E l \<and> malloc_ctx l' = malloc_ctx l"
proof -
  obtain r l' where op: "ll_insert_first E (malloc_ctx l) (ll_list l) v = (r, l')"
    by fastforce
  with ll_insert_first_elems [OF _ _ op] assms show ?thesis
    by (simp add: llist_insert_first_def llist_ok_def llist_elems_def)
qed

lemma llist_insert_last_ok:
  assumes "llist_ok E l"
  shows "\<exists>r l'. llist_insert_last E l v cur = (r, l', cur) \<and> llist_ok E l'
    \<and> llist_elems E l' = llist_elems E l @ [v] \<and> malloc_ctx l' = malloc_ctx l"
proof -
  obtain r l' where op: "ll_insert_last E (malloc_ctx l) (ll_list l) v = (r, l')"
    by fastforce
  with ll_insert_last_elems [OF _ _ op] assms show ?thesis
    by (simp add: llist_insert_last_def llist_ok_def llist_elems_def)
qed

lemma llist_remove_first_ok:
  assumes "llist_ok E l"
  shows "\<exists>r l'. llist_remove_first E l cur = (r, l', cur) \<and> llist_ok E l'
    \<and> llist_elems E l' = tl (llist_elems E l) \<and> malloc_ctx l' = malloc_ctx l"
proof -
  obtain r l' where op: "ll_remove_first E (malloc_ctx l) (ll_list l) = (r, l')"
    by fastforce
  with ll_remove_first_elems [OF _ _ op] assms show ?thesis
    by (simp add: llist_remove_first_def llist_ok_def llist_elems_def)
qed

lemma llist_remove_n_ok:
  assumes "llist_ok E l"
  shows "\<exists>r l'. llist_remove_n E l n cur = (r, l', cur) \<and> llist_ok E l'
      \<and> llist_elems E l' =
          (if 0 \<le> n \<and> n < int (length (llist_elems E l))
           then take (nat n) (llist_elems E l) @ drop (Suc (nat n)) (llist_elems E l)
           else llist_elems E l) \<and> malloc_ctx l' = malloc_ctx l"
proof -
  have laws: "ll_remove_law E" "ll_read_law E" and at: "ll_at E (malloc_ctx l) (ll_list l)"
    using assms by (simp_all add: llist_ok_def ll_laws_def)
  have len: "int (length (llist_elems E l)) = ll_len E (ll_list l)"
    unfolding llist_elems_def by (rule length_ll_elems [OF laws(2) at])
  obtain r l' where op: "ll_remove_n E (malloc_ctx l) (ll_list l) n = (r, l')"
    by fastforce
  with laws(1) at have "ll_at E (malloc_ctx l) l'"
    and "ll_elems E (malloc_ctx l) l' =
      (if 0 \<le> n \<and> n < ll_len E (ll_list l)
       then take (nat n) (llist_elems E l) @ drop (Suc (nat n)) (llist_elems E l)
       else llist_elems E l)"
    unfolding ll_remove_law_def llist_elems_def by (metis snd_conv)+
  with op len assms show ?thesis
    by (simp add: llist_remove_n_def llist_ok_def llist_elems_def)
qed

interpretation ll: list_object "llist_ok E" "llist_elems E" malloc_ctx "llist_len E"
    "llist_insert_first E" "llist_insert_last E" "llist_remove_n E" "llist_remove_first E"
    "llist_get_n E" "llist_get_first E" for E :: "('m, 'l, 'k) ext"
proof unfold_locales
  show "llist_ok E q \<Longrightarrow> llist_len E q = int (length (llist_elems E q))" for q
    by (simp add: llist_ok_def llist_elems_def llist_len_def ll_laws_def length_ll_elems)
qed (blast intro: llist_insert_first_ok llist_insert_last_ok llist_remove_n_ok llist_remove_first_ok
    llist_get_n_val llist_get_first_val)+

lemma FOREACH_LIST_find:
  assumes "llist_ok E l" and "NULL \<notin> set (llist_elems E l)"
    and "\<And>i x. x \<in> set (llist_elems E l) \<Longrightarrow> body i x = Some (if P x then Some (f i x) else None)"
  shows "FOREACH_LIST E l cur body =
    Some (map_option (\<lambda>k. f (int k) (llist_elems E l ! k)) (first_slot P (llist_elems E l)))"
  unfolding FOREACH_LIST_def by (rule ll.foreach_find) (use assms in auto)

text \<open>
  \<open>llist_remove\<close> drops the first occurrence of the value, answers whether there was one, and
  restores the malloc context.
\<close>

lemma llist_remove_elems:
  assumes ok: "llist_ok E l" and nn: "NULL \<notin> set (llist_elems E l)"
  shows "\<exists>l'. llist_remove E l v cur =
      Some (if v \<in> set (llist_elems E l) then 1 else 0, l', cur) \<and> llist_ok E l'
      \<and> llist_elems E l' = remove1 v (llist_elems E l) \<and> malloc_ctx l' = malloc_ctx l"
proof -
  have loop: "FOREACH_LIST E l cur (\<lambda>i entry. Some (if entry = v then Some i else None)) =
    Some (map_option int (first_slot (\<lambda>x. x = v) (llist_elems E l)))"
    using FOREACH_LIST_find [OF ok nn, where P = "\<lambda>x. x = v" and f = "\<lambda>i x. i"]
    by (simp add: map_option_case)
  show ?thesis
  proof (cases "first_slot (\<lambda>x. x = v) (llist_elems E l)")
    case None
    then have "v \<notin> set (llist_elems E l)"
      by (auto simp: first_slot_None)
    with loop None ok show ?thesis
      by (simp add: llist_remove_def remove1_idem)
  next
    case (Some k)
    then have k: "k < length (llist_elems E l)" "llist_elems E l ! k = v"
      by (auto dest: first_slotD)
    then have mem: "v \<in> set (llist_elems E l)"
      by auto
    obtain r l' where op: "llist_remove_n E l (int k) cur = (r, l', cur)" "llist_ok E l'"
      "llist_elems E l' = take k (llist_elems E l) @ drop (Suc k) (llist_elems E l)"
      "malloc_ctx l' = malloc_ctx l"
      using llist_remove_n_ok [OF ok, of "int k" cur] k(1) by auto
    with loop Some mem show ?thesis
      by (simp add: llist_remove_def remove1_first_slot)
  qed
qed

end
