(* ===== verification/State.thy ===== *)
theory State
  imports LList
begin

text \<open>
  The data of \<open>util.h\<close>, \<open>socket.h\<close> and \<open>event.h\<close>.  The library is compiled twice, with and
  without \<open>MODE_SERVER\<close>; the two builds declare the fields of \<open>struct interface\<close> and
  \<open>struct connection\<close> in swapped order, so that the same bytes of shared memory are
  \<open>own_...\<close> for one process and \<open>remote_...\<close> for the other.  The records below name the
  fields by their position (\<open>buf1\<close>, \<open>buf2\<close>, ...) and the views \<open>recvBuffer md\<close>,
  \<open>own_events md\<close>, ... read them as the build \<open>md\<close> does.
\<close>

section \<open>The build a process runs\<close>

datatype mode = Server | Client

fun peer :: "mode \<Rightarrow> mode" where
  "peer Server = Client"
| "peer Client = Server"

lemma peer_peer [simp]: "peer (peer md) = md"
  by (cases md) simp_all

lemma peer_neq [simp]: "peer md \<noteq> md" "md \<noteq> peer md"
  by (cases md; simp)+

section \<open>Structures in shared memory\<close>

type_synonym sock_address = int

text \<open>\<open>enum connectionState\<close>, with the order of the C enumerators.\<close>

datatype connectionState = c_create | c_open | c_close | c_listen

fun connectionState_value :: "connectionState \<Rightarrow> nat" where
  "connectionState_value c_create = 0"
| "connectionState_value c_open = 1"
| "connectionState_value c_close = 2"
| "connectionState_value c_listen = 3"

lemma connectionState_value_inject:
  "connectionState_value a = connectionState_value b \<Longrightarrow> a = b"
  by (cases a; cases b) simp_all

instantiation connectionState :: linorder
begin

definition less_eq_connectionState :: "connectionState \<Rightarrow> connectionState \<Rightarrow> bool" where
  "less_eq_connectionState a b \<longleftrightarrow> connectionState_value a \<le> connectionState_value b"

definition less_connectionState :: "connectionState \<Rightarrow> connectionState \<Rightarrow> bool" where
  "less_connectionState a b \<longleftrightarrow> connectionState_value a < connectionState_value b"

instance
  by standard
    (auto simp: less_eq_connectionState_def less_connectionState_def
      dest: connectionState_value_inject)

end

record 'l interface =
  magic :: int
  connectionList :: "'l llist option"
  addr1 :: sock_address
  addr2 :: sock_address
  shmemSize :: int
  shmemStart :: ptr
  shmemEnd :: ptr

text \<open>
  A buffer or list field is \<open>None\<close> while the program has not initialised it (the list
  fields of a listener's connection never are).
\<close>

record 'l connection =
  connState :: connectionState
  pAssociatedIface :: ptr
  buf1 :: "'l llist option"
  buf2 :: "'l llist option"
  ev1 :: eventmask
  ev2 :: eventmask
  lt1 :: eventmask
  lt2 :: eventmask
  port1 :: int
  port2 :: int

record bufferEntry =
  datasize :: int
  offset :: int
  data_bytes :: "byte list"

section \<open>The two views\<close>

definition own_address :: "mode \<Rightarrow> 'l interface \<Rightarrow> sock_address" where
  [view_defs]: "own_address md i = (case md of Server \<Rightarrow> addr1 i | Client \<Rightarrow> addr2 i)"

definition remote_address :: "mode \<Rightarrow> 'l interface \<Rightarrow> sock_address" where
  [view_defs]: "remote_address md i = (case md of Server \<Rightarrow> addr2 i | Client \<Rightarrow> addr1 i)"

definition set_own_address :: "mode \<Rightarrow> sock_address \<Rightarrow> 'l interface \<Rightarrow> 'l interface" where
  [view_defs]: "set_own_address md v i =
     (case md of Server \<Rightarrow> i\<lparr>addr1 := v\<rparr> | Client \<Rightarrow> i\<lparr>addr2 := v\<rparr>)"

definition set_remote_address :: "mode \<Rightarrow> sock_address \<Rightarrow> 'l interface \<Rightarrow> 'l interface" where
  [view_defs]: "set_remote_address md v i =
     (case md of Server \<Rightarrow> i\<lparr>addr2 := v\<rparr> | Client \<Rightarrow> i\<lparr>addr1 := v\<rparr>)"

definition recvBuffer :: "mode \<Rightarrow> 'l connection \<Rightarrow> 'l llist option" where
  [view_defs]: "recvBuffer md c = (case md of Server \<Rightarrow> buf1 c | Client \<Rightarrow> buf2 c)"

definition sendBuffer :: "mode \<Rightarrow> 'l connection \<Rightarrow> 'l llist option" where
  [view_defs]: "sendBuffer md c = (case md of Server \<Rightarrow> buf2 c | Client \<Rightarrow> buf1 c)"

definition set_recvBuffer :: "mode \<Rightarrow> 'l llist option \<Rightarrow> 'l connection \<Rightarrow> 'l connection" where
  [view_defs]: "set_recvBuffer md v c =
     (case md of Server \<Rightarrow> c\<lparr>buf1 := v\<rparr> | Client \<Rightarrow> c\<lparr>buf2 := v\<rparr>)"

definition set_sendBuffer :: "mode \<Rightarrow> 'l llist option \<Rightarrow> 'l connection \<Rightarrow> 'l connection" where
  [view_defs]: "set_sendBuffer md v c =
     (case md of Server \<Rightarrow> c\<lparr>buf2 := v\<rparr> | Client \<Rightarrow> c\<lparr>buf1 := v\<rparr>)"

definition own_events :: "mode \<Rightarrow> 'l connection \<Rightarrow> eventmask" where
  [view_defs]: "own_events md c = (case md of Server \<Rightarrow> ev1 c | Client \<Rightarrow> ev2 c)"

definition remote_events :: "mode \<Rightarrow> 'l connection \<Rightarrow> eventmask" where
  [view_defs]: "remote_events md c = (case md of Server \<Rightarrow> ev2 c | Client \<Rightarrow> ev1 c)"

definition set_own_events :: "mode \<Rightarrow> eventmask \<Rightarrow> 'l connection \<Rightarrow> 'l connection" where
  [view_defs]: "set_own_events md v c =
     (case md of Server \<Rightarrow> c\<lparr>ev1 := v\<rparr> | Client \<Rightarrow> c\<lparr>ev2 := v\<rparr>)"

definition set_remote_events :: "mode \<Rightarrow> eventmask \<Rightarrow> 'l connection \<Rightarrow> 'l connection" where
  [view_defs]: "set_remote_events md v c =
     (case md of Server \<Rightarrow> c\<lparr>ev2 := v\<rparr> | Client \<Rightarrow> c\<lparr>ev1 := v\<rparr>)"

definition own_lt_events :: "mode \<Rightarrow> 'l connection \<Rightarrow> eventmask" where
  [view_defs]: "own_lt_events md c = (case md of Server \<Rightarrow> lt1 c | Client \<Rightarrow> lt2 c)"

definition remote_lt_events :: "mode \<Rightarrow> 'l connection \<Rightarrow> eventmask" where
  [view_defs]: "remote_lt_events md c = (case md of Server \<Rightarrow> lt2 c | Client \<Rightarrow> lt1 c)"

definition set_own_lt_events :: "mode \<Rightarrow> eventmask \<Rightarrow> 'l connection \<Rightarrow> 'l connection" where
  [view_defs]: "set_own_lt_events md v c =
     (case md of Server \<Rightarrow> c\<lparr>lt1 := v\<rparr> | Client \<Rightarrow> c\<lparr>lt2 := v\<rparr>)"

definition set_remote_lt_events :: "mode \<Rightarrow> eventmask \<Rightarrow> 'l connection \<Rightarrow> 'l connection" where
  [view_defs]: "set_remote_lt_events md v c =
     (case md of Server \<Rightarrow> c\<lparr>lt2 := v\<rparr> | Client \<Rightarrow> c\<lparr>lt1 := v\<rparr>)"

definition own_port :: "mode \<Rightarrow> 'l connection \<Rightarrow> int" where
  [view_defs]: "own_port md c = (case md of Server \<Rightarrow> port1 c | Client \<Rightarrow> port2 c)"

definition remote_port :: "mode \<Rightarrow> 'l connection \<Rightarrow> int" where
  [view_defs]: "remote_port md c = (case md of Server \<Rightarrow> port2 c | Client \<Rightarrow> port1 c)"

definition set_own_port :: "mode \<Rightarrow> int \<Rightarrow> 'l connection \<Rightarrow> 'l connection" where
  [view_defs]: "set_own_port md v c =
     (case md of Server \<Rightarrow> c\<lparr>port1 := v\<rparr> | Client \<Rightarrow> c\<lparr>port2 := v\<rparr>)"

definition set_remote_port :: "mode \<Rightarrow> int \<Rightarrow> 'l connection \<Rightarrow> 'l connection" where
  [view_defs]: "set_remote_port md v c =
     (case md of Server \<Rightarrow> c\<lparr>port2 := v\<rparr> | Client \<Rightarrow> c\<lparr>port1 := v\<rparr>)"

text \<open>
  The contract of a pair of mirrored fields: writing one leaves the other alone, and what is
  own for a process is remote for its peer.
\<close>

locale mirrored =
  fixes own remote :: "mode \<Rightarrow> 'c \<Rightarrow> 'v"
    and set_own set_remote :: "mode \<Rightarrow> 'v \<Rightarrow> 'c \<Rightarrow> 'c"
  assumes own_set [simp]: "own md (set_own md v c) = v"
    and remote_set [simp]: "remote md (set_own md v c) = remote md c"
    and remote_peer: "remote md c = own (peer md) c"
    and set_remote_peer: "set_remote md v c = set_own (peer md) v c"
begin

lemma remote_set_remote [simp]: "remote md (set_remote md v c) = v"
  by (simp add: remote_peer set_remote_peer)

lemma own_set_remote [simp]: "own md (set_remote md v c) = own md c"
  using remote_set [of "peer md" v c] by (simp add: remote_peer set_remote_peer)

lemma peer_remote [simp]: "remote (peer md) c = own md c"
  by (simp add: remote_peer)

lemma peer_own [simp]: "own (peer md) c = remote md c"
  by (simp add: remote_peer)

text \<open>What a process writes into a remote field is what its peer reads in the own field.\<close>

lemma write_remote_read_own: "own (peer md) (set_remote md v c) = v"
  by (simp only: peer_own remote_set_remote)

end

interpretation addresses: mirrored own_address remote_address set_own_address set_remote_address
  by unfold_locales (simp_all add: view_defs split: mode.splits)

interpretation buffers: mirrored recvBuffer sendBuffer set_recvBuffer set_sendBuffer
  by unfold_locales (simp_all add: view_defs split: mode.splits)

interpretation events: mirrored own_events remote_events set_own_events set_remote_events
  by unfold_locales (simp_all add: view_defs split: mode.splits)

interpretation lt_events: mirrored own_lt_events remote_lt_events set_own_lt_events
    set_remote_lt_events
  by unfold_locales (simp_all add: view_defs split: mode.splits)

interpretation ports: mirrored own_port remote_port set_own_port set_remote_port
  by unfold_locales (simp_all add: view_defs split: mode.splits)

text \<open>Fields of different pairs, and the shared fields, do not interfere.\<close>

lemma set_buffer_frame [simp]:
  "connState (set_recvBuffer md v c) = connState c"
  "pAssociatedIface (set_recvBuffer md v c) = pAssociatedIface c"
  "own_events md' (set_recvBuffer md v c) = own_events md' c"
  "remote_events md' (set_recvBuffer md v c) = remote_events md' c"
  "own_lt_events md' (set_recvBuffer md v c) = own_lt_events md' c"
  "remote_lt_events md' (set_recvBuffer md v c) = remote_lt_events md' c"
  "own_port md' (set_recvBuffer md v c) = own_port md' c"
  "remote_port md' (set_recvBuffer md v c) = remote_port md' c"
  "connState (set_sendBuffer md v c) = connState c"
  "pAssociatedIface (set_sendBuffer md v c) = pAssociatedIface c"
  "own_events md' (set_sendBuffer md v c) = own_events md' c"
  "remote_events md' (set_sendBuffer md v c) = remote_events md' c"
  "own_lt_events md' (set_sendBuffer md v c) = own_lt_events md' c"
  "remote_lt_events md' (set_sendBuffer md v c) = remote_lt_events md' c"
  "own_port md' (set_sendBuffer md v c) = own_port md' c"
  "remote_port md' (set_sendBuffer md v c) = remote_port md' c"
  by (simp_all add: view_defs split: mode.splits)

lemma set_events_frame [simp]:
  "connState (set_own_events md v c) = connState c"
  "pAssociatedIface (set_own_events md v c) = pAssociatedIface c"
  "recvBuffer md' (set_own_events md v c) = recvBuffer md' c"
  "sendBuffer md' (set_own_events md v c) = sendBuffer md' c"
  "own_lt_events md' (set_own_events md v c) = own_lt_events md' c"
  "remote_lt_events md' (set_own_events md v c) = remote_lt_events md' c"
  "own_port md' (set_own_events md v c) = own_port md' c"
  "remote_port md' (set_own_events md v c) = remote_port md' c"
  "buf1 (set_own_events md v c) = buf1 c"
  "buf2 (set_own_events md v c) = buf2 c"
  "connState (set_remote_events md v c) = connState c"
  "pAssociatedIface (set_remote_events md v c) = pAssociatedIface c"
  "recvBuffer md' (set_remote_events md v c) = recvBuffer md' c"
  "sendBuffer md' (set_remote_events md v c) = sendBuffer md' c"
  "own_lt_events md' (set_remote_events md v c) = own_lt_events md' c"
  "remote_lt_events md' (set_remote_events md v c) = remote_lt_events md' c"
  "own_port md' (set_remote_events md v c) = own_port md' c"
  "remote_port md' (set_remote_events md v c) = remote_port md' c"
  "buf1 (set_remote_events md v c) = buf1 c"
  "buf2 (set_remote_events md v c) = buf2 c"
  by (simp_all add: view_defs split: mode.splits)

lemma set_lt_events_frame [simp]:
  "connState (set_own_lt_events md v c) = connState c"
  "pAssociatedIface (set_own_lt_events md v c) = pAssociatedIface c"
  "recvBuffer md' (set_own_lt_events md v c) = recvBuffer md' c"
  "sendBuffer md' (set_own_lt_events md v c) = sendBuffer md' c"
  "own_events md' (set_own_lt_events md v c) = own_events md' c"
  "remote_events md' (set_own_lt_events md v c) = remote_events md' c"
  "own_port md' (set_own_lt_events md v c) = own_port md' c"
  "remote_port md' (set_own_lt_events md v c) = remote_port md' c"
  "buf1 (set_own_lt_events md v c) = buf1 c"
  "buf2 (set_own_lt_events md v c) = buf2 c"
  "connState (set_remote_lt_events md v c) = connState c"
  "pAssociatedIface (set_remote_lt_events md v c) = pAssociatedIface c"
  "recvBuffer md' (set_remote_lt_events md v c) = recvBuffer md' c"
  "sendBuffer md' (set_remote_lt_events md v c) = sendBuffer md' c"
  "own_events md' (set_remote_lt_events md v c) = own_events md' c"
  "remote_events md' (set_remote_lt_events md v c) = remote_events md' c"
  "own_port md' (set_remote_lt_events md v c) = own_port md' c"
  "remote_port md' (set_remote_lt_events md v c) = remote_port md' c"
  "buf1 (set_remote_lt_events md v c) = buf1 c"
  "buf2 (set_remote_lt_events md v c) = buf2 c"
  by (simp_all add: view_defs split: mode.splits)

lemma set_port_frame [simp]:
  "connState (set_own_port md v c) = connState c"
  "pAssociatedIface (set_own_port md v c) = pAssociatedIface c"
  "recvBuffer md' (set_own_port md v c) = recvBuffer md' c"
  "sendBuffer md' (set_own_port md v c) = sendBuffer md' c"
  "own_events md' (set_own_port md v c) = own_events md' c"
  "remote_events md' (set_own_port md v c) = remote_events md' c"
  "own_lt_events md' (set_own_port md v c) = own_lt_events md' c"
  "remote_lt_events md' (set_own_port md v c) = remote_lt_events md' c"
  "buf1 (set_own_port md v c) = buf1 c"
  "buf2 (set_own_port md v c) = buf2 c"
  "connState (set_remote_port md v c) = connState c"
  "pAssociatedIface (set_remote_port md v c) = pAssociatedIface c"
  "recvBuffer md' (set_remote_port md v c) = recvBuffer md' c"
  "sendBuffer md' (set_remote_port md v c) = sendBuffer md' c"
  "own_events md' (set_remote_port md v c) = own_events md' c"
  "remote_events md' (set_remote_port md v c) = remote_events md' c"
  "own_lt_events md' (set_remote_port md v c) = own_lt_events md' c"
  "remote_lt_events md' (set_remote_port md v c) = remote_lt_events md' c"
  "buf1 (set_remote_port md v c) = buf1 c"
  "buf2 (set_remote_port md v c) = buf2 c"
  by (simp_all add: view_defs split: mode.splits)

lemma set_connState_frame [simp]:
  "recvBuffer md (c\<lparr>connState := v\<rparr>) = recvBuffer md c"
  "sendBuffer md (c\<lparr>connState := v\<rparr>) = sendBuffer md c"
  "own_events md (c\<lparr>connState := v\<rparr>) = own_events md c"
  "remote_events md (c\<lparr>connState := v\<rparr>) = remote_events md c"
  "own_lt_events md (c\<lparr>connState := v\<rparr>) = own_lt_events md c"
  "remote_lt_events md (c\<lparr>connState := v\<rparr>) = remote_lt_events md c"
  "own_port md (c\<lparr>connState := v\<rparr>) = own_port md c"
  "remote_port md (c\<lparr>connState := v\<rparr>) = remote_port md c"
  by (simp_all add: view_defs split: mode.splits)

section \<open>Structures of a process\<close>

datatype socketState =
  s_created | s_bound | s_listen | s_open | s_close | s_connecting | s_connected | s_shutdown

text \<open>\<open>struct fd\<close>; a pointer to one is its index in the table \<open>fds\<close>.\<close>

record fd =
  num :: int
  fstate :: socketState
  listenPort :: int
  listenAddress :: sock_address
  flagNonblock :: "32 word"
  fd_pConn :: ptr
  fd_active :: bool

record eventListenFd =
  lfd_active :: bool
  isLevelTriggered :: bool
  lfd_event :: epoll_event
  lfd_fd :: nat

record epollfd =
  pfd_active :: bool
  pfd_num :: int
  allFlags :: int
  isMixed :: bool
  realPollfd :: int
  lfds :: "eventListenFd list"

text \<open>
  The state one API call works on: the shared memory (allocator, interfaces, connections,
  packets), the kernel with its files, and the static variables of the process that calls.
  \<open>poll_epollfd\<close> is the static \<open>epollfd\<close> of \<open>poll\<close>, \<open>cur_ctx\<close> the malloc context the
  allocator has recorded for the thread.
\<close>

record ('m, 'l, 'k) st =
  heap :: 'm
  ifaces :: "ptr \<rightharpoonup> 'l interface"
  conns :: "ptr \<rightharpoonup> 'l connection"
  bufs :: "ptr \<rightharpoonup> bufferEntry"
  kern :: 'k
  files :: "string \<rightharpoonup> string"
  interfaces :: "ptr list"
  fds :: "fd list"
  currentMaxFd :: int
  randomPort :: int
  pollfds :: "epollfd list"
  randomPollFd :: int
  poll_epollfd :: int
  errno :: errno
  cur_ctx :: ptr

definition MAX_INTERFACES :: nat where "MAX_INTERFACES = 10"
definition MAX_FDS :: nat where "MAX_FDS = 50"
definition MAX_POLLFDS :: nat where "MAX_POLLFDS = 50"
definition MAX_FDS_LISTEN :: nat where "MAX_FDS_LISTEN = 20"
definition FD_START :: int where "FD_START = 700"
definition POLLFD_START :: int where "POLLFD_START = FD_START + 200"
definition SYSTEM_MAX_FD :: int where "SYSTEM_MAX_FD = 1024"
definition IFACE_MAGIC :: int where "IFACE_MAGIC = 0x12344321"

lemmas limit_defs = MAX_INTERFACES_def MAX_FDS_def MAX_POLLFDS_def MAX_FDS_LISTEN_def
  FD_START_def POLLFD_START_def SYSTEM_MAX_FD_def

section \<open>Events\<close>

definition EPOLLIN :: eventmask where "EPOLLIN = 0x1"
definition EPOLLOUT :: eventmask where "EPOLLOUT = 0x4"
definition EPOLLHUP :: eventmask where "EPOLLHUP = 0x10"
definition EPOLLET :: eventmask where "EPOLLET = 0x80000000"

lemmas epoll_bits = EPOLLIN_def EPOLLOUT_def EPOLLHUP_def EPOLLET_def

definition IS_EVENT_SET :: "eventmask \<Rightarrow> eventmask \<Rightarrow> bool" where
  "IS_EVENT_SET eventmask event \<longleftrightarrow> eventmask AND event \<noteq> 0"

definition SET_EVENT :: "eventmask \<Rightarrow> eventmask \<Rightarrow> eventmask" where
  "SET_EVENT eventmask event = eventmask OR event"

definition CLEAR_EVENT :: "eventmask \<Rightarrow> eventmask \<Rightarrow> eventmask" where
  "CLEAR_EVENT eventmask event = eventmask AND NOT event"

lemma set_event_is_set: "event \<noteq> 0 \<Longrightarrow> IS_EVENT_SET (SET_EVENT m event) event"
  by (simp add: IS_EVENT_SET_def SET_EVENT_def bit.conj_disj_distrib2)

lemma cleared_event_is_not_set: "\<not> IS_EVENT_SET (CLEAR_EVENT m event) event"
  by (simp add: IS_EVENT_SET_def CLEAR_EVENT_def and.assoc)

section \<open>Memory\<close>

text \<open>\<open>malloc\<close> and \<open>free\<close> of \<open>_malloc.h\<close>, in the context that is current.\<close>

definition setMallocContext :: "ptr \<Rightarrow> ('m, 'l, 'k) st \<Rightarrow> ('m, 'l, 'k) st" where
  "setMallocContext c s = s\<lparr>cur_ctx := c\<rparr>"

definition malloc_block :: "('m, 'l, 'k) ext \<Rightarrow> nat \<Rightarrow> ('m, 'l, 'k) st \<Rightarrow> ptr \<times> ('m, 'l, 'k) st" where
  "malloc_block E n s =
     (let (p, m) = malloc E (cur_ctx s) n (heap s) in (p, s\<lparr>heap := m\<rparr>))"

definition free_block :: "('m, 'l, 'k) ext \<Rightarrow> ptr \<Rightarrow> ('m, 'l, 'k) st \<Rightarrow> ('m, 'l, 'k) st" where
  "free_block E p s = s\<lparr>heap := free E (cur_ctx s) p (heap s)\<rparr>"

text \<open>Access through a pointer; a \<open>NULL\<close> or freed pointer is undefined behaviour.\<close>

definition get_conn :: "ptr \<Rightarrow> ('m, 'l, 'k) st \<Rightarrow> 'l connection option" where
  "get_conn p s = (if p = NULL then None else conns s p)"

definition put_conn :: "ptr \<Rightarrow> 'l connection \<Rightarrow> ('m, 'l, 'k) st \<Rightarrow> ('m, 'l, 'k) st" where
  "put_conn p c s = s\<lparr>conns := (conns s)(p \<mapsto> c)\<rparr>"

definition get_iface :: "ptr \<Rightarrow> ('m, 'l, 'k) st \<Rightarrow> 'l interface option" where
  "get_iface p s = (if p = NULL then None else ifaces s p)"

definition put_iface :: "ptr \<Rightarrow> 'l interface \<Rightarrow> ('m, 'l, 'k) st \<Rightarrow> ('m, 'l, 'k) st" where
  "put_iface p i s = s\<lparr>ifaces := (ifaces s)(p \<mapsto> i)\<rparr>"

definition get_buf :: "ptr \<Rightarrow> ('m, 'l, 'k) st \<Rightarrow> bufferEntry option" where
  "get_buf p s = (if p = NULL then None else bufs s p)"

definition put_buf :: "ptr \<Rightarrow> bufferEntry \<Rightarrow> ('m, 'l, 'k) st \<Rightarrow> ('m, 'l, 'k) st" where
  "put_buf p b s = s\<lparr>bufs := (bufs s)(p \<mapsto> b)\<rparr>"

text \<open>\<open>errno = e; return -1;\<close>\<close>

definition fail :: "errno \<Rightarrow> ('m, 'l, 'k) st \<Rightarrow> (int \<times> ('m, 'l, 'k) st) option" where
  "fail e s = Some (-1, s\<lparr>errno := e\<rparr>)"

text \<open>A request to the kernel; it stores the error code it answers with in \<open>errno\<close>.\<close>

definition syscall ::
  "('m, 'l, 'k) ext \<Rightarrow> sysreq \<Rightarrow> ('m, 'l, 'k) st \<Rightarrow> sysres \<times> ('m, 'l, 'k) st" where
  "syscall E q s =
     (let (r, k) = kernel_call E q (kern s)
      in (r, s\<lparr>kern := k, errno := (case sys_errno r of None \<Rightarrow> errno s | Some e \<Rightarrow> e)\<rparr>))"

lemmas mem_defs = setMallocContext_def malloc_block_def free_block_def
  get_conn_def put_conn_def get_iface_def put_iface_def get_buf_def put_buf_def

end
