(* ===== verification/Memory.thy ===== *)
theory Memory
  imports State
begin

text \<open>
  What the shared memory looks like between two operations: every pointer stored in a list
  or a connection leads to a live object of the right kind in the right region, no packet is
  in two queues, and the allocator knows every object.  \<open>mem_wf\<close> collects these conditions;
  the lemmas say which updates keep them.
\<close>

section \<open>Well-formed memory\<close>

definition entry_ok :: "('m, 'l, 'k) ext \<Rightarrow> ('m, 'l, 'k) st \<Rightarrow> ptr \<Rightarrow> ptr \<Rightarrow> bool" where
  "entry_ok E s i q \<longleftrightarrow> q \<noteq> NULL \<and> (i, q) \<in> live E (heap s)
     \<and> (\<exists>b. bufs s q = Some b \<and> 0 \<le> offset b \<and> 0 \<le> datasize b
          \<and> offset b + datasize b = int (length (data_bytes b)))"

definition buf_ok :: "('m, 'l, 'k) ext \<Rightarrow> ('m, 'l, 'k) st \<Rightarrow> ptr \<Rightarrow> 'l llist option \<Rightarrow> bool" where
  "buf_ok E s i b \<longleftrightarrow> (\<exists>l. b = Some l \<and> llist_ok E l \<and> malloc_ctx l = i
     \<and> (\<forall>q \<in> set (llist_elems E l). entry_ok E s i q))"

definition conn_ok :: "('m, 'l, 'k) ext \<Rightarrow> ('m, 'l, 'k) st \<Rightarrow> ptr \<Rightarrow> 'l connection \<Rightarrow> bool" where
  "conn_ok E s p c \<longleftrightarrow>
     (if pAssociatedIface c = NULL
      then connState c \<in> {c_listen, c_close} \<and> buf1 c = None \<and> buf2 c = None
         \<and> (NULL, p) \<in> live E (heap s)
      else connState c \<noteq> c_listen \<and> pAssociatedIface c \<in> dom (ifaces s)
         \<and> (pAssociatedIface c, p) \<in> live E (heap s)
         \<and> buf_ok E s (pAssociatedIface c) (buf1 c) \<and> buf_ok E s (pAssociatedIface c) (buf2 c))"

definition opt_elems :: "('m, 'l, 'k) ext \<Rightarrow> 'l llist option \<Rightarrow> ptr list" where
  "opt_elems E b = (case b of None \<Rightarrow> [] | Some l \<Rightarrow> llist_elems E l)"

text \<open>The packets queued on a connection, in both directions.\<close>

definition conn_bufs :: "('m, 'l, 'k) ext \<Rightarrow> 'l connection \<Rightarrow> ptr list" where
  "conn_bufs E c = (if pAssociatedIface c = NULL then []
                    else opt_elems E (buf1 c) @ opt_elems E (buf2 c))"

definition list_ok :: "('m, 'l, 'k) ext \<Rightarrow> ('m, 'l, 'k) st \<Rightarrow> ptr \<Rightarrow> 'l llist option \<Rightarrow> bool" where
  "list_ok E s i b \<longleftrightarrow> (\<exists>l. b = Some l \<and> llist_ok E l \<and> malloc_ctx l = i
     \<and> distinct (llist_elems E l)
     \<and> (\<forall>p \<in> set (llist_elems E l). p \<noteq> NULL \<and>
          (\<exists>c. conns s p = Some c \<and> pAssociatedIface c = i)))"

definition mem_wf :: "('m, 'l, 'k) ext \<Rightarrow> ('m, 'l, 'k) st \<Rightarrow> bool" where
  "mem_wf E s \<longleftrightarrow> lib_ok E
     \<and> NULL \<notin> dom (conns s) \<and> NULL \<notin> dom (ifaces s)
     \<and> dom (conns s) \<inter> dom (bufs s) = {} \<and> dom (bufs s) \<subseteq> snd ` live E (heap s)
     \<and> (\<forall>p c. conns s p = Some c \<longrightarrow> conn_ok E s p c \<and> distinct (conn_bufs E c))
     \<and> (\<forall>p q c d. conns s p = Some c \<longrightarrow> conns s q = Some d \<longrightarrow> p \<noteq> q
          \<longrightarrow> set (conn_bufs E c) \<inter> set (conn_bufs E d) = {})
     \<and> (\<forall>i r. ifaces s i = Some r \<longrightarrow> list_ok E s i (connectionList r))"

lemma mem_wfI:
  assumes "lib_ok E" and "NULL \<notin> dom (conns s)" and "NULL \<notin> dom (ifaces s)"
    and "dom (conns s) \<inter> dom (bufs s) = {}" and "dom (bufs s) \<subseteq> snd ` live E (heap s)"
    and "\<And>p c. conns s p = Some c \<Longrightarrow> conn_ok E s p c"
    and "\<And>p c. conns s p = Some c \<Longrightarrow> distinct (conn_bufs E c)"
    and "\<And>p q c d. conns s p = Some c \<Longrightarrow> conns s q = Some d \<Longrightarrow> p \<noteq> q
           \<Longrightarrow> set (conn_bufs E c) \<inter> set (conn_bufs E d) = {}"
    and "\<And>i r. ifaces s i = Some r \<Longrightarrow> list_ok E s i (connectionList r)"
  shows "mem_wf E s"
  using assms unfolding mem_wf_def by blast

lemma mem_wfD:
  assumes "mem_wf E s"
  shows "lib_ok E" and "ll_laws E" and "malloc_laws E"
    and "NULL \<notin> dom (conns s)" and "NULL \<notin> dom (ifaces s)"
    and "dom (conns s) \<inter> dom (bufs s) = {}" and "dom (bufs s) \<subseteq> snd ` live E (heap s)"
  using assms by (simp_all add: mem_wf_def lib_ok_def)

lemma mem_wf_conn:
  assumes "mem_wf E s" and "conns s p = Some c"
  shows "conn_ok E s p c" and "distinct (conn_bufs E c)" and "p \<noteq> NULL"
  using assms by (auto simp: mem_wf_def)

lemma mem_wf_disjoint:
  assumes "mem_wf E s" and "conns s p = Some c" and "conns s q = Some d" and "p \<noteq> q"
  shows "set (conn_bufs E c) \<inter> set (conn_bufs E d) = {}"
  using assms by (simp add: mem_wf_def)

lemma mem_wf_iface:
  assumes "mem_wf E s" and "ifaces s i = Some r"
  shows "list_ok E s i (connectionList r)" and "i \<noteq> NULL"
  using assms by (auto simp: mem_wf_def)

lemma mem_wf_get_conn: "mem_wf E s \<Longrightarrow> get_conn p s = conns s p"
  by (auto simp: get_conn_def mem_wf_def dom_def)

lemma mem_wf_get_iface: "mem_wf E s \<Longrightarrow> get_iface p s = ifaces s p"
  by (auto simp: get_iface_def mem_wf_def dom_def)

text \<open>Only the four components of shared memory matter.\<close>

lemma mem_wf_cong:
  assumes "heap s = heap t" and "ifaces s = ifaces t" and "conns s = conns t"
    and "bufs s = bufs t"
  shows "mem_wf E s = mem_wf E t"
  using assms
  by (simp add: mem_wf_def conn_ok_def buf_ok_def entry_ok_def list_ok_def)

lemma mem_wf_frame [simp]:
  "mem_wf E (s\<lparr>cur_ctx := a\<rparr>) = mem_wf E s"
  "mem_wf E (s\<lparr>fds := b\<rparr>) = mem_wf E s"
  "mem_wf E (s\<lparr>currentMaxFd := d\<rparr>) = mem_wf E s"
  "mem_wf E (s\<lparr>randomPort := d\<rparr>) = mem_wf E s"
  "mem_wf E (s\<lparr>pollfds := e\<rparr>) = mem_wf E s"
  "mem_wf E (s\<lparr>randomPollFd := d\<rparr>) = mem_wf E s"
  "mem_wf E (s\<lparr>poll_epollfd := d\<rparr>) = mem_wf E s"
  "mem_wf E (s\<lparr>errno := f\<rparr>) = mem_wf E s"
  "mem_wf E (s\<lparr>kern := g\<rparr>) = mem_wf E s"
  by (rule mem_wf_cong; simp)+

lemma mem_wf_setMallocContext [simp]: "mem_wf E (setMallocContext c s) = mem_wf E s"
  by (simp add: setMallocContext_def)

section \<open>Parts that survive an update\<close>

lemma entry_ok_mono:
  assumes "entry_ok E s i q" and "live E (heap s) \<subseteq> live E (heap t)" and "bufs t q = bufs s q"
  shows "entry_ok E t i q"
  using assms by (auto simp: entry_ok_def)

lemma buf_ok_mono:
  assumes "buf_ok E s i b" and "live E (heap s) \<subseteq> live E (heap t)"
    and "\<And>q. q \<in> set (opt_elems E b) \<Longrightarrow> bufs t q = bufs s q"
  shows "buf_ok E t i b"
  using assms by (force simp: buf_ok_def opt_elems_def intro: entry_ok_mono)

lemma conn_ok_mono:
  assumes "conn_ok E s p c" and "live E (heap s) \<subseteq> live E (heap t)"
    and "dom (ifaces s) \<subseteq> dom (ifaces t)"
    and "\<And>q. q \<in> set (conn_bufs E c) \<Longrightarrow> bufs t q = bufs s q"
  shows "conn_ok E t p c"
proof (cases "pAssociatedIface c = NULL")
  case True
  with assms(1,2) show ?thesis by (auto simp: conn_ok_def)
next
  case False
  with assms(4) have "\<And>q. q \<in> set (opt_elems E (buf1 c)) \<Longrightarrow> bufs t q = bufs s q"
    and "\<And>q. q \<in> set (opt_elems E (buf2 c)) \<Longrightarrow> bufs t q = bufs s q"
    by (simp_all add: conn_bufs_def)
  with assms(1-3) False show ?thesis
    unfolding conn_ok_def using buf_ok_mono [OF _ assms(2)] by (simp add: subset_iff)
qed

lemma list_ok_mono:
  assumes "list_ok E s i b"
    and sub: "\<And>p c. conns s p = Some c \<Longrightarrow> pAssociatedIface c = i \<Longrightarrow>
           \<exists>d. conns t p = Some d \<and> pAssociatedIface d = i"
  shows "list_ok E t i b"
proof -
  from assms(1) obtain l where l: "b = Some l" "llist_ok E l" "malloc_ctx l = i"
    "distinct (llist_elems E l)"
    and mem: "\<And>p. p \<in> set (llist_elems E l) \<Longrightarrow>
      p \<noteq> NULL \<and> (\<exists>c. conns s p = Some c \<and> pAssociatedIface c = i)"
    by (auto simp: list_ok_def)
  have "p \<noteq> NULL \<and> (\<exists>c. conns t p = Some c \<and> pAssociatedIface c = i)"
    if "p \<in> set (llist_elems E l)" for p
    using mem [OF that] sub by (elim conjE exE) simp
  with l show ?thesis
    unfolding list_ok_def by (intro exI [of _ l]) simp
qed

lemma conn_bufs_live:
  assumes "mem_wf E s" and "conns s p = Some c" and "q \<in> set (conn_bufs E c)"
  shows "entry_ok E s (pAssociatedIface c) q"
  using mem_wf_conn(1) [OF assms(1,2)] assms(3)
  by (auto simp: conn_ok_def buf_ok_def conn_bufs_def opt_elems_def split: if_splits)

section \<open>Updates that keep the memory well-formed\<close>

text \<open>
  Rewriting a connection in place: it stays with its interface and queues no packet it did
  not queue before.
\<close>

lemma mem_wf_put_conn:
  assumes wf: "mem_wf E s" and c: "conns s p = Some c"
    and ok: "conn_ok E s p c'" and dist: "distinct (conn_bufs E c')"
    and sub: "set (conn_bufs E c') \<subseteq> set (conn_bufs E c)"
    and same: "pAssociatedIface c' = pAssociatedIface c"
  shows "mem_wf E (put_conn p c' s)"
proof (rule mem_wfI)
  let ?t = "put_conn p c' s"
  have t: "heap ?t = heap s" "ifaces ?t = ifaces s" "bufs ?t = bufs s"
    "conns ?t = (conns s)(p \<mapsto> c')" and dom: "dom (conns ?t) = dom (conns s)"
    using c by (auto simp: put_conn_def)
  show "lib_ok E" "NULL \<notin> dom (conns ?t)" "NULL \<notin> dom (ifaces ?t)"
    "dom (conns ?t) \<inter> dom (bufs ?t) = {}" "dom (bufs ?t) \<subseteq> snd ` live E (heap ?t)"
    unfolding dom t(1-3) by (rule mem_wfD [OF wf])+
  have keep: "conn_ok E ?t q d" if "conn_ok E s q d" for q d
    by (rule conn_ok_mono [OF that]) (simp_all add: t)
  show "conn_ok E ?t q d" "distinct (conn_bufs E d)" if "conns ?t q = Some d" for q d
    using that keep ok dist mem_wf_conn [OF wf] by (auto simp: t split: if_splits)
  show "set (conn_bufs E d) \<inter> set (conn_bufs E e) = {}"
    if "conns ?t q = Some d" "conns ?t r = Some e" "q \<noteq> r" for q r d e
    using that sub mem_wf_disjoint [OF wf] c by (fastforce simp: t split: if_splits)
  show "list_ok E ?t i (connectionList r)" if "ifaces ?t i = Some r" for i r
    by (rule list_ok_mono [of E s])
      (use that mem_wf_iface [OF wf] c same in \<open>auto simp: t\<close>)
qed

text \<open>The common case: neither the interface nor the queues change.\<close>

lemma mem_wf_put_conn_same:
  assumes wf: "mem_wf E s" and c: "conns s p = Some c"
    and "pAssociatedIface c' = pAssociatedIface c" and "buf1 c' = buf1 c" and "buf2 c' = buf2 c"
    and "if pAssociatedIface c = NULL then connState c' \<in> {c_listen, c_close}
         else connState c' \<noteq> c_listen"
  shows "mem_wf E (put_conn p c' s)"
proof (rule mem_wf_put_conn [OF wf c])
  show "conn_ok E s p c'"
    using mem_wf_conn(1) [OF wf c] assms(3-6) by (simp add: conn_ok_def split: if_splits)
  have "conn_bufs E c' = conn_bufs E c"
    by (simp add: conn_bufs_def assms(3-5))
  then show "distinct (conn_bufs E c')" and "set (conn_bufs E c') \<subseteq> set (conn_bufs E c)"
    using mem_wf_conn(2) [OF wf c] by simp_all
qed (rule assms(3))

text \<open>A block from the allocator is not an object of the model.\<close>

lemma mem_wf_fresh:
  assumes wf: "mem_wf E s" and m: "malloc E ctx n (heap s) = (p, m')" and "p \<noteq> NULL"
  shows "conns s p = None" and "bufs s p = None" and "live E m' = insert (ctx, p) (live E (heap s))"
proof -
  have fresh: "p \<notin> snd ` live E (heap s)"
    and "live E m' = insert (ctx, p) (live E (heap s))"
    using malloc_fresh [OF mem_wfD(3) [OF wf] m \<open>p \<noteq> NULL\<close>] by simp_all
  then show "live E m' = insert (ctx, p) (live E (heap s))"
    by simp
  show "conns s p = None"
  proof (rule ccontr)
    assume "conns s p \<noteq> None"
    then obtain c where "conns s p = Some c" by auto
    then have "conn_ok E s p c" by (rule mem_wf_conn(1) [OF wf])
    with fresh show False by (force simp: conn_ok_def split: if_splits)
  qed
  show "bufs s p = None"
    using fresh mem_wfD(7) [OF wf] by auto
qed

lemma mem_wf_malloc:
  assumes wf: "mem_wf E s" and m: "malloc E ctx n (heap s) = (p, m')"
  shows "mem_wf E (s\<lparr>heap := m'\<rparr>)"
proof (rule mem_wfI)
  let ?t = "s\<lparr>heap := m'\<rparr>"
  have sub: "live E (heap s) \<subseteq> live E m'"
  proof (cases "p = NULL")
    case True
    with m malloc_fails [OF mem_wfD(3) [OF wf]] show ?thesis by simp
  next
    case False
    with mem_wf_fresh(3) [OF wf m] show ?thesis by auto
  qed
  show "lib_ok E" "NULL \<notin> dom (conns ?t)" "NULL \<notin> dom (ifaces ?t)"
    "dom (conns ?t) \<inter> dom (bufs ?t) = {}" "dom (bufs ?t) \<subseteq> snd ` live E (heap ?t)"
    using mem_wfD [OF wf] image_mono [OF sub, of snd] by auto
  show "conn_ok E ?t q d" "distinct (conn_bufs E d)" if "conns ?t q = Some d" for q d
    using that mem_wf_conn [OF wf, of q d] conn_ok_mono [of E s q d ?t] sub by auto
  show "set (conn_bufs E d) \<inter> set (conn_bufs E e) = {}"
    if "conns ?t q = Some d" "conns ?t r = Some e" "q \<noteq> r" for q r d e
    using that mem_wf_disjoint [OF wf, of q d r e] by simp
  show "list_ok E ?t i (connectionList r)" if "ifaces ?t i = Some r" for i r
    by (rule list_ok_mono [of E s]) (use mem_wf_iface(1) [OF wf, of i r] that in auto)
qed

text \<open>A new connection at a fresh address, with empty queues.\<close>

lemma mem_wf_new_conn:
  assumes wf: "mem_wf E s" and "conns s p = None" and "bufs s p = None" and "p \<noteq> NULL"
    and ok: "conn_ok E s p c" and empty: "conn_bufs E c = []"
  shows "mem_wf E (put_conn p c s)"
proof (rule mem_wfI)
  let ?t = "put_conn p c s"
  have t: "heap ?t = heap s" "ifaces ?t = ifaces s" "bufs ?t = bufs s"
    "conns ?t = (conns s)(p \<mapsto> c)"
    by (simp_all add: put_conn_def)
  show "lib_ok E" "NULL \<notin> dom (conns ?t)" "NULL \<notin> dom (ifaces ?t)"
    "dom (conns ?t) \<inter> dom (bufs ?t) = {}" "dom (bufs ?t) \<subseteq> snd ` live E (heap ?t)"
    using mem_wfD [OF wf] assms(3,4) by (auto simp: t)
  have keep: "conn_ok E ?t q d" if "conn_ok E s q d" for q d
    by (rule conn_ok_mono [OF that]) (simp_all add: t)
  show "conn_ok E ?t q d" "distinct (conn_bufs E d)" if "conns ?t q = Some d" for q d
    using that keep ok empty mem_wf_conn [OF wf] by (auto simp: t split: if_splits)
  show "set (conn_bufs E d) \<inter> set (conn_bufs E e) = {}"
    if "conns ?t q = Some d" "conns ?t r = Some e" "q \<noteq> r" for q r d e
    using that empty mem_wf_disjoint [OF wf] by (auto simp: t split: if_splits)
  show "list_ok E ?t i (connectionList r)" if "ifaces ?t i = Some r" for i r
    by (rule list_ok_mono [of E s])
      (use that mem_wf_iface [OF wf] assms(2) in \<open>auto simp: t\<close>)
qed

text \<open>A new connection list for an interface.\<close>

lemma mem_wf_put_iface:
  assumes wf: "mem_wf E s" and r: "ifaces s i = Some r" and "list_ok E s i (connectionList r')"
  shows "mem_wf E (put_iface i r' s)"
proof (rule mem_wfI)
  let ?t = "put_iface i r' s"
  have t: "heap ?t = heap s" "conns ?t = conns s" "bufs ?t = bufs s"
    "ifaces ?t = (ifaces s)(i \<mapsto> r')" and dom: "dom (ifaces ?t) = dom (ifaces s)"
    using r by (auto simp: put_iface_def)
  show "lib_ok E" "NULL \<notin> dom (conns ?t)" "NULL \<notin> dom (ifaces ?t)"
    "dom (conns ?t) \<inter> dom (bufs ?t) = {}" "dom (bufs ?t) \<subseteq> snd ` live E (heap ?t)"
    unfolding dom t(1-3) by (rule mem_wfD [OF wf])+
  show "conn_ok E ?t q d" "distinct (conn_bufs E d)" if "conns ?t q = Some d" for q d
    using that mem_wf_conn [OF wf, of q d] conn_ok_mono [of E s q d ?t] dom by (auto simp: t)
  show "set (conn_bufs E d) \<inter> set (conn_bufs E e) = {}"
    if "conns ?t q = Some d" "conns ?t r = Some e" "q \<noteq> r" for q r d e
    using that mem_wf_disjoint [OF wf, of q d r e] by (simp add: t)
  show "list_ok E ?t j (connectionList w)" if "ifaces ?t j = Some w" for j w
    by (rule list_ok_mono [of E s])
      (use that mem_wf_iface(1) [OF wf] assms(3) in \<open>auto simp: t split: if_splits\<close>)
qed

text \<open>Freeing a connection that is on no connection list.\<close>

lemma mem_wf_free_conn:
  assumes wf: "mem_wf E s" and c: "conns s p = Some c"
    and i: "pAssociatedIface c = i" "i \<noteq> NULL"
    and off: "\<And>j r l. ifaces s j = Some r \<Longrightarrow> connectionList r = Some l \<Longrightarrow> p \<notin> set (llist_elems E l)"
  shows "mem_wf E (s\<lparr>heap := free E i p (heap s), conns := (conns s)(p := None)\<rparr>)"
proof (rule mem_wfI)
  let ?t = "s\<lparr>heap := free E i p (heap s), conns := (conns s)(p := None)\<rparr>"
  have ip: "(i, p) \<in> live E (heap s)"
    using mem_wf_conn(1) [OF wf c] i by (simp add: conn_ok_def)
  have lv: "live E (heap ?t) = live E (heap s) - {(i, p)}"
    using free_live [OF mem_wfD(3) [OF wf] ip] by simp
  have notbuf: "p \<notin> dom (bufs s)"
    using c mem_wfD(6) [OF wf] by auto
  show "lib_ok E" "NULL \<notin> dom (conns ?t)" "NULL \<notin> dom (ifaces ?t)"
    "dom (conns ?t) \<inter> dom (bufs ?t) = {}"
    using mem_wfD [OF wf] by auto
  show "dom (bufs ?t) \<subseteq> snd ` live E (heap ?t)"
    unfolding lv using mem_wfD(7) [OF wf] notbuf by force
  have ent: "entry_ok E ?t j q" if "entry_ok E s j q" for j q
    using that notbuf unfolding entry_ok_def lv by (auto simp: dom_def)
  have buf: "buf_ok E ?t j b" if "buf_ok E s j b" for j b
    using that ent unfolding buf_ok_def by blast
  have con: "conn_ok E ?t q d" if "conn_ok E s q d" "q \<noteq> p" for q d
    using that buf unfolding conn_ok_def lv by (auto split: if_splits)
  show "conn_ok E ?t q d" "distinct (conn_bufs E d)" if "conns ?t q = Some d" for q d
    using that con mem_wf_conn [OF wf, of q d] by (auto split: if_splits)
  show "set (conn_bufs E d) \<inter> set (conn_bufs E e) = {}"
    if "conns ?t q = Some d" "conns ?t r = Some e" "q \<noteq> r" for q r d e
    using that mem_wf_disjoint [OF wf] by (auto split: if_splits)
  show "list_ok E ?t j (connectionList r)" if "ifaces ?t j = Some r" for j r
  proof -
    from that obtain l where l: "connectionList r = Some l" "llist_ok E l" "malloc_ctx l = j"
      "distinct (llist_elems E l)" "\<forall>q \<in> set (llist_elems E l). q \<noteq> NULL \<and>
          (\<exists>c. conns s q = Some c \<and> pAssociatedIface c = j)"
      using mem_wf_iface(1) [OF wf, of j r] by (auto simp: list_ok_def)
    moreover have "p \<notin> set (llist_elems E l)"
      using off that l(1) by simp
    ultimately show ?thesis
      by (auto simp: list_ok_def)
  qed
qed

end
