(* ===== verification/Connection.thy ===== *)
theory Connection
  imports Memory
begin

text \<open>
  The connections of \<open>util.c\<close>: creating one in the region of an interface, offering it to
  the peer, searching and accepting an offered one, closing and removing it.  Every
  operation that follows a pointer returns an option, \<open>None\<close> for undefined behaviour.  The
  malloc context of an interface (\<open>&pIface->mctx\<close>) is named by the address of the
  interface.
\<close>

section \<open>Creation\<close>

text \<open>\<open>sizeof(struct connection)\<close> on a 64-bit target.\<close>

definition sizeof_connection :: nat where
  "sizeof_connection = 72"

definition blank_connection :: "'l connection" where
  [code_unfold]: "blank_connection = \<lparr>connState = c_create, pAssociatedIface = NULL, buf1 = None, buf2 = None,
     ev1 = 0, ev2 = 0, lt1 = 0, lt2 = 0, port1 = 0, port2 = 0\<rparr>"

definition createNewConnection ::
  "('m, 'l, 'k) ext \<Rightarrow> mode \<Rightarrow> ptr \<Rightarrow> int \<Rightarrow> int \<Rightarrow> ('m, 'l, 'k) st \<Rightarrow> (ptr \<times> ('m, 'l, 'k) st) option"
  where
  "createNewConnection E md pIface own remote s =
     (let s1 = setMallocContext pIface s;
          (pConn, s2) = malloc_block E sizeof_connection s1;
          s3 = setMallocContext NULL s2
      in if pConn = NULL then None
         else
           let c1 = set_remote_port md remote (set_own_port md own blank_connection);
               c2 = c1\<lparr>connState := c_create, pAssociatedIface := pIface\<rparr>;
               c3 = set_own_lt_events md 0 (set_remote_lt_events md 0 c2);
               c4 = set_own_events md 0 (set_remote_events md 0 c3);
               (rb, cur1) = llist_new E pIface (cur_ctx s3);
               (sb, cur2) = llist_new E pIface cur1;
               c5 = set_sendBuffer md (Some sb) (set_recvBuffer md (Some rb) c4)
           in Some (pConn, put_conn pConn c5 (setMallocContext cur2 s3)))"

definition createNewListenerConnection ::
  "('m, 'l, 'k) ext \<Rightarrow> mode \<Rightarrow> ('m, 'l, 'k) st \<Rightarrow> (ptr \<times> ('m, 'l, 'k) st) option" where
  "createNewListenerConnection E md s =
     (let (pConn, s1) = malloc_block E sizeof_connection s
      in if pConn = NULL then None
         else
           let c1 = set_remote_port md (-1) (set_own_port md (-1) blank_connection);
               c2 = c1\<lparr>connState := c_listen, pAssociatedIface := NULL\<rparr>;
               c3 = set_own_lt_events md 0 (set_remote_lt_events md 0 c2);
               c4 = set_own_events md 0 (set_remote_events md 0 c3)
           in Some (pConn, put_conn pConn c4 s1))"

definition initiateNewConnection ::
  "('m, 'l, 'k) ext \<Rightarrow> ptr \<Rightarrow> ('m, 'l, 'k) st \<Rightarrow> (bool \<times> ('m, 'l, 'k) st) option" where
  "initiateNewConnection E pConn s = do {
     c \<leftarrow> get_conn pConn s;
     i \<leftarrow> get_iface (pAssociatedIface c) s;
     list \<leftarrow> connectionList i;
     let (_, list', cur) = llist_insert_first E list pConn (cur_ctx s);
     Some (True, put_iface (pAssociatedIface c) (i\<lparr>connectionList := Some list'\<rparr>)
       (setMallocContext cur s))
   }"

definition checkIfAcceptedConnection :: "ptr \<Rightarrow> ('m, 'l, 'k) st \<Rightarrow> bool option" where
  "checkIfAcceptedConnection pConn s =
     do { c \<leftarrow> get_conn pConn s; Some (connState c = c_open) }"

definition checkIfClosedConnection :: "ptr \<Rightarrow> ('m, 'l, 'k) st \<Rightarrow> bool option" where
  "checkIfClosedConnection pConn s =
     do { c \<leftarrow> get_conn pConn s; Some (connState c = c_close) }"

section \<open>Searching and accepting\<close>

definition searchNewConnectionOnIface ::
  "('m, 'l, 'k) ext \<Rightarrow> mode \<Rightarrow> ptr \<Rightarrow> int \<Rightarrow> ('m, 'l, 'k) st \<Rightarrow> ptr option" where
  "searchNewConnectionOnIface E md pIface port s = do {
     i \<leftarrow> get_iface pIface s;
     list \<leftarrow> connectionList i;
     r \<leftarrow> FOREACH_LIST E list (cur_ctx s) (\<lambda>_ entry. do {
            c \<leftarrow> get_conn entry s;
            if connState c \<noteq> c_create then Some None
            else if own_port md c = port then Some (Some entry)
            else Some None });
     Some (case r of None \<Rightarrow> NULL | Some p \<Rightarrow> p)
   }"

text \<open>The two loops over \<open>interfaces[MAX_INTERFACES]\<close> recurse over the rest of the table.\<close>

fun search_table ::
  "('m, 'l, 'k) ext \<Rightarrow> mode \<Rightarrow> sock_address \<Rightarrow> int \<Rightarrow> ('m, 'l, 'k) st \<Rightarrow> ptr list \<Rightarrow> ptr option"
  where
  "search_table E md own_addr port s [] = Some NULL"
| "search_table E md own_addr port s (pIface # rest) =
     (if pIface = NULL then search_table E md own_addr port s rest
      else do {
        i \<leftarrow> get_iface pIface s;
        if own_address md i \<noteq> own_addr then search_table E md own_addr port s rest
        else do {
          pConn \<leftarrow> searchNewConnectionOnIface E md pIface port s;
          if pConn \<noteq> NULL then Some pConn
          else search_table E md own_addr port s rest } })"

definition searchNewConnectionOnAnyIface ::
  "('m, 'l, 'k) ext \<Rightarrow> mode \<Rightarrow> sock_address \<Rightarrow> int \<Rightarrow> ('m, 'l, 'k) st \<Rightarrow> ptr option" where
  "searchNewConnectionOnAnyIface E md own_addr port s =
     search_table E md own_addr port s (interfaces s)"

definition acceptNewConnectionOnIface ::
  "('m, 'l, 'k) ext \<Rightarrow> mode \<Rightarrow> ptr \<Rightarrow> int \<Rightarrow> ('m, 'l, 'k) st \<Rightarrow> (ptr \<times> ('m, 'l, 'k) st) option" where
  "acceptNewConnectionOnIface E md pIface port s = do {
     pConn \<leftarrow> searchNewConnectionOnIface E md pIface port s;
     if pConn \<noteq> NULL
     then do {
       c \<leftarrow> get_conn pConn s;
       Some (pConn, put_conn pConn (c\<lparr>connState := c_open\<rparr>) s) }
     else Some (NULL, s)
   }"

fun accept_table ::
  "('m, 'l, 'k) ext \<Rightarrow> mode \<Rightarrow> sock_address \<Rightarrow> int \<Rightarrow> ('m, 'l, 'k) st \<Rightarrow> ptr list
    \<Rightarrow> (ptr \<times> ('m, 'l, 'k) st) option" where
  "accept_table E md own_addr port s [] = Some (NULL, s)"
| "accept_table E md own_addr port s (pIface # rest) =
     (if pIface = NULL then accept_table E md own_addr port s rest
      else do {
        i \<leftarrow> get_iface pIface s;
        if own_addr \<noteq> 0 \<and> own_address md i \<noteq> own_addr
        then accept_table E md own_addr port s rest
        else do {
          (pConn, s') \<leftarrow> acceptNewConnectionOnIface E md pIface port s;
          if pConn \<noteq> NULL then Some (pConn, s')
          else accept_table E md own_addr port s' rest } })"

definition acceptNewConnectionOnAnyIface ::
  "('m, 'l, 'k) ext \<Rightarrow> mode \<Rightarrow> sock_address \<Rightarrow> int \<Rightarrow> ('m, 'l, 'k) st
    \<Rightarrow> (ptr \<times> ('m, 'l, 'k) st) option" where
  "acceptNewConnectionOnAnyIface E md own_addr port s =
     accept_table E md own_addr port s (interfaces s)"

section \<open>Removing and closing\<close>

definition removeConnection ::
  "('m, 'l, 'k) ext \<Rightarrow> mode \<Rightarrow> ptr \<Rightarrow> ('m, 'l, 'k) st \<Rightarrow> (bool \<times> ('m, 'l, 'k) st) option" where
  "removeConnection E md pConn s = do {
     c \<leftarrow> get_conn pConn s;
     i \<leftarrow> get_iface (pAssociatedIface c) s;
     list \<leftarrow> connectionList i;
     (_, list', cur1) \<leftarrow> llist_remove E list pConn (cur_ctx s);
     let s1 = put_iface (pAssociatedIface c) (i\<lparr>connectionList := Some list'\<rparr>)
                (setMallocContext cur1 s);
     rb \<leftarrow> recvBuffer md c;
     let (rb', cur2) = llist_delete E rb (cur_ctx s1);
     let s2 = put_conn pConn (set_recvBuffer md (Some rb') c) (setMallocContext cur2 s1);
     sb \<leftarrow> sendBuffer md c;
     let (sb', cur3) = llist_delete E sb (cur_ctx s2);
     let s3 = put_conn pConn (set_sendBuffer md (Some sb') (set_recvBuffer md (Some rb') c))
                (setMallocContext cur3 s2);
     let s4 = setMallocContext (pAssociatedIface c) s3;
     let s5 = (free_block E pConn s4)\<lparr>conns := (conns s4)(pConn := None)\<rparr>;
     Some (True, setMallocContext NULL s5)
   }"

definition closeConnection ::
  "('m, 'l, 'k) ext \<Rightarrow> mode \<Rightarrow> ptr \<Rightarrow> ('m, 'l, 'k) st \<Rightarrow> ('m, 'l, 'k) st option" where
  "closeConnection E md pConn s = do {
     c \<leftarrow> get_conn pConn s;
     if connState c = c_close then map_option snd (removeConnection E md pConn s)
     else if connState c = c_create then map_option snd (removeConnection E md pConn s)
     else
       let c1 = c\<lparr>connState := c_close\<rparr>;
           c2 = set_remote_events md (SET_EVENT (remote_events md c1) EPOLLHUP) c1
       in Some (put_conn pConn c2 s)
   }"

section \<open>Creating and offering a connection\<close>

lemma blank_view [simp]:
  "connState blank_connection = c_create" "pAssociatedIface blank_connection = NULL"
  "recvBuffer md blank_connection = None" "sendBuffer md blank_connection = None"
  by (simp_all add: blank_connection_def view_defs split: mode.splits)

text \<open>What \<open>createNewConnection\<close> and \<open>createNewListenerConnection\<close> fill in.\<close>

definition created ::
  "('m, 'l, 'k) ext \<Rightarrow> mode \<Rightarrow> ptr \<Rightarrow> int \<Rightarrow> int \<Rightarrow> 'l connection \<Rightarrow> bool" where
  "created E md i own remote c \<longleftrightarrow> connState c = c_create \<and> pAssociatedIface c = i
     \<and> own_port md c = own \<and> remote_port md c = remote
     \<and> own_events md c = 0 \<and> remote_events md c = 0
     \<and> own_lt_events md c = 0 \<and> remote_lt_events md c = 0
     \<and> (\<exists>l1 l2. buf1 c = Some l1 \<and> llist_ok E l1 \<and> malloc_ctx l1 = i \<and> llist_elems E l1 = []
          \<and> buf2 c = Some l2 \<and> llist_ok E l2 \<and> malloc_ctx l2 = i \<and> llist_elems E l2 = [])"

lemma createNewConnection_eq:
  assumes "ll_laws E" and m: "malloc E i sizeof_connection (heap s) = (p, m')"
  shows "if p = NULL then createNewConnection E md i own remote s = None
    else \<exists>c. createNewConnection E md i own remote s =
           Some (p, s\<lparr>heap := m', conns := (conns s)(p \<mapsto> c), cur_ctx := NULL\<rparr>)
         \<and> created E md i own remote c"
proof -
  obtain l where l: "\<And>cur. llist_new E i cur = (l, cur)" "llist_ok E l" "llist_elems E l = []"
    "malloc_ctx l = i"
    using llist_new_ok [OF assms(1), of i NULL]
    by (auto simp: llist_new_def Let_def)
  let ?c = "(set_sendBuffer md (Some l) (set_recvBuffer md (Some l)
      (set_own_events md 0 (set_remote_events md 0
        (set_own_lt_events md 0 (set_remote_lt_events md 0
          ((set_remote_port md remote (set_own_port md own blank_connection))
            \<lparr>connState := c_create, pAssociatedIface := i\<rparr>)))))))"
  have "created E md i own remote ?c"
    using l(2-4) by (cases md) (auto simp: created_def view_defs)
  moreover have "createNewConnection E md i own remote s =
    (if p = NULL then None
     else Some (p, s\<lparr>heap := m', conns := (conns s)(p \<mapsto> ?c), cur_ctx := NULL\<rparr>))"
    using m l(1) by (simp add: createNewConnection_def mem_defs Let_def)
  ultimately show ?thesis
    by auto
qed

lemma created_conn_ok:
  assumes "created E md i own remote c" and "i \<noteq> NULL" and "i \<in> dom (ifaces s)"
    and "(i, p) \<in> live E (heap s)"
  shows "conn_ok E s p c" and "conn_bufs E c = []"
  using assms by (auto simp: created_def conn_ok_def buf_ok_def conn_bufs_def opt_elems_def)

lemma createNewConnection_wf:
  assumes wf: "mem_wf E s" and i: "ifaces s i = Some r"
    and op: "createNewConnection E md i own remote s = Some (p, s')"
  obtains c m' where "s' = s\<lparr>heap := m', conns := (conns s)(p \<mapsto> c), cur_ctx := NULL\<rparr>"
    and "created E md i own remote c" and "p \<noteq> NULL" and "conns s p = None" and "mem_wf E s'"
    and "live E m' = insert (i, p) (live E (heap s))"
proof -
  obtain q m' where m: "malloc E i sizeof_connection (heap s) = (q, m')"
    by fastforce
  from createNewConnection_eq [OF mem_wfD(2) [OF wf] m, of md own remote] op obtain c
    where q: "q = p" "p \<noteq> NULL" and c: "created E md i own remote c"
      and s': "s' = s\<lparr>heap := m', conns := (conns s)(p \<mapsto> c), cur_ctx := NULL\<rparr>"
    by (auto split: if_splits)
  note fresh = mem_wf_fresh [OF wf m [unfolded q(1)] q(2)]
  have inz: "i \<noteq> NULL"
    using mem_wf_iface(2) [OF wf i] .
  have "mem_wf E (put_conn p c (s\<lparr>heap := m'\<rparr>))"
  proof (rule mem_wf_new_conn)
    show "mem_wf E (s\<lparr>heap := m'\<rparr>)"
      by (rule mem_wf_malloc [OF wf m])
    show "conn_ok E (s\<lparr>heap := m'\<rparr>) p c" and "conn_bufs E c = []"
      using created_conn_ok [OF c inz, of "s\<lparr>heap := m'\<rparr>" p] i fresh(3) by auto
  qed (use fresh q in simp_all)
  then have "mem_wf E s'"
    unfolding s' by (simp add: put_conn_def mem_wf_cong [of "s\<lparr>heap := m', conns := _, cur_ctx := 0\<rparr>"
        "s\<lparr>heap := m', conns := _\<rparr>"])
  with s' c q(2) fresh(1,3) that show ?thesis
    by blast
qed

text \<open>The connections an interface lists, newest first.\<close>

definition iface_conns :: "('m, 'l, 'k) ext \<Rightarrow> ('m, 'l, 'k) st \<Rightarrow> ptr \<Rightarrow> ptr list" where
  "iface_conns E s i = (case ifaces s i of
     None \<Rightarrow> [] | Some r \<Rightarrow> opt_elems E (connectionList r))"

lemma iface_list:
  assumes wf: "mem_wf E s" and r: "ifaces s i = Some r"
  obtains l where "connectionList r = Some l" and "llist_ok E l" and "malloc_ctx l = i"
    and "iface_conns E s i = llist_elems E l" and "distinct (llist_elems E l)"
    and "NULL \<notin> set (llist_elems E l)"
    and "\<And>p. p \<in> set (llist_elems E l) \<Longrightarrow> \<exists>c. conns s p = Some c \<and> pAssociatedIface c = i"
  using mem_wf_iface(1) [OF wf r] r that
  by (auto simp: list_ok_def iface_conns_def opt_elems_def)

lemma initiateNewConnection_wf:
  assumes wf: "mem_wf E s" and c: "conns s p = Some c" and i: "pAssociatedIface c \<noteq> NULL"
    and new: "p \<notin> set (iface_conns E s (pAssociatedIface c))"
  obtains r' where "initiateNewConnection E p s =
      Some (True, s\<lparr>ifaces := (ifaces s)(pAssociatedIface c \<mapsto> r')\<rparr>)"
    and "mem_wf E (s\<lparr>ifaces := (ifaces s)(pAssociatedIface c \<mapsto> r')\<rparr>)"
    and "opt_elems E (connectionList r') = p # iface_conns E s (pAssociatedIface c)"
    and "addr1 r' = addr1 (the (ifaces s (pAssociatedIface c)))"
    and "addr2 r' = addr2 (the (ifaces s (pAssociatedIface c)))"
proof -
  let ?i = "pAssociatedIface c"
  obtain r where r: "ifaces s ?i = Some r"
    using mem_wf_conn(1) [OF wf c] i by (auto simp: conn_ok_def)
  obtain l where l: "connectionList r = Some l" "llist_ok E l" "malloc_ctx l = ?i"
    "iface_conns E s ?i = llist_elems E l" "distinct (llist_elems E l)"
    "NULL \<notin> set (llist_elems E l)"
    "\<And>q. q \<in> set (llist_elems E l) \<Longrightarrow> \<exists>c'. conns s q = Some c' \<and> pAssociatedIface c' = ?i"
    using iface_list [OF wf r] by metis
  obtain x l' where op: "llist_insert_first E l p (cur_ctx s) = (x, l', cur_ctx s)"
    and l': "llist_ok E l'" "llist_elems E l' = p # llist_elems E l" "malloc_ctx l' = malloc_ctx l"
    using llist_insert_first_ok [OF l(2)] by blast
  let ?r' = "r\<lparr>connectionList := Some l'\<rparr>"
  have "list_ok E s ?i (connectionList ?r')"
    using l l' new c mem_wf_conn(3) [OF wf c] by (auto simp: list_ok_def intro!: gr0I)
  then have "mem_wf E (put_iface ?i ?r' s)"
    by (rule mem_wf_put_iface [OF wf r])
  moreover have "initiateNewConnection E p s = Some (True, put_iface ?i ?r' s)"
    using c r l(1) op
    by (simp add: initiateNewConnection_def mem_wf_get_conn [OF wf] mem_wf_get_iface [OF wf]
        setMallocContext_def)
  moreover have "opt_elems E (connectionList ?r') = p # iface_conns E s ?i"
    using l' l(4) by (simp add: opt_elems_def)
  ultimately show ?thesis
    using r by (intro that [of ?r']) (simp_all add: put_iface_def)
qed

end
