(* ===== verification/Lifecycle.thy ===== *)
theory Lifecycle
  imports Connection
begin

text \<open>
  What the lookup, accept, close and remove operations of \<open>util.c\<close> do on well-formed memory:
  each lemma gives the result and the state afterwards as an equation, so that the API
  theories rewrite with it.
\<close>

section \<open>Searching\<close>

text \<open>A connection that waits to be accepted at \<open>port\<close>.\<close>

definition waiting :: "mode \<Rightarrow> int \<Rightarrow> ('m, 'l, 'k) st \<Rightarrow> ptr \<Rightarrow> bool" where
  "waiting md port s p \<longleftrightarrow> (case conns s p of
     None \<Rightarrow> False | Some c \<Rightarrow> connState c = c_create \<and> own_port md c = port)"

definition first_or_NULL :: "(ptr \<Rightarrow> bool) \<Rightarrow> ptr list \<Rightarrow> ptr" where
  "first_or_NULL P xs = (case List.find P xs of None \<Rightarrow> NULL | Some p \<Rightarrow> p)"

lemma find_first_slot: "List.find P xs = map_option ((!) xs) (first_slot P xs)"
  by (induction xs) (auto simp: option.map_comp o_def)

lemma first_or_NULL_nonnull:
  "NULL \<notin> set xs \<Longrightarrow> first_or_NULL P xs \<noteq> NULL \<longleftrightarrow> (\<exists>p \<in> set xs. P p)"
  by (induction xs) (auto simp: first_or_NULL_def)

lemma first_or_NULL_hit:
  "NULL \<notin> set xs \<Longrightarrow> first_or_NULL P xs \<noteq> NULL \<Longrightarrow>
   first_or_NULL P xs \<in> set xs \<and> P (first_or_NULL P xs)"
  by (induction xs) (auto simp: first_or_NULL_def split: if_splits)

lemma first_or_NULL_append:
  "NULL \<notin> set xs \<Longrightarrow> first_or_NULL P (xs @ ys) =
     (if first_or_NULL P xs \<noteq> NULL then first_or_NULL P xs else first_or_NULL P ys)"
  by (induction xs) (auto simp: first_or_NULL_def)

lemma first_or_NULL_Nil [simp]: "first_or_NULL P [] = NULL"
  by (simp add: first_or_NULL_def)

lemma iface_conns_props:
  assumes wf: "mem_wf E s" and i: "i \<in> dom (ifaces s)"
  shows "NULL \<notin> set (iface_conns E s i)"
    and "p \<in> set (iface_conns E s i) \<Longrightarrow> \<exists>c. conns s p = Some c \<and> pAssociatedIface c = i"
    and "distinct (iface_conns E s i)"
proof -
  obtain r where r: "ifaces s i = Some r" using i by auto
  show "NULL \<notin> set (iface_conns E s i)" "distinct (iface_conns E s i)"
    "p \<in> set (iface_conns E s i) \<Longrightarrow> \<exists>c. conns s p = Some c \<and> pAssociatedIface c = i"
    by (rule iface_list [OF wf r]; simp)+
qed

lemma search_iface_eq:
  assumes wf: "mem_wf E s" and i: "i \<in> dom (ifaces s)"
  shows "searchNewConnectionOnIface E md i port s =
    Some (first_or_NULL (waiting md port s) (iface_conns E s i))"
proof -
  obtain r where r: "ifaces s i = Some r" using i by auto
  obtain l where l: "connectionList r = Some l" "llist_ok E l"
    "iface_conns E s i = llist_elems E l" "NULL \<notin> set (llist_elems E l)"
    "\<And>q. q \<in> set (llist_elems E l) \<Longrightarrow> \<exists>c'. conns s q = Some c' \<and> pAssociatedIface c' = i"
    by (rule iface_list [OF wf r]) blast
  have "FOREACH_LIST E l (cur_ctx s) (\<lambda>_ entry. do {
            c \<leftarrow> get_conn entry s;
            if connState c \<noteq> c_create then Some None
            else if own_port md c = port then Some (Some entry)
            else Some None }) =
    Some (map_option (\<lambda>k. llist_elems E l ! k) (first_slot (waiting md port s) (llist_elems E l)))"
    by (rule FOREACH_LIST_find [OF l(2,4), where f = "\<lambda>i x. x"])
      (auto dest!: l(5) simp: waiting_def mem_wf_get_conn [OF wf])
  then show ?thesis
    using r l(1,3)
    by (simp add: searchNewConnectionOnIface_def mem_wf_get_iface [OF wf] first_or_NULL_def
        find_first_slot)
qed

text \<open>The connections on the interfaces of the process that satisfy \<open>Q\<close>, in table order.\<close>

definition table_ok :: "('m, 'l, 'k) st \<Rightarrow> bool" where
  "table_ok s \<longleftrightarrow> (\<forall>p \<in> set (interfaces s). p \<noteq> NULL \<longrightarrow> p \<in> dom (ifaces s))"

definition table_conns ::
  "('m, 'l, 'k) ext \<Rightarrow> ('m, 'l, 'k) st \<Rightarrow> ('l interface \<Rightarrow> bool) \<Rightarrow> ptr list \<Rightarrow> ptr list" where
  "table_conns E s Q ps =
     concat (map (iface_conns E s) (filter (\<lambda>p. p \<noteq> NULL \<and> Q (the (ifaces s p))) ps))"

lemma table_conns_Cons:
  "table_conns E s Q (p # ps) =
     (if p \<noteq> NULL \<and> Q (the (ifaces s p)) then iface_conns E s p else []) @ table_conns E s Q ps"
  by (simp add: table_conns_def)

lemma table_conns_props:
  assumes wf: "mem_wf E s" and tab: "\<forall>p \<in> set ps. p \<noteq> NULL \<longrightarrow> p \<in> dom (ifaces s)"
  shows "NULL \<notin> set (table_conns E s Q ps)"
    and "p \<in> set (table_conns E s Q ps) \<Longrightarrow> \<exists>c. conns s p = Some c \<and> pAssociatedIface c \<noteq> NULL
           \<and> pAssociatedIface c \<in> set ps \<and> Q (the (ifaces s (pAssociatedIface c)))"
  using tab iface_conns_props(1,2) [OF wf] unfolding table_conns_def by fastforce+

lemma search_table_eq:
  assumes wf: "mem_wf E s" and tab: "\<forall>p \<in> set ps. p \<noteq> NULL \<longrightarrow> p \<in> dom (ifaces s)"
  shows "search_table E md addr port s ps =
    Some (first_or_NULL (waiting md port s)
      (table_conns E s (\<lambda>i. own_address md i = addr) ps))"
  using tab
proof (induction ps)
  case Nil
  then show ?case by (simp add: table_conns_def)
next
  case (Cons i ps)
  show ?case
  proof (cases "i = NULL")
    case True
    with Cons show ?thesis by (simp add: table_conns_Cons)
  next
    case False
    with Cons.prems obtain r where r: "ifaces s i = Some r" by auto
    then have dom: "i \<in> dom (ifaces s)" by auto
    show ?thesis
      using Cons False r
      by (simp add: mem_wf_get_iface [OF wf] search_iface_eq [OF wf dom] table_conns_Cons
          first_or_NULL_append [OF iface_conns_props(1) [OF wf dom]])
  qed
qed

lemma searchNewConnectionOnAnyIface_eq:
  assumes "mem_wf E s" and "table_ok s"
  shows "searchNewConnectionOnAnyIface E md addr port s =
    Some (first_or_NULL (waiting md port s)
      (table_conns E s (\<lambda>i. own_address md i = addr) (interfaces s)))"
  using search_table_eq [OF assms(1)] assms(2)
  by (simp add: searchNewConnectionOnAnyIface_def table_ok_def)

section \<open>Accepting\<close>

definition opened :: "ptr \<Rightarrow> ('m, 'l, 'k) st \<Rightarrow> ('m, 'l, 'k) st" where
  "opened p s = s\<lparr>conns := (conns s)(p := map_option (\<lambda>c. c\<lparr>connState := c_open\<rparr>) (conns s p))\<rparr>"

lemma accept_iface_eq:
  assumes wf: "mem_wf E s" and i: "i \<in> dom (ifaces s)"
  shows "acceptNewConnectionOnIface E md i port s =
    (let p = first_or_NULL (waiting md port s) (iface_conns E s i)
     in Some (p, if p = NULL then s else opened p s))"
proof -
  let ?p = "first_or_NULL (waiting md port s) (iface_conns E s i)"
  show ?thesis
  proof (cases "?p = NULL")
    case True
    then show ?thesis
      by (simp add: acceptNewConnectionOnIface_def search_iface_eq [OF wf i])
  next
    case False
    then have "?p \<in> set (iface_conns E s i)"
      using first_or_NULL_hit [OF iface_conns_props(1) [OF wf i]] by blast
    then obtain c where "conns s ?p = Some c"
      using iface_conns_props(2) [OF wf i] by blast
    with False show ?thesis
      by (simp add: acceptNewConnectionOnIface_def search_iface_eq [OF wf i]
          mem_wf_get_conn [OF wf] put_conn_def opened_def Let_def)
  qed
qed

lemma accept_table_eq:
  assumes wf: "mem_wf E s" and tab: "\<forall>p \<in> set ps. p \<noteq> NULL \<longrightarrow> p \<in> dom (ifaces s)"
  shows "accept_table E md addr port s ps =
    (let p = first_or_NULL (waiting md port s)
               (table_conns E s (\<lambda>i. addr = 0 \<or> own_address md i = addr) ps)
     in Some (p, if p = NULL then s else opened p s))"
  using tab
proof (induction ps)
  case Nil
  then show ?case by (simp add: table_conns_def)
next
  case (Cons i ps)
  show ?case
  proof (cases "i = NULL")
    case True
    with Cons show ?thesis by (simp add: table_conns_Cons)
  next
    case False
    with Cons.prems obtain r where r: "ifaces s i = Some r" by auto
    then have dom: "i \<in> dom (ifaces s)" by auto
    from Cons have "accept_table E md addr port s ps =
      (let p = first_or_NULL (waiting md port s)
                 (table_conns E s (\<lambda>i. addr = 0 \<or> own_address md i = addr) ps)
       in Some (p, if p = NULL then s else opened p s))"
      by simp
    then show ?thesis
      using False r
      by (cases "addr = 0")
        (simp_all add: mem_wf_get_iface [OF wf] accept_iface_eq [OF wf dom] table_conns_Cons Let_def
          first_or_NULL_append [OF iface_conns_props(1) [OF wf dom]])
  qed
qed

lemma acceptNewConnectionOnAnyIface_eq:
  assumes "mem_wf E s" and "table_ok s"
  shows "acceptNewConnectionOnAnyIface E md addr port s =
    (let p = first_or_NULL (waiting md port s)
               (table_conns E s (\<lambda>i. addr = 0 \<or> own_address md i = addr) (interfaces s))
     in Some (p, if p = NULL then s else opened p s))"
  using accept_table_eq [OF assms(1)] assms(2)
  by (simp add: acceptNewConnectionOnAnyIface_def table_ok_def)

lemma opened_wf:
  assumes wf: "mem_wf E s" and c: "conns s p = Some c" and "pAssociatedIface c \<noteq> NULL"
  shows "mem_wf E (opened p s)"
proof -
  have "mem_wf E (put_conn p (c\<lparr>connState := c_open\<rparr>) s)"
    by (rule mem_wf_put_conn_same [OF wf c]) (use assms(3) in auto)
  then show ?thesis
    using c by (simp add: opened_def put_conn_def)
qed

section \<open>Removing\<close>

text \<open>The memory after a connection is gone: off its interface's list and freed.\<close>

lemma removeConnection_wf:
  assumes wf: "mem_wf E s" and c: "conns s p = Some c" and i: "pAssociatedIface c \<noteq> NULL"
  obtains r' where "removeConnection E md p s = Some (True,
      s\<lparr>ifaces := (ifaces s)(pAssociatedIface c \<mapsto> r'),
        heap := free E (pAssociatedIface c) p (heap s),
        conns := (conns s)(p := None), cur_ctx := NULL\<rparr>)"
    and "mem_wf E (s\<lparr>ifaces := (ifaces s)(pAssociatedIface c \<mapsto> r'),
        heap := free E (pAssociatedIface c) p (heap s),
        conns := (conns s)(p := None), cur_ctx := NULL\<rparr>)"
    and "opt_elems E (connectionList r') = remove1 p (iface_conns E s (pAssociatedIface c))"
    and "addr1 r' = addr1 (the (ifaces s (pAssociatedIface c)))"
    and "addr2 r' = addr2 (the (ifaces s (pAssociatedIface c)))"
proof -
  let ?i = "pAssociatedIface c"
  have ok: "conn_ok E s p c"
    using mem_wf_conn(1) [OF wf c] .
  obtain r where r: "ifaces s ?i = Some r"
    using ok i by (auto simp: conn_ok_def)
  obtain l where l: "connectionList r = Some l" "llist_ok E l" "malloc_ctx l = ?i"
    "iface_conns E s ?i = llist_elems E l" "distinct (llist_elems E l)"
    "NULL \<notin> set (llist_elems E l)"
    "\<And>q. q \<in> set (llist_elems E l) \<Longrightarrow> \<exists>c'. conns s q = Some c' \<and> pAssociatedIface c' = ?i"
    by (rule iface_list [OF wf r]) blast
  obtain x l' where op: "llist_remove E l p (cur_ctx s) = Some (x, l', cur_ctx s)"
    and l': "llist_ok E l'" "llist_elems E l' = remove1 p (llist_elems E l)"
      "malloc_ctx l' = malloc_ctx l"
    using llist_remove_elems [OF l(2,6), of p "cur_ctx s"] by blast
  let ?r' = "r\<lparr>connectionList := Some l'\<rparr>"
  let ?s1 = "put_iface ?i ?r' s"
  have "list_ok E s ?i (connectionList ?r')"
    using l l' by (auto simp: list_ok_def distinct_remove1 dest: in_set_remove1
        notin_set_remove1 intro!: gr0I)
  then have wf1: "mem_wf E ?s1"
    by (rule mem_wf_put_iface [OF wf r])
  obtain b1 b2 where b: "buf1 c = Some b1" "buf2 c = Some b2"
    using ok i by (auto simp: conn_ok_def buf_ok_def)
  have "mem_wf E (?s1\<lparr>heap := free E ?i p (heap ?s1), conns := (conns ?s1)(p := None)\<rparr>)"
  proof (rule mem_wf_free_conn [OF wf1 _ refl i])
    show "conns ?s1 p = Some c"
      using c by (simp add: put_iface_def)
    fix j w m
    assume j: "ifaces ?s1 j = Some w" "connectionList w = Some m"
    show "p \<notin> set (llist_elems E m)"
    proof (cases "j = ?i")
      case True
      with j l' l(5) show ?thesis
        by (auto simp: put_iface_def)
    next
      case False
      with j have "ifaces s j = Some w" by (simp add: put_iface_def)
      with mem_wf_iface(1) [OF wf this] j(2) c False show ?thesis
        by (auto simp: list_ok_def)
    qed
  qed
  then have "mem_wf E (s\<lparr>ifaces := (ifaces s)(?i \<mapsto> ?r'), heap := free E ?i p (heap s),
        conns := (conns s)(p := None), cur_ctx := NULL\<rparr>)"
    by (simp add: put_iface_def)
  moreover have "removeConnection E md p s = Some (True,
      s\<lparr>ifaces := (ifaces s)(?i \<mapsto> ?r'), heap := free E ?i p (heap s),
        conns := (conns s)(p := None), cur_ctx := NULL\<rparr>)"
    using c r l(1) op b i mem_wf_conn(3) [OF wf c]
    by (cases md)
      (simp_all add: removeConnection_def mem_wf_get_conn [OF wf] mem_wf_get_iface [OF wf]
        llist_delete_def mem_defs Let_def view_defs)
  moreover have "opt_elems E (connectionList ?r') = remove1 p (iface_conns E s ?i)"
    using l' l(4) by (simp add: opt_elems_def)
  ultimately show ?thesis
    using r by (intro that [of ?r']) simp_all
qed

section \<open>Closing\<close>

text \<open>The first of the two processes to close only marks the connection.\<close>

lemma closeConnection_mark:
  assumes wf: "mem_wf E s" and c: "conns s p = Some c" and st: "connState c \<in> {c_open, c_listen}"
  shows "closeConnection E md p s =
      Some (put_conn p (set_remote_events md (SET_EVENT (remote_events md c) EPOLLHUP)
        (c\<lparr>connState := c_close\<rparr>)) s)"
    and "mem_wf E (put_conn p (set_remote_events md (SET_EVENT (remote_events md c) EPOLLHUP)
        (c\<lparr>connState := c_close\<rparr>)) s)"
proof -
  show "closeConnection E md p s =
      Some (put_conn p (set_remote_events md (SET_EVENT (remote_events md c) EPOLLHUP)
        (c\<lparr>connState := c_close\<rparr>)) s)"
    using c st by (auto simp: closeConnection_def mem_wf_get_conn [OF wf])
  show "mem_wf E (put_conn p (set_remote_events md (SET_EVENT (remote_events md c) EPOLLHUP)
        (c\<lparr>connState := c_close\<rparr>)) s)"
    by (rule mem_wf_put_conn_same [OF wf c]) simp_all
qed

text \<open>The second one, or one that closes before the peer accepted, removes it.\<close>

lemma closeConnection_remove:
  assumes "mem_wf E s" and c: "conns s p = Some c" and st: "connState c \<in> {c_create, c_close}"
  shows "closeConnection E md p s = map_option snd (removeConnection E md p s)"
  using c st by (auto simp: closeConnection_def mem_wf_get_conn [OF assms(1)])

end
