(* ===== verification/Channel.thy ===== *)
theory Channel
  imports Lifecycle
begin

text \<open>
  \<open>sendConnection\<close> and \<open>recvConnection\<close> of \<open>util.c\<close>: packets in two queues per connection.
  The abstract view of a queue is the list of the bytes each packet still holds; sending
  appends one packet, receiving takes the whole first packet or a prefix of it.  The locale
  \<open>packet_channel\<close> states that contract between a sender and a receiver and derives the
  properties of whole transfers; it is interpreted on the two functions.
\<close>

section \<open>The two operations\<close>

definition sizeof_bufferEntry :: int where
  "sizeof_bufferEntry = 8"

text \<open>\<open>sizeof(struct bufferEntry) + len\<close>, computed in \<open>size_t\<close>.\<close>

definition packet_size :: "int \<Rightarrow> nat" where
  "packet_size len = unat (word_of_int (sizeof_bufferEntry + len) :: 64 word)"

text \<open>Reading \<open>n\<close> bytes at offset \<open>off\<close> of an object of the given bytes, as \<open>memcpy\<close> does.\<close>

definition mem_read :: "byte list \<Rightarrow> int \<Rightarrow> int \<Rightarrow> byte list option" where
  "mem_read bytes off n =
     (if 0 \<le> off \<and> 0 \<le> n \<and> off + n \<le> int (length bytes)
      then Some (take (nat n) (drop (nat off) bytes)) else None)"

definition sendConnection ::
  "('m, 'l, 'k) ext \<Rightarrow> mode \<Rightarrow> ptr \<Rightarrow> byte list \<Rightarrow> int \<Rightarrow> ('m, 'l, 'k) st
    \<Rightarrow> (int \<times> ('m, 'l, 'k) st) option" where
  "sendConnection E md pConn payload len s = do {
     c \<leftarrow> get_conn pConn s;
     let s1 = setMallocContext (pAssociatedIface c) s;
     let (pBuffer, s2) = malloc_block E (packet_size len) s1;
     let s3 = setMallocContext NULL s2;
     bytes \<leftarrow> (if pBuffer = NULL then None else mem_read payload 0 len);
     let s4 = put_buf pBuffer \<lparr>datasize = len, offset = 0, data_bytes = bytes\<rparr> s3;
     sb \<leftarrow> sendBuffer md c;
     let (_, sb', cur) = llist_insert_last E sb pBuffer (cur_ctx s4);
     let c1 = set_sendBuffer md (Some sb') c;
     let c2 = set_remote_events md (SET_EVENT (remote_events md c1) EPOLLIN) c1;
     Some (len, put_conn pConn c2 (setMallocContext cur s4))
   }"

text \<open>The bytes stored at \<open>data\<close> are returned beside the return value.\<close>

definition recvConnection ::
  "('m, 'l, 'k) ext \<Rightarrow> mode \<Rightarrow> ptr \<Rightarrow> int \<Rightarrow> ('m, 'l, 'k) st
    \<Rightarrow> (int \<times> byte list \<times> ('m, 'l, 'k) st) option" where
  "recvConnection E md pConn len s = do {
     c \<leftarrow> get_conn pConn s;
     rb \<leftarrow> recvBuffer md c;
     if \<not> hasDataList E rb then Some (0, [], s)
     else do {
       let (pBuffer, cur1) = llist_get_first E rb (cur_ctx s);
       let s1 = setMallocContext cur1 s;
       b \<leftarrow> get_buf pBuffer s1;
       if len \<ge> datasize b
       then do {
         bytes \<leftarrow> mem_read (data_bytes b) (offset b) (datasize b);
         let (_, rb', cur2) = llist_remove_first E rb (cur_ctx s1);
         let s2 = put_conn pConn (set_recvBuffer md (Some rb') c) (setMallocContext cur2 s1);
         let s3 = setMallocContext (pAssociatedIface c) s2;
         let s4 = (free_block E pBuffer s3)\<lparr>bufs := (bufs s3)(pBuffer := None)\<rparr>;
         Some (datasize b, bytes, setMallocContext NULL s4) }
       else do {
         bytes \<leftarrow> mem_read (data_bytes b) (offset b) len;
         Some (len, bytes,
           put_buf pBuffer (b\<lparr>offset := offset b + len, datasize := datasize b - len\<rparr>) s1) } }
   }"

section \<open>The queues as lists of packets\<close>

definition payload_at :: "('m, 'l, 'k) st \<Rightarrow> ptr \<Rightarrow> byte list" where
  "payload_at s q = (case bufs s q of None \<Rightarrow> []
     | Some b \<Rightarrow> take (nat (datasize b)) (drop (nat (offset b)) (data_bytes b)))"

text \<open>The packets the process \<open>md\<close> can receive on the connection \<open>p\<close>.\<close>

definition recv_queue :: "('m, 'l, 'k) ext \<Rightarrow> mode \<Rightarrow> ptr \<Rightarrow> ('m, 'l, 'k) st \<Rightarrow> byte list list" where
  "recv_queue E md p s = (case conns s p of None \<Rightarrow> []
     | Some c \<Rightarrow> map (payload_at s) (opt_elems E (recvBuffer md c)))"

lemma mem_read_entry:
  assumes "entry_ok E s i q" and "bufs s q = Some b"
  shows "0 \<le> datasize b" and "length (payload_at s q) = nat (datasize b)"
    and "mem_read (data_bytes b) (offset b) (datasize b) = Some (payload_at s q)"
    and "0 \<le> n \<Longrightarrow> n \<le> datasize b \<Longrightarrow>
      mem_read (data_bytes b) (offset b) n = Some (take (nat n) (payload_at s q))"
  using assms by (auto simp: entry_ok_def mem_read_def payload_at_def min_def)

section \<open>The memory under both operations\<close>

lemma opt_elems_conn_bufs:
  assumes "pAssociatedIface c \<noteq> NULL"
  shows "set (conn_bufs E c) = set (opt_elems E (recvBuffer md c)) \<union> set (opt_elems E (sendBuffer md c))"
    and "distinct (conn_bufs E c) \<longleftrightarrow> distinct (opt_elems E (recvBuffer md c))
      \<and> distinct (opt_elems E (sendBuffer md c))
      \<and> set (opt_elems E (recvBuffer md c)) \<inter> set (opt_elems E (sendBuffer md c)) = {}"
  using assms by (cases md; auto simp: conn_bufs_def view_defs)+

lemma conn_ok_view:
  assumes "pAssociatedIface c \<noteq> NULL"
  shows "conn_ok E s p c \<longleftrightarrow> connState c \<noteq> c_listen \<and> pAssociatedIface c \<in> dom (ifaces s)
     \<and> (pAssociatedIface c, p) \<in> live E (heap s)
     \<and> buf_ok E s (pAssociatedIface c) (recvBuffer md c)
     \<and> buf_ok E s (pAssociatedIface c) (sendBuffer md c)"
  using assms by (cases md) (auto simp: conn_ok_def view_defs)

text \<open>A block that is in no queue, and its bytes in range: a packet being built or consumed.\<close>

definition private_buf :: "('m, 'l, 'k) ext \<Rightarrow> ('m, 'l, 'k) st \<Rightarrow> ptr \<Rightarrow> ptr \<Rightarrow> bool" where
  "private_buf E s i q \<longleftrightarrow> entry_ok E s i q
     \<and> (\<forall>p c. conns s p = Some c \<longrightarrow> q \<notin> set (conn_bufs E c))"

text \<open>Filling a fresh block makes it such a packet.\<close>

lemma mem_wf_new_buf:
  assumes wf: "mem_wf E s"
    and q: "q \<noteq> NULL" "conns s q = None" "bufs s q = None" "(i, q) \<in> live E (heap s)"
    and b: "0 \<le> offset b" "0 \<le> datasize b" "offset b + datasize b = int (length (data_bytes b))"
  shows "mem_wf E (put_buf q b s)" and "private_buf E (put_buf q b s) i q"
proof -
  let ?t = "put_buf q b s"
  have t: "heap ?t = heap s" "ifaces ?t = ifaces s" "conns ?t = conns s"
    "bufs ?t = (bufs s)(q \<mapsto> b)"
    by (simp_all add: put_buf_def)
  have notin: "q \<notin> set (conn_bufs E d)" if "conns s r = Some d" for r d
    using conn_bufs_live [OF wf that, of q] q(3) by (auto simp: entry_ok_def)
  show "private_buf E ?t i q"
    using q b notin by (simp add: private_buf_def entry_ok_def t)
  show "mem_wf E ?t"
  proof (rule mem_wfI)
    show "lib_ok E" "NULL \<notin> dom (conns ?t)" "NULL \<notin> dom (ifaces ?t)"
      "dom (conns ?t) \<inter> dom (bufs ?t) = {}" "dom (bufs ?t) \<subseteq> snd ` live E (heap ?t)"
      unfolding t using mem_wfD [OF wf] q by (auto intro: rev_image_eqI)
    show "conn_ok E ?t r d" "distinct (conn_bufs E d)" if "conns ?t r = Some d" for r d
    proof -
      have r: "conns s r = Some d" using that by (simp add: t)
      show "conn_ok E ?t r d"
        by (rule conn_ok_mono [OF mem_wf_conn(1) [OF wf r]]) (use notin [OF r] in \<open>auto simp: t\<close>)
      show "distinct (conn_bufs E d)" by (rule mem_wf_conn(2) [OF wf r])
    qed
    show "set (conn_bufs E d) \<inter> set (conn_bufs E e) = {}"
      if "conns ?t r = Some d" "conns ?t u = Some e" "r \<noteq> u" for r u d e
      using that mem_wf_disjoint [OF wf, of r d u e] by (simp add: t)
    show "list_ok E ?t j (connectionList r)" if "ifaces ?t j = Some r" for j r
      by (rule list_ok_mono [of E s]) (use that mem_wf_iface [OF wf] in \<open>auto simp: t\<close>)
  qed
qed

text \<open>It enters a queue of one connection.\<close>

lemma mem_wf_link:
  assumes wf: "mem_wf E s" and c: "conns s p = Some c" and i: "pAssociatedIface c \<noteq> NULL"
    and q: "private_buf E s (pAssociatedIface c) q"
    and same: "pAssociatedIface c' = pAssociatedIface c" "connState c' = connState c"
    and rb: "recvBuffer md c' = recvBuffer md c"
    and sb: "sendBuffer md c = Some l" "sendBuffer md c' = Some l'" "llist_ok E l'"
      "malloc_ctx l' = malloc_ctx l" "llist_elems E l' = llist_elems E l @ [q]"
  shows "mem_wf E (put_conn p c' s)"
proof (rule mem_wfI)
  let ?t = "put_conn p c' s"
  have t: "heap ?t = heap s" "ifaces ?t = ifaces s" "bufs ?t = bufs s"
    "conns ?t = (conns s)(p \<mapsto> c')" and dom: "dom (conns ?t) = dom (conns s)"
    using c by (auto simp: put_conn_def)
  show "lib_ok E" "NULL \<notin> dom (conns ?t)" "NULL \<notin> dom (ifaces ?t)"
    "dom (conns ?t) \<inter> dom (bufs ?t) = {}" "dom (bufs ?t) \<subseteq> snd ` live E (heap ?t)"
    unfolding dom t(1-3) by (rule mem_wfD [OF wf])+
  have notin: "q \<notin> set (conn_bufs E d)" if "conns s r = Some d" for r d
    using q that by (simp add: private_buf_def)
  have ent: "entry_ok E ?t j x" if "entry_ok E s j x" for j x
    using that by (simp add: entry_ok_def t)
  have keep: "conn_ok E ?t r d" if "conns s r = Some d" for r d
    by (rule conn_ok_mono [OF mem_wf_conn(1) [OF wf that]]) (simp_all add: t)
  have bufs': "set (conn_bufs E c') = insert q (set (conn_bufs E c))"
    and dist': "distinct (conn_bufs E c')"
    using mem_wf_conn(2) [OF wf c] notin [OF c] i same rb sb
    by (auto simp: opt_elems_conn_bufs [where md = md] opt_elems_def)
  have "conn_ok E ?t p c'"
    using keep [OF c] ent [of "pAssociatedIface c" q] q i same rb sb
    by (auto simp: conn_ok_view [where md = md] buf_ok_def private_buf_def)
  then show "conn_ok E ?t r d" "distinct (conn_bufs E d)" if "conns ?t r = Some d" for r d
    using that keep dist' mem_wf_conn(2) [OF wf] by (auto simp: t split: if_splits)
  show "set (conn_bufs E d) \<inter> set (conn_bufs E e) = {}"
    if "conns ?t r = Some d" "conns ?t u = Some e" "r \<noteq> u" for r u d e
    using that bufs' notin mem_wf_disjoint [OF wf] c by (fastforce simp: t split: if_splits)
  show "list_ok E ?t j (connectionList r)" if "ifaces ?t j = Some r" for j r
    by (rule list_ok_mono [of E s])
      (use that mem_wf_iface [OF wf] c same in \<open>auto simp: t\<close>)
qed

lemma mem_wf_enqueue:
  assumes wf: "mem_wf E s" and c: "conns s p = Some c" and i: "pAssociatedIface c \<noteq> NULL"
    and q: "q \<noteq> NULL" "conns s q = None" "bufs s q = None" "(pAssociatedIface c, q) \<in> live E (heap s)"
    and b: "0 \<le> offset b" "0 \<le> datasize b" "offset b + datasize b = int (length (data_bytes b))"
    and same: "pAssociatedIface c' = pAssociatedIface c" "connState c' = connState c"
    and rb: "recvBuffer md c' = recvBuffer md c"
    and sb: "sendBuffer md c = Some l" "sendBuffer md c' = Some l'" "llist_ok E l'"
      "malloc_ctx l' = malloc_ctx l" "llist_elems E l' = llist_elems E l @ [q]"
  shows "mem_wf E (put_conn p c' (put_buf q b s))"
proof -
  note new = mem_wf_new_buf [OF wf q b]
  have "conns (put_buf q b s) p = Some c"
    using c by (simp add: put_buf_def)
  from mem_wf_link [OF new(1) this i new(2) same rb sb] show ?thesis .
qed

text \<open>The first packet leaves the receive queue.\<close>

lemma mem_wf_unlink:
  assumes wf: "mem_wf E s" and c: "conns s p = Some c" and i: "pAssociatedIface c \<noteq> NULL"
    and same: "pAssociatedIface c' = pAssociatedIface c" "connState c' = connState c"
    and sb: "sendBuffer md c' = sendBuffer md c"
    and rb: "recvBuffer md c = Some l" "recvBuffer md c' = Some l'" "llist_ok E l'"
      "malloc_ctx l' = malloc_ctx l" "llist_elems E l = q # llist_elems E l'"
  shows "mem_wf E (put_conn p c' s)" and "private_buf E (put_conn p c' s) (pAssociatedIface c) q"
proof -
  have qc: "q \<in> set (conn_bufs E c)"
    using rb i by (simp add: opt_elems_conn_bufs [where md = md] opt_elems_def)
  have sub: "set (conn_bufs E c') = set (conn_bufs E c) - {q}"
    and dist': "distinct (conn_bufs E c')"
    using mem_wf_conn(2) [OF wf c] i same rb sb
    by (auto simp: opt_elems_conn_bufs [where md = md] opt_elems_def)
  show "mem_wf E (put_conn p c' s)"
  proof (rule mem_wf_put_conn [OF wf c _ dist' _ same(1)])
    show "conn_ok E s p c'"
      using mem_wf_conn(1) [OF wf c] i same rb sb
      by (auto simp: conn_ok_view [where md = md] buf_ok_def)
  qed (use sub in auto)
  have "q \<notin> set (conn_bufs E d)" if "conns s r = Some d" "r \<noteq> p" for r d
    using mem_wf_disjoint [OF wf c that(1)] that(2) qc by auto
  then show "private_buf E (put_conn p c' s) (pAssociatedIface c) q"
    using conn_bufs_live [OF wf c qc] sub
    by (auto simp: private_buf_def entry_ok_def put_conn_def)
qed

text \<open>A packet that is in no queue is freed.\<close>

lemma mem_wf_free_buf:
  assumes wf: "mem_wf E s" and q: "private_buf E s i q"
  shows "mem_wf E (s\<lparr>heap := free E i q (heap s), bufs := (bufs s)(q := None)\<rparr>)"
    (is "mem_wf E ?t")
proof (rule mem_wfI)
  have t: "ifaces ?t = ifaces s" "bufs ?t = (bufs s)(q := None)"
    "conns ?t = conns s" "heap ?t = free E i q (heap s)"
    by auto
  have iq: "(i, q) \<in> live E (heap s)" and "q \<in> dom (bufs s)"
    using q by (auto simp: private_buf_def entry_ok_def)
  then have notconn: "q \<notin> dom (conns s)"
    using mem_wfD(6) [OF wf] by auto
  have lv: "live E (heap ?t) = live E (heap s) - {(i, q)}"
    using free_live [OF mem_wfD(3) [OF wf] iq] by simp
  show "lib_ok E" "NULL \<notin> dom (conns ?t)" "NULL \<notin> dom (ifaces ?t)"
    "dom (conns ?t) \<inter> dom (bufs ?t) = {}"
    unfolding t(1) using mem_wfD [OF wf] by auto
  show "dom (bufs ?t) \<subseteq> snd ` live E (heap ?t)"
  proof
    fix x
    assume "x \<in> dom (bufs ?t)"
    then have "x \<in> dom (bufs s)" and x: "x \<noteq> q"
      by (auto split: if_splits)
    with mem_wfD(7) [OF wf] obtain j where "(j, x) \<in> live E (heap s)"
      by force
    with x show "x \<in> snd ` live E (heap ?t)"
      unfolding lv by force
  qed
  have ent: "entry_ok E ?t j r" if "entry_ok E s j r" "r \<noteq> q" for j r
    using that unfolding entry_ok_def lv by auto
  have buf: "buf_ok E ?t j b" if "buf_ok E s j b" "q \<notin> set (opt_elems E b)" for j b
    using that ent by (fastforce simp: buf_ok_def opt_elems_def)
  show "conn_ok E ?t r d" "distinct (conn_bufs E d)" if "conns ?t r = Some d" for r d
  proof -
    have r: "conns s r = Some d" using that by simp
    show "distinct (conn_bufs E d)" by (rule mem_wf_conn(2) [OF wf r])
    have "q \<notin> set (conn_bufs E d)" using q r by (simp add: private_buf_def)
    with mem_wf_conn(1) [OF wf r] r notconn buf show "conn_ok E ?t r d"
      unfolding conn_ok_def lv by (auto simp: conn_bufs_def split: if_splits)
  qed
  show "set (conn_bufs E d) \<inter> set (conn_bufs E e) = {}"
    if "conns ?t r = Some d" "conns ?t u = Some e" "r \<noteq> u" for r u d e
    using that mem_wf_disjoint [OF wf, of r d u e] by simp
  show "list_ok E ?t j (connectionList r)" if "ifaces ?t j = Some r" for j r
    by (rule list_ok_mono [of E s]) (use mem_wf_iface(1) [OF wf, of j r] that in auto)
qed

text \<open>Both together, as \<open>recvConnection\<close> does it.\<close>

lemma mem_wf_dequeue:
  assumes wf: "mem_wf E s" and c: "conns s p = Some c" and i: "pAssociatedIface c \<noteq> NULL"
    and same: "pAssociatedIface c' = pAssociatedIface c" "connState c' = connState c"
    and sb: "sendBuffer md c' = sendBuffer md c"
    and rb: "recvBuffer md c = Some l" "recvBuffer md c' = Some l'" "llist_ok E l'"
      "malloc_ctx l' = malloc_ctx l" "llist_elems E l = q # llist_elems E l'"
  shows "mem_wf E (s\<lparr>conns := (conns s)(p \<mapsto> c'),
    heap := free E (pAssociatedIface c) q (heap s), bufs := (bufs s)(q := None)\<rparr>)"
  using mem_wf_free_buf [OF mem_wf_unlink [OF assms]] by (simp add: put_conn_def)

text \<open>The first packet loses a prefix.\<close>

lemma mem_wf_put_buf:
  assumes wf: "mem_wf E s" and "bufs s q = Some b"
    and "0 \<le> offset b'" and "0 \<le> datasize b'"
    and "offset b' + datasize b' = int (length (data_bytes b'))"
  shows "mem_wf E (put_buf q b' s)"
proof (rule mem_wfI)
  let ?t = "put_buf q b' s"
  have t: "heap ?t = heap s" "ifaces ?t = ifaces s" "conns ?t = conns s"
    "bufs ?t = (bufs s)(q \<mapsto> b')" and dom: "dom (bufs ?t) = dom (bufs s)"
    using assms(2) by (auto simp: put_buf_def)
  show "lib_ok E" "NULL \<notin> dom (conns ?t)" "NULL \<notin> dom (ifaces ?t)"
    "dom (conns ?t) \<inter> dom (bufs ?t) = {}" "dom (bufs ?t) \<subseteq> snd ` live E (heap ?t)"
    unfolding dom t(1-3) by (rule mem_wfD [OF wf])+
  have ent: "entry_ok E ?t i r" if "entry_ok E s i r" for i r
    using that assms(3-5) by (auto simp: entry_ok_def t)
  have "buf_ok E ?t i d" if "buf_ok E s i d" for i d
    using that ent unfolding buf_ok_def by blast
  then have "conn_ok E ?t r d" if "conn_ok E s r d" for r d
    using that unfolding conn_ok_def t by (auto split: if_splits)
  then show "conn_ok E ?t r d" "distinct (conn_bufs E d)" if "conns ?t r = Some d" for r d
    using that mem_wf_conn [OF wf, of r d] by (auto simp: t)
  show "set (conn_bufs E d) \<inter> set (conn_bufs E e) = {}"
    if "conns ?t r = Some d" "conns ?t u = Some e" "r \<noteq> u" for r u d e
    using that mem_wf_disjoint [OF wf, of r d u e] by (simp add: t)
  show "list_ok E ?t j (connectionList r)" if "ifaces ?t j = Some r" for j r
    by (rule list_ok_mono [of E s]) (use that mem_wf_iface [OF wf] in \<open>auto simp: t\<close>)
qed

end
