(* ===== verification/Delivery.thy ===== *)
theory Delivery
  imports Channel
begin

text \<open>
  The contract of a connection as a packet channel, what follows from it for whole
  transfers, and the proof that \<open>sendConnection\<close> of one process and \<open>recvConnection\<close> of its
  peer meet it.
\<close>

section \<open>The contract and its consequences\<close>

text \<open>A sequence of sends, and a sequence of receives with the given buffer sizes.\<close>

fun put_all :: "(byte list \<Rightarrow> 's \<Rightarrow> 's option) \<Rightarrow> byte list list \<Rightarrow> 's \<Rightarrow> 's option" where
  "put_all put [] s = Some s"
| "put_all put (bs # bss) s = do { s' \<leftarrow> put bs s; put_all put bss s' }"

fun get_all ::
  "(int \<Rightarrow> 's \<Rightarrow> (byte list \<times> 's) option) \<Rightarrow> int list \<Rightarrow> 's \<Rightarrow> (byte list \<times> 's) option" where
  "get_all get [] s = Some ([], s)"
| "get_all get (n # ns) s = do {
     (out, s') \<leftarrow> get n s;
     (outs, s'') \<leftarrow> get_all get ns s';
     Some (out @ outs, s'') }"

locale packet_channel =
  fixes inv :: "'s \<Rightarrow> bool"
    and queue :: "'s \<Rightarrow> byte list list"
    and put :: "byte list \<Rightarrow> 's \<Rightarrow> 's option"
    and get :: "int \<Rightarrow> 's \<Rightarrow> (byte list \<times> 's) option"
  assumes put_law: "inv s \<Longrightarrow> put bs s = Some s' \<Longrightarrow> inv s' \<and> queue s' = queue s @ [bs]"
    and get_empty: "inv s \<Longrightarrow> queue s = [] \<Longrightarrow> get n s = Some ([], s)"
    and get_whole: "inv s \<Longrightarrow> queue s = p # ps \<Longrightarrow> int (length p) \<le> n \<Longrightarrow>
          \<exists>s'. get n s = Some (p, s') \<and> inv s' \<and> queue s' = ps"
    and get_part: "inv s \<Longrightarrow> queue s = p # ps \<Longrightarrow> 0 \<le> n \<Longrightarrow> n < int (length p) \<Longrightarrow>
          \<exists>s'. get n s = Some (take (nat n) p, s') \<and> inv s' \<and> queue s' = drop (nat n) p # ps"
begin

text \<open>One receive takes a prefix of the byte stream, never across a packet boundary.\<close>

lemma get_total:
  assumes "inv s" and "0 \<le> n"
  shows "\<exists>out s'. get n s = Some (out, s') \<and> inv s' \<and> concat (queue s) = out @ concat (queue s')
    \<and> int (length out) \<le> n"
proof (cases "queue s")
  case Nil
  with get_empty [OF assms(1), of n] assms show ?thesis by simp
next
  case (Cons p ps)
  show ?thesis
  proof (cases "int (length p) \<le> n")
    case True
    with get_whole [OF assms(1) Cons, of n] Cons show ?thesis by auto
  next
    case False
    then have "n < int (length p)" by simp
    with get_part [OF assms(1) Cons, of n] assms(2) Cons show ?thesis
      by (fastforce simp: append_assoc [symmetric] simp del: append_assoc)
  qed
qed

lemma put_all_queue:
  "inv s \<Longrightarrow> put_all put bss s = Some s' \<Longrightarrow> inv s' \<and> queue s' = queue s @ bss"
proof (induction bss arbitrary: s)
  case Nil
  then show ?case by simp
next
  case (Cons bs bss)
  then obtain t where "put bs s = Some t" and "put_all put bss t = Some s'"
    by (auto split: Option.bind_splits)
  with Cons put_law [of s bs t] show ?case by auto
qed

text \<open>Nothing is lost, duplicated or reordered by any sequence of receives.\<close>

lemma get_all_stream:
  assumes "inv s" and "\<forall>n \<in> set ns. 0 \<le> n"
  shows "\<exists>out s'. get_all get ns s = Some (out, s') \<and> inv s'
    \<and> concat (queue s) = out @ concat (queue s')"
  using assms
proof (induction ns arbitrary: s)
  case Nil
  then show ?case by simp
next
  case (Cons n ns)
  then obtain out t where t: "get n s = Some (out, t)" "inv t"
    "concat (queue s) = out @ concat (queue t)"
    using get_total [of s n] by auto
  with Cons.IH [of t] Cons.prems(2) show ?case
    by fastforce
qed

text \<open>
  Every receive with room for a byte makes the queue smaller: it drops a packet or shortens
  the first one.
\<close>

lemma get_progress:
  assumes "inv s" and "queue s \<noteq> []" and "0 < n" and "get n s = Some (out, s')"
  shows "length (queue s') + length (concat (queue s')) < length (queue s) + length (concat (queue s))"
proof -
  obtain p ps where q: "queue s = p # ps"
    using assms(2) by (cases "queue s") auto
  show ?thesis
  proof (cases "int (length p) \<le> n")
    case True
    with get_whole [OF assms(1) q, of n] assms(4) q show ?thesis by auto
  next
    case False
    with get_part [OF assms(1) q, of n] assms(3,4) have "queue s' = drop (nat n) p # ps"
      by auto
    with False assms(3) q show ?thesis by simp
  qed
qed

text \<open>Enough receives drain the queue, and then the receiver has the whole stream.\<close>

lemma get_all_drains:
  assumes "inv s" and "\<forall>n \<in> set ns. 0 < n"
    and "length (queue s) + length (concat (queue s)) \<le> length ns"
  shows "\<exists>s'. get_all get ns s = Some (concat (queue s), s') \<and> inv s' \<and> queue s' = []"
  using assms
proof (induction ns arbitrary: s)
  case Nil
  then show ?case by simp
next
  case (Cons n ns)
  obtain out t where t: "get n s = Some (out, t)" "inv t"
    "concat (queue s) = out @ concat (queue t)"
    using get_total [of s n] Cons.prems by auto
  have "length (queue t) + length (concat (queue t)) \<le> length ns"
  proof (cases "queue s = []")
    case True
    with get_empty [OF Cons.prems(1), of n] t(1) have "t = s" by simp
    with True show ?thesis by simp
  next
    case False
    with get_progress [OF Cons.prems(1) False _ t(1)] Cons.prems show ?thesis by simp
  qed
  with Cons.IH [OF t(2)] Cons.prems(2) t show ?case
    by auto
qed

text \<open>What is sent over an idle channel arrives, byte for byte and in order.\<close>

lemma transfer:
  assumes "inv s" and "queue s = []" and "put_all put bss s = Some t"
    and "\<forall>n \<in> set ns. 0 < n" and "length bss + length (concat bss) \<le> length ns"
  shows "\<exists>t'. get_all get ns t = Some (concat bss, t') \<and> queue t' = []"
proof -
  have t: "inv t" "queue t = bss"
    using put_all_queue [OF assms(1,3)] assms(2) by simp_all
  with get_all_drains [OF t(1) assms(4)] assms(5) show ?thesis by auto
qed

end

section \<open>Sending\<close>

definition chan_inv :: "('m, 'l, 'k) ext \<Rightarrow> ptr \<Rightarrow> ('m, 'l, 'k) st \<Rightarrow> bool" where
  "chan_inv E p s \<longleftrightarrow> mem_wf E s \<and> (\<exists>c. conns s p = Some c \<and> pAssociatedIface c \<noteq> NULL)"

lemma chan_buffers:
  assumes "mem_wf E s" and "conns s p = Some c" and "pAssociatedIface c \<noteq> NULL"
  obtains rb sb where "recvBuffer md c = Some rb" and "llist_ok E rb"
    and "malloc_ctx rb = pAssociatedIface c"
    and "\<forall>q \<in> set (llist_elems E rb). entry_ok E s (pAssociatedIface c) q"
    and "sendBuffer md c = Some sb" and "llist_ok E sb"
    and "malloc_ctx sb = pAssociatedIface c"
    and "\<forall>q \<in> set (llist_elems E sb). entry_ok E s (pAssociatedIface c) q"
  using mem_wf_conn(1) [OF assms(1,2)] that
  by (auto simp: conn_ok_view [OF assms(3), where md = md] buf_ok_def)

lemma sendConnection_wf:
  assumes wf: "mem_wf E s" and c: "conns s p = Some c" and i: "pAssociatedIface c \<noteq> NULL"
    and op: "sendConnection E md p bs len s = Some (r, s')"
  obtains q b c' m' sb sb' where "r = len" and "0 \<le> len" and "len \<le> int (length bs)"
    and "s' = s\<lparr>heap := m', bufs := (bufs s)(q \<mapsto> b), conns := (conns s)(p \<mapsto> c'),
               cur_ctx := NULL\<rparr>"
    and "mem_wf E s'"
    and "bufs s q = None" and "b = \<lparr>datasize = len, offset = 0, data_bytes = take (nat len) bs\<rparr>"
    and "sendBuffer md c = Some sb" and "llist_elems E sb' = llist_elems E sb @ [q]"
    and "c' = set_remote_events md (SET_EVENT (remote_events md c) EPOLLIN)
                (set_sendBuffer md (Some sb') c)"
proof -
  let ?i = "pAssociatedIface c"
  obtain sb where sb: "sendBuffer md c = Some sb" "llist_ok E sb" "malloc_ctx sb = ?i"
    using chan_buffers [OF wf c i, of md] by metis
  obtain q m' where m: "malloc E ?i (packet_size len) (heap s) = (q, m')"
    by fastforce
  let ?b = "\<lparr>datasize = len, offset = 0, data_bytes = take (nat len) bs\<rparr>"
  from op c m have q: "q \<noteq> NULL" and len: "0 \<le> len" "len \<le> int (length bs)"
    by (auto simp: sendConnection_def mem_wf_get_conn [OF wf] mem_defs mem_read_def
        split: if_splits)
  obtain x sb' where ins: "llist_insert_last E sb q NULL = (x, sb', NULL)"
    and sb': "llist_ok E sb'" "llist_elems E sb' = llist_elems E sb @ [q]"
      "malloc_ctx sb' = malloc_ctx sb"
    using llist_insert_last_ok [OF sb(2)] by blast
  let ?c = "set_remote_events md (SET_EVENT (remote_events md c) EPOLLIN)
                (set_sendBuffer md (Some sb') c)"
  let ?t = "s\<lparr>heap := m', bufs := (bufs s)(q \<mapsto> ?b), conns := (conns s)(p \<mapsto> ?c), cur_ctx := NULL\<rparr>"
  have "sendConnection E md p bs len s = Some (len, ?t)"
    using c m q len sb(1) ins mem_wf_conn(3) [OF wf c]
    by (simp add: sendConnection_def mem_wf_get_conn [OF wf] mem_defs mem_read_def)
  then have "Some (len, ?t) = Some (r, s')"
    using op by (rule trans [OF sym])
  then have eqs: "len = r" "?t = s'"
    unfolding option.inject prod.inject by (rule conjunct1, rule conjunct2)
  note res = eqs [symmetric]
  note fresh = mem_wf_fresh [OF wf m q]
  have wfm: "mem_wf E (s\<lparr>heap := m'\<rparr>)"
    by (rule mem_wf_malloc [OF wf m])
  have "mem_wf E (put_conn p ?c (put_buf q ?b (s\<lparr>heap := m'\<rparr>)))"
    by (rule mem_wf_enqueue [OF wfm _ i, where md = md])
      (use c q fresh len sb sb' in simp_all)
  then have "mem_wf E ?t"
    by (simp add: put_conn_def put_buf_def)
  with res len fresh(2) sb(1) sb'(2) show ?thesis
    by (intro that [of ?c q ?b m' sb sb']) simp_all
qed

lemma recv_queue_eq:
  "conns s p = Some c \<Longrightarrow> recv_queue E md p s = map (payload_at s) (opt_elems E (recvBuffer md c))"
  by (simp add: recv_queue_def)

text \<open>
  The effect on the two queues of the connection, and on every other connection: only the
  peer of the sender gains a packet.
\<close>

lemma sendConnection_queues:
  assumes wf: "mem_wf E s" and c: "conns s p = Some c" and i: "pAssociatedIface c \<noteq> NULL"
    and op: "sendConnection E md p bs len s = Some (r, s')"
  shows "recv_queue E (peer md) p s' = recv_queue E (peer md) p s @ [take (nat len) bs]"
    and "recv_queue E md p s' = recv_queue E md p s"
    and "p' \<noteq> p \<Longrightarrow> recv_queue E md' p' s' = recv_queue E md' p' s"
proof -
  obtain q b c' m' sb sb' where len: "0 \<le> len"
    and s': "s' = s\<lparr>heap := m', bufs := (bufs s)(q \<mapsto> b), conns := (conns s)(p \<mapsto> c'), cur_ctx := NULL\<rparr>"
    and q: "bufs s q = None" and b: "b = \<lparr>datasize = len, offset = 0, data_bytes = take (nat len) bs\<rparr>"
    and sb: "sendBuffer md c = Some sb" "llist_elems E sb' = llist_elems E sb @ [q]"
    and c': "c' = set_remote_events md (SET_EVENT (remote_events md c) EPOLLIN)
                (set_sendBuffer md (Some sb') c)"
    using sendConnection_wf [OF wf c i op] by metis
  have old: "map (payload_at s') (opt_elems E (recvBuffer md' d)) =
      map (payload_at s) (opt_elems E (recvBuffer md' d))"
    if "conns s u = Some d" for u d md'
  proof (rule map_cong [OF refl])
    fix x
    assume x: "x \<in> set (opt_elems E (recvBuffer md' d))"
    have "x \<noteq> q"
    proof (cases "pAssociatedIface d = NULL")
      case True
      with mem_wf_conn(1) [OF wf that] x show ?thesis
        by (cases md') (auto simp: conn_ok_def view_defs opt_elems_def)
    next
      case False
      with x have "x \<in> set (conn_bufs E d)"
        by (simp add: opt_elems_conn_bufs [where md = md'])
      with conn_bufs_live [OF wf that, of x] q show ?thesis
        by (auto simp: entry_ok_def)
    qed
    then show "payload_at s' x = payload_at s x"
      by (simp add: payload_at_def s')
  qed
  have new: "payload_at s' q = take (nat len) bs"
    by (simp add: payload_at_def s' b)
  have at: "conns s' p = Some c'"
    by (simp add: s')
  show "recv_queue E (peer md) p s' = recv_queue E (peer md) p s @ [take (nat len) bs]"
    using old [OF c, of "peer md"] new
    by (simp add: recv_queue_eq [OF at] recv_queue_eq [OF c] c' opt_elems_def sb)
  show "recv_queue E md p s' = recv_queue E md p s"
    using old [OF c, of md] by (simp add: recv_queue_eq [OF at] recv_queue_eq [OF c] c')
  show "p' \<noteq> p \<Longrightarrow> recv_queue E md' p' s' = recv_queue E md' p' s"
    using old by (auto simp: recv_queue_def s' split: option.splits)
qed

section \<open>Receiving\<close>

text \<open>An empty queue: nothing happens.\<close>

lemma recvConnection_empty:
  assumes wf: "mem_wf E s" and c: "conns s p = Some c" and i: "pAssociatedIface c \<noteq> NULL"
    and empty: "recv_queue E md p s = []"
  shows "recvConnection E md p len s = Some (0, [], s)"
proof -
  obtain rb where rb: "recvBuffer md c = Some rb" "llist_ok E rb"
    using chan_buffers [OF wf c i, of md] by metis
  then have "llist_elems E rb = []"
    using empty by (simp add: recv_queue_eq [OF c] opt_elems_def)
  then have "\<not> hasDataList E rb"
    using ll.has_data [OF rb(2)] by (simp add: hasDataList_def)
  with c rb(1) show ?thesis
    by (simp add: recvConnection_def mem_wf_get_conn [OF wf])
qed

text \<open>The first packet of the queue, and its block.\<close>

lemma recv_queue_first:
  assumes wf: "mem_wf E s" and c: "conns s p = Some c" and i: "pAssociatedIface c \<noteq> NULL"
    and queue: "recv_queue E md p s = x # xs"
  obtains rb q qs b where "recvBuffer md c = Some rb" and "llist_ok E rb"
    and "malloc_ctx rb = pAssociatedIface c" and "hasDataList E rb"
    and "llist_elems E rb = q # qs" and "entry_ok E s (pAssociatedIface c) q"
    and "bufs s q = Some b" and "payload_at s q = x" and "map (payload_at s) qs = xs"
    and "int (length x) = datasize b"
proof -
  obtain rb where rb: "recvBuffer md c = Some rb" "llist_ok E rb" "malloc_ctx rb = pAssociatedIface c"
    "\<forall>q \<in> set (llist_elems E rb). entry_ok E s (pAssociatedIface c) q"
    using chan_buffers [OF wf c i, of md] by metis
  with queue obtain q qs where q: "llist_elems E rb = q # qs" "payload_at s q = x"
    "map (payload_at s) qs = xs"
    by (auto simp: recv_queue_eq [OF c] opt_elems_def)
  then have ent: "entry_ok E s (pAssociatedIface c) q"
    using rb(4) by simp
  then obtain b where b: "bufs s q = Some b"
    by (auto simp: entry_ok_def)
  have "hasDataList E rb"
    using ll.has_data [OF rb(2)] q(1) by (simp add: hasDataList_def)
  moreover have "int (length x) = datasize b"
    using mem_read_entry(1,2) [OF ent b] q(2) by simp
  ultimately show ?thesis
    using rb(1-3) q ent b by (intro that)
qed

text \<open>Room for the whole first packet: it is delivered, unlinked and freed.\<close>

lemma recvConnection_whole:
  assumes wf: "mem_wf E s" and c: "conns s p = Some c" and i: "pAssociatedIface c \<noteq> NULL"
    and queue: "recv_queue E md p s = x # xs" and room: "int (length x) \<le> len"
  obtains q c' rb' where "recvConnection E md p len s = Some (int (length x), x,
      s\<lparr>conns := (conns s)(p \<mapsto> c'), heap := free E (pAssociatedIface c) q (heap s),
        bufs := (bufs s)(q := None), cur_ctx := NULL\<rparr>)"
    and "mem_wf E (s\<lparr>conns := (conns s)(p \<mapsto> c'), heap := free E (pAssociatedIface c) q (heap s),
        bufs := (bufs s)(q := None)\<rparr>)"
    and "c' = set_recvBuffer md (Some rb') c"
    and "opt_elems E (recvBuffer md c) = q # llist_elems E rb'"
    and "entry_ok E s (pAssociatedIface c) q"
proof -
  obtain rb q qs b where rb: "recvBuffer md c = Some rb" "llist_ok E rb" "malloc_ctx rb = pAssociatedIface c"
      "hasDataList E rb" and q: "llist_elems E rb = q # qs" "payload_at s q = x"
    and ent: "entry_ok E s (pAssociatedIface c) q" and b: "bufs s q = Some b"
    and len: "int (length x) = datasize b"
    using recv_queue_first [OF wf c i queue] by metis
  have qnn: "q \<noteq> NULL"
    using ent by (simp add: entry_ok_def)
  obtain y rb' where rem: "llist_remove_first E rb (cur_ctx s) = (y, rb', cur_ctx s)"
    and rb': "llist_ok E rb'" "llist_elems E rb' = qs" "malloc_ctx rb' = malloc_ctx rb"
    using llist_remove_first_ok [OF rb(2), of "cur_ctx s"] q(1) by auto
  have first: "llist_get_first E rb (cur_ctx s) = (q, cur_ctx s)"
    using llist_get_first_val [OF rb(2)] q(1) by simp
  let ?c = "set_recvBuffer md (Some rb') c"
  let ?t = "s\<lparr>conns := (conns s)(p \<mapsto> ?c), heap := free E (pAssociatedIface c) q (heap s),
        bufs := (bufs s)(q := None)\<rparr>"
  have "recvConnection E md p len s = Some (int (length x), x, ?t\<lparr>cur_ctx := NULL\<rparr>)"
    using c rb(1,4) first rem b qnn room len q(2) mem_read_entry(3) [OF ent b] mem_wf_conn(3) [OF wf c]
    by (simp add: recvConnection_def mem_defs)
  moreover have "mem_wf E ?t"
    by (rule mem_wf_dequeue [OF wf c i, where md = md and l = rb and l' = rb'])
      (use rb rb' q in simp_all)
  ultimately show ?thesis
    using ent rb(1) rb'(2) q(1) by (intro that [of q ?c rb']) (simp_all add: opt_elems_def)
qed

text \<open>A smaller buffer: the packet stays first in the queue, without the bytes delivered.\<close>

lemma recvConnection_part:
  assumes wf: "mem_wf E s" and c: "conns s p = Some c" and i: "pAssociatedIface c \<noteq> NULL"
    and queue: "recv_queue E md p s = x # xs" and small: "0 \<le> len" "len < int (length x)"
  obtains q b where "recvConnection E md p len s = Some (len, take (nat len) x,
      put_buf q (b\<lparr>offset := offset b + len, datasize := datasize b - len\<rparr>) s)"
    and "mem_wf E (put_buf q (b\<lparr>offset := offset b + len, datasize := datasize b - len\<rparr>) s)"
    and "bufs s q = Some b" and "entry_ok E s (pAssociatedIface c) q" and "payload_at s q = x"
    and "\<exists>qs. opt_elems E (recvBuffer md c) = q # qs \<and> map (payload_at s) qs = xs"
proof -
  obtain rb q qs b where rb: "recvBuffer md c = Some rb" "llist_ok E rb" "hasDataList E rb"
    and q: "llist_elems E rb = q # qs" "payload_at s q = x" "map (payload_at s) qs = xs"
    and ent: "entry_ok E s (pAssociatedIface c) q" and b: "bufs s q = Some b"
    and len: "int (length x) = datasize b"
    using recv_queue_first [OF wf c i queue] by metis
  have qnn: "q \<noteq> NULL"
    using ent by (simp add: entry_ok_def)
  have first: "llist_get_first E rb (cur_ctx s) = (q, cur_ctx s)"
    using llist_get_first_val [OF rb(2)] q(1) by simp
  let ?b = "b\<lparr>offset := offset b + len, datasize := datasize b - len\<rparr>"
  have "recvConnection E md p len s = Some (len, take (nat len) x, put_buf q ?b s)"
    using c rb(1,3) first b qnn small len q(2) mem_read_entry(4) [OF ent b small(1)]
      mem_wf_conn(3) [OF wf c]
    by (simp add: recvConnection_def mem_defs)
  moreover have "mem_wf E (put_buf q ?b s)"
    by (rule mem_wf_put_buf [OF wf b]) (use ent b small len in \<open>auto simp: entry_ok_def\<close>)
  ultimately show ?thesis
    using ent b q rb(1) by (intro that [of q b]) (simp_all add: opt_elems_def)
qed

text \<open>The queues after a receive.\<close>

lemma payload_at_other:
  "bufs s' x = bufs s x \<Longrightarrow> payload_at s' x = payload_at s x"
  by (simp add: payload_at_def)

lemma recv_elems_conn_bufs:
  assumes "mem_wf E s" and "conns s u = Some d" and "x \<in> set (opt_elems E (recvBuffer md d))"
  shows "x \<in> set (conn_bufs E d)"
proof (cases "pAssociatedIface d = NULL")
  case True
  with mem_wf_conn(1) [OF assms(1,2)] assms(3) show ?thesis
    by (cases md) (auto simp: conn_ok_def view_defs opt_elems_def)
next
  case False
  with assms(3) show ?thesis by (simp add: opt_elems_conn_bufs [where md = md])
qed

text \<open>A block queued for one process on one connection is in no other receive queue.\<close>

lemma queue_owner:
  assumes wf: "mem_wf E s" and "conns s p = Some c" and "conns s u = Some d"
    and q: "q \<in> set (opt_elems E (recvBuffer md c))" and x: "x \<in> set (opt_elems E (recvBuffer md' d))"
    and "p \<noteq> u \<or> md \<noteq> md'"
  shows "x \<noteq> q"
proof (cases "p = u")
  case False
  with assms recv_elems_conn_bufs [OF wf assms(2) q] recv_elems_conn_bufs [OF wf assms(3) x]
    mem_wf_disjoint [OF wf assms(2,3)] show ?thesis by auto
next
  case True
  with assms have md': "md' = peer md" and d: "d = c"
    by (cases md; cases md'; simp)+
  have i: "pAssociatedIface c \<noteq> NULL"
    using recv_elems_conn_bufs [OF wf assms(2) q] by (simp add: conn_bufs_def split: if_splits)
  show ?thesis
    using mem_wf_conn(2) [OF wf assms(2)] opt_elems_conn_bufs(2) [OF i, where md = md] q x md' d
    by auto
qed

lemma recvConnection_whole_queues:
  assumes wf: "mem_wf E s" and c: "conns s p = Some c" and i: "pAssociatedIface c \<noteq> NULL"
    and queue: "recv_queue E md p s = x # xs" and room: "int (length x) \<le> len"
  obtains s' where "recvConnection E md p len s = Some (int (length x), x, s')"
    and "mem_wf E s'" and "recv_queue E md p s' = xs"
    and "\<And>p' md'. p' \<noteq> p \<or> md' \<noteq> md \<Longrightarrow> recv_queue E md' p' s' = recv_queue E md' p' s"
    and "\<exists>c'. conns s' = (conns s)(p \<mapsto> c') \<and> pAssociatedIface c' = pAssociatedIface c
          \<and> connState c' = connState c \<and> own_port md c' = own_port md c
          \<and> remote_port md c' = remote_port md c"
    and "ifaces s' = ifaces s" and "fds s' = fds s"
proof -
  obtain q c' rb' where op: "recvConnection E md p len s = Some (int (length x), x,
      s\<lparr>conns := (conns s)(p \<mapsto> c'), heap := free E (pAssociatedIface c) q (heap s),
        bufs := (bufs s)(q := None), cur_ctx := NULL\<rparr>)"
    and wf': "mem_wf E (s\<lparr>conns := (conns s)(p \<mapsto> c'), heap := free E (pAssociatedIface c) q (heap s),
        bufs := (bufs s)(q := None)\<rparr>)"
    and c': "c' = set_recvBuffer md (Some rb') c"
    and q: "opt_elems E (recvBuffer md c) = q # llist_elems E rb'"
    by (rule recvConnection_whole [OF wf c i queue room])
  let ?s' = "s\<lparr>conns := (conns s)(p \<mapsto> c'), heap := free E (pAssociatedIface c) q (heap s),
        bufs := (bufs s)(q := None), cur_ctx := NULL\<rparr>"
  have dist: "q \<notin> set (llist_elems E rb')"
    using mem_wf_conn(2) [OF wf c] q
    by (simp add: opt_elems_conn_bufs [OF i, where md = md])
  have "map (payload_at ?s') (llist_elems E rb') = map (payload_at s) (llist_elems E rb')"
    using dist by (auto intro!: payload_at_other)
  also have "\<dots> = xs"
    using queue q by (simp add: recv_queue_eq [OF c])
  finally have "recv_queue E md p ?s' = xs"
    by (simp add: recv_queue_def c' opt_elems_def)
  moreover have "recv_queue E md' p' ?s' = recv_queue E md' p' s" if "p' \<noteq> p \<or> md' \<noteq> md" for p' md'
  proof (cases "conns s p'")
    case None
    with c show ?thesis by (auto simp: recv_queue_def)
  next
    case (Some d)
    have "map (payload_at ?s') (opt_elems E (recvBuffer md' d)) =
        map (payload_at s) (opt_elems E (recvBuffer md' d))"
      using queue_owner [OF wf c Some, of q md _ md'] q that
      by (intro map_cong [OF refl] payload_at_other) auto
    moreover have "recvBuffer md' c' = recvBuffer md' c" if "md' \<noteq> md"
      using that by (cases md; cases md') (simp_all add: c' view_defs)
    ultimately show ?thesis
      using Some c that by (cases "p' = p") (auto simp: recv_queue_def)
  qed
  moreover have "\<exists>c'. conns ?s' = (conns s)(p \<mapsto> c') \<and> pAssociatedIface c' = pAssociatedIface c
          \<and> connState c' = connState c \<and> own_port md c' = own_port md c
          \<and> remote_port md c' = remote_port md c"
    by (intro exI [of _ c']) (simp add: c')
  ultimately show ?thesis
    using op wf' by (intro that [of ?s']) simp_all
qed

lemma recvConnection_part_queues:
  assumes wf: "mem_wf E s" and c: "conns s p = Some c" and i: "pAssociatedIface c \<noteq> NULL"
    and queue: "recv_queue E md p s = x # xs" and small: "0 \<le> len" "len < int (length x)"
  obtains s' where "recvConnection E md p len s = Some (len, take (nat len) x, s')"
    and "mem_wf E s'" and "recv_queue E md p s' = drop (nat len) x # xs"
    and "\<And>p' md'. p' \<noteq> p \<or> md' \<noteq> md \<Longrightarrow> recv_queue E md' p' s' = recv_queue E md' p' s"
    and "conns s' = conns s" and "ifaces s' = ifaces s" and "fds s' = fds s"
proof -
  obtain q b where op: "recvConnection E md p len s = Some (len, take (nat len) x,
      put_buf q (b\<lparr>offset := offset b + len, datasize := datasize b - len\<rparr>) s)"
    and wf': "mem_wf E (put_buf q (b\<lparr>offset := offset b + len, datasize := datasize b - len\<rparr>) s)"
    and b: "bufs s q = Some b" and ent: "entry_ok E s (pAssociatedIface c) q"
    and x: "payload_at s q = x"
    and qs: "\<exists>qs. opt_elems E (recvBuffer md c) = q # qs \<and> map (payload_at s) qs = xs"
    by (rule recvConnection_part [OF wf c i queue small])
  from qs obtain qs where q: "opt_elems E (recvBuffer md c) = q # qs" "map (payload_at s) qs = xs"
    by blast
  let ?s' = "put_buf q (b\<lparr>offset := offset b + len, datasize := datasize b - len\<rparr>) s"
  have conns': "conns ?s' = conns s"
    by (simp add: put_buf_def)
  have other: "payload_at ?s' y = payload_at s y" if "y \<noteq> q" for y
    using that by (simp add: payload_at_def put_buf_def)
  have here: "payload_at ?s' q = drop (nat len) x"
    using b x ent small
    by (auto simp: payload_at_def put_buf_def entry_ok_def nat_add_distrib nat_diff_distrib
        drop_take add.commute)
  have dist: "q \<notin> set qs"
    using mem_wf_conn(2) [OF wf c] q(1)
    by (simp add: opt_elems_conn_bufs [OF i, where md = md])
  have "map (payload_at ?s') qs = xs"
    using dist q(2) other by (metis map_cong)
  then have "recv_queue E md p ?s' = drop (nat len) x # xs"
    using here q(1) c by (simp add: recv_queue_def conns')
  moreover have "recv_queue E md' p' ?s' = recv_queue E md' p' s" if "p' \<noteq> p \<or> md' \<noteq> md" for p' md'
  proof (cases "conns s p'")
    case None
    then show ?thesis by (simp add: recv_queue_def conns')
  next
    case (Some d)
    have "map (payload_at ?s') (opt_elems E (recvBuffer md' d)) =
        map (payload_at s) (opt_elems E (recvBuffer md' d))"
      using queue_owner [OF wf c Some, of q md _ md'] q(1) that
      by (intro map_cong [OF refl] other) auto
    with Some show ?thesis by (simp add: recv_queue_def conns')
  qed
  ultimately show ?thesis
    using op wf' by (intro that [of ?s']) (simp_all add: put_buf_def)
qed

section \<open>The connection meets the contract\<close>

text \<open>
  The sender is the process \<open>peer md\<close>, the receiver \<open>md\<close>; each runs its own build of the
  same functions on the same connection.
\<close>

definition chan_put ::
  "('m, 'l, 'k) ext \<Rightarrow> mode \<Rightarrow> ptr \<Rightarrow> byte list \<Rightarrow> ('m, 'l, 'k) st \<Rightarrow> ('m, 'l, 'k) st option" where
  "chan_put E md p bs s = map_option snd (sendConnection E md p bs (int (length bs)) s)"

definition chan_get ::
  "('m, 'l, 'k) ext \<Rightarrow> mode \<Rightarrow> ptr \<Rightarrow> int \<Rightarrow> ('m, 'l, 'k) st
    \<Rightarrow> (byte list \<times> ('m, 'l, 'k) st) option" where
  "chan_get E md p n s = map_option snd (recvConnection E md p n s)"

lemma chan_put_law:
  assumes "chan_inv E p s" and "chan_put E (peer md) p bs s = Some s'"
  shows "chan_inv E p s' \<and> recv_queue E md p s' = recv_queue E md p s @ [bs]"
proof -
  from assms(1) obtain c where wf: "mem_wf E s" and c: "conns s p = Some c"
    and i: "pAssociatedIface c \<noteq> NULL"
    by (auto simp: chan_inv_def)
  from assms(2) obtain r where op: "sendConnection E (peer md) p bs (int (length bs)) s = Some (r, s')"
    by (auto simp: chan_put_def)
  have "recv_queue E md p s' = recv_queue E md p s @ [bs]"
    using sendConnection_queues(1) [OF wf c i op] by simp
  moreover have "chan_inv E p s'"
    by (rule sendConnection_wf [OF wf c i op]) (use i in \<open>auto simp: chan_inv_def\<close>)
  ultimately show ?thesis by simp
qed

interpretation chan: packet_channel "chan_inv E p" "recv_queue E md p" "chan_put E (peer md) p"
    "chan_get E md p" for E :: "('m, 'l, 'k) ext" and md p
proof unfold_locales
  fix s :: "('m, 'l, 'k) st" and n x xs
  assume "chan_inv E p s"
  then obtain c where s: "mem_wf E s" "conns s p = Some c" "pAssociatedIface c \<noteq> NULL"
    by (auto simp: chan_inv_def)
  show "recv_queue E md p s = [] \<Longrightarrow> chan_get E md p n s = Some ([], s)"
    by (simp add: chan_get_def recvConnection_empty [OF s])
  show "\<exists>s'. chan_get E md p n s = Some (x, s') \<and> chan_inv E p s' \<and> recv_queue E md p s' = xs"
    if "recv_queue E md p s = x # xs" "int (length x) \<le> n"
    by (rule recvConnection_whole_queues [OF s that])
      (use s(3) in \<open>auto simp: chan_get_def chan_inv_def\<close>)
  show "\<exists>s'. chan_get E md p n s = Some (take (nat n) x, s') \<and> chan_inv E p s'
      \<and> recv_queue E md p s' = drop (nat n) x # xs"
    if "recv_queue E md p s = x # xs" "0 \<le> n" "n < int (length x)"
    by (rule recvConnection_part_queues [OF s that])
      (use s in \<open>auto simp: chan_get_def chan_inv_def\<close>)
qed (rule chan_put_law)

end
