(* ===== verification/Tables.thy ===== *)
theory Tables
  imports State
begin

text \<open>
  The static tables of a process: the socket descriptors of \<open>socket.c\<close> and the epoll
  descriptors of \<open>event.c\<close> with their listeners.  All of them are arrays of slots with an
  \<open>active\<close> flag and a number; the locale \<open>slot_table\<close> states what allocating, looking up and
  releasing a slot promise.
\<close>

section \<open>Slot tables\<close>

definition unique_keys :: "('a \<Rightarrow> bool) \<Rightarrow> ('a \<Rightarrow> int) \<Rightarrow> 'a list \<Rightarrow> bool" where
  "unique_keys active key xs \<longleftrightarrow>
     (\<forall>i < length xs. \<forall>j < length xs. active (xs ! i) \<longrightarrow> active (xs ! j)
        \<longrightarrow> key (xs ! i) = key (xs ! j) \<longrightarrow> i = j)"

definition keys_below :: "('a \<Rightarrow> bool) \<Rightarrow> ('a \<Rightarrow> int) \<Rightarrow> int \<Rightarrow> 'a list \<Rightarrow> bool" where
  "keys_below active key n xs \<longleftrightarrow> (\<forall>x \<in> set xs. active x \<longrightarrow> key x < n)"

locale slot_table =
  fixes active :: "'a \<Rightarrow> bool" and key :: "'a \<Rightarrow> int"
    and activate release :: "'a \<Rightarrow> 'a"
  assumes active_activate [simp]: "active (activate x)"
    and active_release [simp]: "\<not> active (release x)"
begin

text \<open>A slot is found for a number exactly when an active slot has it.\<close>

lemma lookup_iff:
  assumes "unique_keys active key xs"
  shows "first_slot (\<lambda>x. active x \<and> key x = k) xs = Some i
    \<longleftrightarrow> i < length xs \<and> active (xs ! i) \<and> key (xs ! i) = k"
proof
  assume "first_slot (\<lambda>x. active x \<and> key x = k) xs = Some i"
  then show "i < length xs \<and> active (xs ! i) \<and> key (xs ! i) = k"
    by (auto dest: first_slotD)
next
  assume i: "i < length xs \<and> active (xs ! i) \<and> key (xs ! i) = k"
  show "first_slot (\<lambda>x. active x \<and> key x = k) xs = Some i"
    by (rule first_slot_unique) (use i assms in \<open>auto simp: unique_keys_def\<close>)
qed

lemma lookup_None:
  "first_slot (\<lambda>x. active x \<and> key x = k) xs = None \<longleftrightarrow> (\<forall>x \<in> set xs. active x \<longrightarrow> key x \<noteq> k)"
  by (auto simp: first_slot_None)

text \<open>Allocation fails exactly when every slot is active, and takes an inactive slot.\<close>

lemma alloc_None: "first_slot (\<lambda>x. \<not> active x) xs = None \<longleftrightarrow> (\<forall>x \<in> set xs. active x)"
  by (auto simp: first_slot_None)

lemma alloc_count:
  assumes "first_slot (\<lambda>x. \<not> active x) xs = Some i" and "active y"
  shows "length (filter active (xs[i := y])) = Suc (length (filter active xs))"
  using assms
proof (induction xs arbitrary: i)
  case (Cons x xs)
  then show ?case
    by (cases i) (auto split: if_splits)
qed simp

text \<open>Numbering new slots with a counter keeps the numbers apart.\<close>

lemma alloc_unique:
  assumes uniq: "unique_keys active key xs" and "keys_below active key n xs" and y: "key y = n"
  shows "unique_keys active key (xs[i := y])" and "keys_below active key (n + 1) (xs[i := y])"
proof -
  have below: "key (xs ! j) \<noteq> n" if "j < length xs" "active (xs ! j)" for j
    using that assms(2) by (force simp: keys_below_def)
  show "unique_keys active key (xs[i := y])"
    unfolding unique_keys_def length_list_update
  proof (intro allI impI)
    fix j k
    assume jk: "j < length xs" "k < length xs" "active (xs[i := y] ! j)" "active (xs[i := y] ! k)"
      and eq: "key (xs[i := y] ! j) = key (xs[i := y] ! k)"
    consider "j = i" "k = i" | "j = i" "k \<noteq> i" | "j \<noteq> i" "k = i" | "j \<noteq> i" "k \<noteq> i"
      by blast
    then show "j = k"
    proof cases
      case 2
      with jk eq y below [of k] show ?thesis by simp
    next
      case 3
      with jk eq y below [of j] show ?thesis by simp
    next
      case 4
      with jk eq uniq show ?thesis by (simp add: unique_keys_def)
    qed simp
  qed
  show "keys_below active key (n + 1) (xs[i := y])"
    unfolding keys_below_def
  proof (intro ballI impI)
    fix x
    assume "x \<in> set (xs[i := y])" and "active x"
    then have "x = y \<or> x \<in> set xs"
      by (blast dest: subsetD [OF set_update_subset_insert])
    then show "key x < n + 1"
      using assms(2) y \<open>active x\<close> by (fastforce simp: keys_below_def)
  qed
qed

text \<open>Updating a slot in place, or releasing it, keeps the numbers apart.\<close>

lemma update_unique:
  assumes uniq: "unique_keys active key xs"
    and y: "active y \<longrightarrow> active (xs ! i) \<and> key y = key (xs ! i)"
  shows "unique_keys active key (xs[i := y])"
proof -
  have old: "active (xs ! j) \<and> key (xs[i := y] ! j) = key (xs ! j)"
    if "j < length xs" "active (xs[i := y] ! j)" for j
    using that y by (cases "j = i") auto
  show ?thesis
    unfolding unique_keys_def length_list_update
  proof (intro allI impI)
    fix j k
    assume jk: "j < length xs" "k < length xs" "active (xs[i := y] ! j)" "active (xs[i := y] ! k)"
      and "key (xs[i := y] ! j) = key (xs[i := y] ! k)"
    then have "key (xs ! j) = key (xs ! k)"
      using old [OF jk(1,3)] old [OF jk(2,4)] by simp
    with uniq jk(1,2) old [OF jk(1,3)] old [OF jk(2,4)] show "j = k"
      unfolding unique_keys_def by blast
  qed
qed

lemma update_below:
  assumes "keys_below active key n xs" and "i < length xs"
    and "active y \<longrightarrow> active (xs ! i) \<and> key y = key (xs ! i)"
  shows "keys_below active key n (xs[i := y])"
  unfolding keys_below_def
proof (intro ballI impI)
  fix x
  assume "x \<in> set (xs[i := y])" and "active x"
  then have "x = y \<or> x \<in> set xs"
    by (blast dest: subsetD [OF set_update_subset_insert])
  then show "key x < n"
    using assms \<open>active x\<close> by (auto simp: keys_below_def)
qed

end

section \<open>Socket descriptors\<close>

definition set_fd :: "nat \<Rightarrow> (fd \<Rightarrow> fd) \<Rightarrow> ('m, 'l, 'k) st \<Rightarrow> ('m, 'l, 'k) st" where
  "set_fd i f s = s\<lparr>fds := (fds s)[i := f (fds s ! i)]\<rparr>"

definition getFdByNum :: "int \<Rightarrow> ('m, 'l, 'k) st \<Rightarrow> nat option" where
  "getFdByNum n s = first_slot (\<lambda>f. fd_active f \<and> num f = n) (fds s)"

definition getEmptyFd :: "('m, 'l, 'k) st \<Rightarrow> nat option \<times> ('m, 'l, 'k) st" where
  "getEmptyFd s = (case first_slot (\<lambda>f. \<not> fd_active f) (fds s) of
     None \<Rightarrow> (None, s)
   | Some i \<Rightarrow> (Some i, set_fd i (\<lambda>f. f\<lparr>fd_active := True\<rparr>) s))"

definition deleteFd :: "nat \<Rightarrow> ('m, 'l, 'k) st \<Rightarrow> ('m, 'l, 'k) st" where
  "deleteFd i s = set_fd i (\<lambda>f. f\<lparr>fd_active := False\<rparr>) s"

definition handleCloseWhileIO :: "nat \<Rightarrow> ('m, 'l, 'k) st \<Rightarrow> ('m, 'l, 'k) st" where
  "handleCloseWhileIO i s = set_fd i (\<lambda>f. f\<lparr>fstate := s_close\<rparr>) s"

interpretation fd_table: slot_table fd_active num "\<lambda>f. f\<lparr>fd_active := True\<rparr>"
    "\<lambda>f. f\<lparr>fd_active := False\<rparr>"
  by unfold_locales simp_all

section \<open>Epoll descriptors and their listeners\<close>

definition set_pfd :: "nat \<Rightarrow> (epollfd \<Rightarrow> epollfd) \<Rightarrow> ('m, 'l, 'k) st \<Rightarrow> ('m, 'l, 'k) st" where
  "set_pfd i f s = s\<lparr>pollfds := (pollfds s)[i := f (pollfds s ! i)]\<rparr>"

definition set_lfd ::
  "nat \<Rightarrow> nat \<Rightarrow> (eventListenFd \<Rightarrow> eventListenFd) \<Rightarrow> ('m, 'l, 'k) st \<Rightarrow> ('m, 'l, 'k) st" where
  "set_lfd i j f s = set_pfd i (\<lambda>p. p\<lparr>lfds := (lfds p)[j := f (lfds p ! j)]\<rparr>) s"

abbreviation lfd_at :: "('m, 'l, 'k) st \<Rightarrow> nat \<Rightarrow> nat \<Rightarrow> eventListenFd" where
  "lfd_at s i j \<equiv> lfds (pollfds s ! i) ! j"

definition getPollfdByNum :: "int \<Rightarrow> ('m, 'l, 'k) st \<Rightarrow> nat option" where
  "getPollfdByNum n s = first_slot (\<lambda>p. pfd_active p \<and> pfd_num p = n) (pollfds s)"

definition getEmptyPollfd :: "('m, 'l, 'k) st \<Rightarrow> nat option \<times> ('m, 'l, 'k) st" where
  "getEmptyPollfd s = (case first_slot (\<lambda>p. \<not> pfd_active p) (pollfds s) of
     None \<Rightarrow> (None, s)
   | Some i \<Rightarrow> (Some i, set_pfd i (\<lambda>p. p\<lparr>pfd_active := True\<rparr>) s))"

definition deleteListener :: "nat \<Rightarrow> nat \<Rightarrow> ('m, 'l, 'k) st \<Rightarrow> ('m, 'l, 'k) st" where
  "deleteListener i j s = set_lfd i j (\<lambda>l. l\<lparr>lfd_active := False\<rparr>) s"

text \<open>\<open>for (j = 0; j < MAX_FDS_LISTEN; j++) deleteListener(pfd->lfds + j);\<close>\<close>

definition deleteAllListeners :: "nat \<Rightarrow> ('m, 'l, 'k) st \<Rightarrow> ('m, 'l, 'k) st" where
  "deleteAllListeners i s = fold (deleteListener i) [0..<MAX_FDS_LISTEN] s"

definition deletePollfd :: "nat \<Rightarrow> ('m, 'l, 'k) st \<Rightarrow> ('m, 'l, 'k) st" where
  "deletePollfd i s = set_pfd i (\<lambda>p. p\<lparr>pfd_active := False\<rparr>) (deleteAllListeners i s)"

definition handleFdCloseInEvents :: "nat \<Rightarrow> nat \<Rightarrow> ('m, 'l, 'k) st \<Rightarrow> ('m, 'l, 'k) st" where
  "handleFdCloseInEvents i j s = deleteListener i j s"

text \<open>
  The listener registered for descriptor \<open>n\<close>; one whose socket was closed in the meantime is
  dropped, and then none is found.
\<close>

definition getListenerForFd ::
  "nat \<Rightarrow> int \<Rightarrow> ('m, 'l, 'k) st \<Rightarrow> nat option \<times> ('m, 'l, 'k) st" where
  "getListenerForFd i n s =
     (case first_slot (\<lambda>l. lfd_active l \<and> num (fds s ! lfd_fd l) = n) (lfds (pollfds s ! i)) of
        None \<Rightarrow> (None, s)
      | Some j \<Rightarrow>
          if fd_active (fds s ! lfd_fd (lfd_at s i j)) then (Some j, s)
          else (None, handleFdCloseInEvents i j s))"

definition getEmptyListener :: "nat \<Rightarrow> ('m, 'l, 'k) st \<Rightarrow> nat option \<times> ('m, 'l, 'k) st" where
  "getEmptyListener i s = (case first_slot (\<lambda>l. \<not> lfd_active l) (lfds (pollfds s ! i)) of
     None \<Rightarrow> (None, s)
   | Some j \<Rightarrow> (Some j, set_lfd i j (\<lambda>l. l\<lparr>lfd_active := True\<rparr>) s))"

definition handleEpfdClose :: "int \<Rightarrow> ('m, 'l, 'k) st \<Rightarrow> int \<times> ('m, 'l, 'k) st" where
  "handleEpfdClose epfd s = (case getPollfdByNum epfd s of
     None \<Rightarrow> (-1, s\<lparr>errno := EBADF\<rparr>)
   | Some i \<Rightarrow> (0, deleteAllListeners i (set_pfd i (\<lambda>p. p\<lparr>pfd_active := False\<rparr>) s)))"

text \<open>
  \<open>validateEventFlags\<close> has no \<open>return\<close> for the case that every flag is supported: then its
  value is whatever the caller finds (\<open>None\<close>).  \<open>assertEventFlags\<close> only prints.
\<close>

definition validateEventFlags :: "eventmask \<Rightarrow> bool option" where
  "validateEventFlags events =
     (if IS_EVENT_SET events (NOT (EPOLLIN OR EPOLLOUT OR EPOLLHUP)) then Some False else None)"

interpretation pollfd_table: slot_table pfd_active pfd_num "\<lambda>p. p\<lparr>pfd_active := True\<rparr>"
    "\<lambda>p. p\<lparr>pfd_active := False\<rparr>"
  by unfold_locales simp_all

interpretation listener_table: slot_table lfd_active "\<lambda>l. int (lfd_fd l)"
    "\<lambda>l. l\<lparr>lfd_active := True\<rparr>" "\<lambda>l. l\<lparr>lfd_active := False\<rparr>"
  by unfold_locales simp_all

section \<open>What the table operations change\<close>

lemma set_fd_sel [simp]:
  "fds (set_fd i f s) = (fds s)[i := f (fds s ! i)]"
  "heap (set_fd i f s) = heap s" "ifaces (set_fd i f s) = ifaces s"
  "conns (set_fd i f s) = conns s" "bufs (set_fd i f s) = bufs s"
  "interfaces (set_fd i f s) = interfaces s" "currentMaxFd (set_fd i f s) = currentMaxFd s"
  "randomPort (set_fd i f s) = randomPort s" "pollfds (set_fd i f s) = pollfds s"
  "randomPollFd (set_fd i f s) = randomPollFd s" "poll_epollfd (set_fd i f s) = poll_epollfd s"
  "errno (set_fd i f s) = errno s" "cur_ctx (set_fd i f s) = cur_ctx s"
  "kern (set_fd i f s) = kern s"
  by (simp_all add: set_fd_def)

lemma set_pfd_sel [simp]:
  "pollfds (set_pfd i g s) = (pollfds s)[i := g (pollfds s ! i)]"
  "heap (set_pfd i g s) = heap s" "ifaces (set_pfd i g s) = ifaces s"
  "conns (set_pfd i g s) = conns s" "bufs (set_pfd i g s) = bufs s"
  "interfaces (set_pfd i g s) = interfaces s" "currentMaxFd (set_pfd i g s) = currentMaxFd s"
  "randomPort (set_pfd i g s) = randomPort s" "fds (set_pfd i g s) = fds s"
  "randomPollFd (set_pfd i g s) = randomPollFd s" "poll_epollfd (set_pfd i g s) = poll_epollfd s"
  "errno (set_pfd i g s) = errno s" "cur_ctx (set_pfd i g s) = cur_ctx s"
  "kern (set_pfd i g s) = kern s"
  by (simp_all add: set_pfd_def)

text \<open>An operation that leaves everything but the epoll table alone.\<close>

definition only_pollfds :: "('m, 'l, 'k) st \<Rightarrow> ('m, 'l, 'k) st \<Rightarrow> bool" where
  "only_pollfds s t \<longleftrightarrow> (\<exists>x. t = s\<lparr>pollfds := x\<rparr>)"

lemma only_pollfds_refl [simp]: "only_pollfds s s"
  unfolding only_pollfds_def by (rule exI [of _ "pollfds s"]) simp

lemma only_pollfds_set_pfd [simp]: "only_pollfds s (set_pfd i g s)"
  by (auto simp: only_pollfds_def set_pfd_def)

lemma only_pollfds_trans: "only_pollfds s t \<Longrightarrow> only_pollfds t u \<Longrightarrow> only_pollfds s u"
  by (auto simp: only_pollfds_def)

lemma deleteListener_only [simp]: "only_pollfds s (deleteListener i j s)"
  by (simp add: deleteListener_def set_lfd_def)

lemma deleteAllListeners_only [simp]: "only_pollfds s (deleteAllListeners i s)"
proof -
  have "only_pollfds s (fold (deleteListener i) js s)" for js
    by (induction js arbitrary: s) (auto intro: only_pollfds_trans [OF deleteListener_only])
  then show ?thesis
    by (simp add: deleteAllListeners_def)
qed

lemma getListenerForFd_only: "getListenerForFd i n s = (r, t) \<Longrightarrow> only_pollfds s t"
  by (auto simp: getListenerForFd_def handleFdCloseInEvents_def split: option.splits if_splits)

lemma getEmptyListener_only: "getEmptyListener i s = (r, t) \<Longrightarrow> only_pollfds s t"
  by (auto simp: getEmptyListener_def set_lfd_def split: option.splits)

end
