(* ===== verification/Interface.thy ===== *)
theory Interface
  imports Memory "HOL-Library.Char_ord"
begin

text \<open>
  The interface table of \<open>util.c\<close> and the registration of an interface: the file through
  which the server tells the client where the region is mapped, the creation of the region,
  and the structure the server puts at its start.
\<close>

section \<open>Looking up an interface\<close>

definition getFreeInterface :: "('m, 'l, 'k) st \<Rightarrow> nat option" where
  "getFreeInterface s = first_slot (\<lambda>p. p = NULL) (interfaces s)"

fun find_interface :: "('l interface \<Rightarrow> bool) \<Rightarrow> ('m, 'l, 'k) st \<Rightarrow> ptr list \<Rightarrow> ptr option" where
  "find_interface Q s [] = Some NULL"
| "find_interface Q s (p # ps) =
     (if p = NULL then find_interface Q s ps
      else do { i \<leftarrow> get_iface p s; if Q i then Some p else find_interface Q s ps })"

definition getInterfaceBySockaddr :: "mode \<Rightarrow> sock_address \<Rightarrow> ('m, 'l, 'k) st \<Rightarrow> ptr option" where
  "getInterfaceBySockaddr md address s =
     find_interface (\<lambda>i. remote_address md i = address) s (interfaces s)"

definition getOwnInterfaceBySockaddr :: "mode \<Rightarrow> sock_address \<Rightarrow> ('m, 'l, 'k) st \<Rightarrow> ptr option" where
  "getOwnInterfaceBySockaddr md address s =
     find_interface (\<lambda>i. own_address md i = address) s (interfaces s)"

section \<open>The address file\<close>

text \<open>\<open>fprintf(f, "%llu", n)\<close>: the decimal digits of a 64-bit number.\<close>

fun print_llu :: "nat \<Rightarrow> string" where
  "print_llu n =
     (if n < 10 then [char_of (48 + n)] else print_llu (n div 10) @ [char_of (48 + n mod 10)])"

declare print_llu.simps [simp del]

text \<open>
  \<open>fscanf(f, "%llu", &ret)\<close>: white space, an optional sign, then digits up to the first other
  character; numbers that do not fit become \<open>ULLONG_MAX\<close>.  Without a digit nothing is
  stored, and the caller returns an uninitialised variable (\<open>None\<close>).
\<close>

definition is_space :: "char \<Rightarrow> bool" where
  "is_space c \<longleftrightarrow> (let n = of_char c :: nat in n = 32 \<or> (9 \<le> n \<and> n \<le> 13))"

definition is_digit :: "char \<Rightarrow> bool" where
  "is_digit c \<longleftrightarrow> (let n = of_char c :: nat in 48 \<le> n \<and> n \<le> 57)"

fun read_digits :: "nat \<Rightarrow> string \<Rightarrow> nat" where
  "read_digits v [] = v"
| "read_digits v (c # cs) = (if is_digit c then read_digits (10 * v + (of_char c - 48)) cs else v)"

definition scan_llu :: "string \<Rightarrow> nat option" where
  "scan_llu cs =
     (let cs1 = dropWhile is_space cs;
          neg = (case cs1 of c # _ \<Rightarrow> c = CHR ''-'' | [] \<Rightarrow> False);
          cs2 = (case cs1 of c # r \<Rightarrow> if c = CHR ''-'' \<or> c = CHR ''+'' then r else cs1 | [] \<Rightarrow> [])
      in case cs2 of
           [] \<Rightarrow> None
         | c # _ \<Rightarrow>
             if is_digit c
             then let v = read_digits 0 cs2; w = (if v < 2 ^ 64 then v else 2 ^ 64 - 1)
                  in Some (if neg then (2 ^ 64 - w) mod 2 ^ 64 else w)
             else None)"

definition getAddressFromFile :: "string \<Rightarrow> ('m, 'l, 'k) st \<Rightarrow> ptr option" where
  "getAddressFromFile fname s = do { cs \<leftarrow> files s fname; scan_llu cs }"

definition setAddressToFile :: "string \<Rightarrow> ptr \<Rightarrow> ('m, 'l, 'k) st \<Rightarrow> ('m, 'l, 'k) st" where
  "setAddressToFile fname addr s = s\<lparr>files := (files s)(fname \<mapsto> print_llu (addr mod 2 ^ 64))\<rparr>"

section \<open>Registration\<close>

definition createSharedRegion ::
  "('m, 'l, 'k) ext \<Rightarrow> string \<Rightarrow> int \<Rightarrow> ptr \<Rightarrow> ('m, 'l, 'k) st \<Rightarrow> ptr \<times> ('m, 'l, 'k) st" where
  "createSharedRegion E name n addr s =
     (let (key, s1) = syscall E (Ftok name CHR ''r'') s
      in if sys_ret key = -1 then (NULL, s1)
         else
           let (shmid, s2) = syscall E (Shmget (sys_ret key) n) s1
           in if sys_ret shmid = -1 then (NULL, s2)
              else
                let (at, s3) = syscall E (Shmat (sys_ret shmid) addr) s2
                in if sys_ret at = -1 then (NULL, s3) else (nat (sys_ret at), s3))"

text \<open>
  \<open>memset\<close> over the region and the fields the server fills in.  The objects that were in the
  region are gone.
\<close>

definition in_region :: "ptr \<Rightarrow> int \<Rightarrow> ptr \<Rightarrow> bool" where
  "in_region region n p \<longleftrightarrow> region \<le> p \<and> int p < int region + n"

definition initInterface ::
  "('m, 'l, 'k) ext \<Rightarrow> mode \<Rightarrow> ptr \<Rightarrow> int \<Rightarrow> sock_address \<Rightarrow> sock_address \<Rightarrow> ('m, 'l, 'k) st
    \<Rightarrow> ('m, 'l, 'k) st" where
  "initInterface E md region n remoteAddress ownAddress s =
     (let s1 = s\<lparr>ifaces := (\<lambda>p. if in_region region n p then None else ifaces s p),
                 conns := (\<lambda>p. if in_region region n p then None else conns s p),
                 bufs := (\<lambda>p. if in_region region n p then None else bufs s p)\<rparr>;
          i0 = \<lparr>magic = IFACE_MAGIC, connectionList = None, addr1 = 0, addr2 = 0, shmemSize = n,
                shmemStart = region, shmemEnd = nat (int region + n)\<rparr>;
          i1 = set_own_address md ownAddress (set_remote_address md remoteAddress i0);
          s2 = s1\<lparr>heap := createMallocContext E region (region + sizeof_interface E)
                            (n - int (sizeof_interface E)) (heap s1)\<rparr>;
          (list, cur) = llist_new E region (cur_ctx s2)
      in put_iface region (i1\<lparr>connectionList := Some list\<rparr>) (setMallocContext cur s2))"

text \<open>The build with \<open>ENCLAVE\<close>: the region is given, and a flag says who fills it.\<close>

definition registerInterface2 ::
  "('m, 'l, 'k) ext \<Rightarrow> mode \<Rightarrow> ptr \<Rightarrow> int \<Rightarrow> bool \<Rightarrow> sock_address \<Rightarrow> sock_address
    \<Rightarrow> ('m, 'l, 'k) st \<Rightarrow> int \<times> ('m, 'l, 'k) st" where
  "registerInterface2 E md addr n asServer remoteAddress ownAddress s =
     (case getFreeInterface s of
        None \<Rightarrow> (0, s)
      | Some k \<Rightarrow>
          if addr = NULL then (0, s)
          else
            let s1 = s\<lparr>interfaces := (interfaces s)[k := addr]\<rparr>
            in (1, if asServer then initInterface E md addr n remoteAddress ownAddress s1 else s1))"

text \<open>
  The build without \<open>ENCLAVE\<close>.  \<open>fixed\<close> says whether \<open>MODE_FIXED_REGION\<close> is defined; the
  server without it maps the region anywhere and writes the address to the file, every
  other process reads the address there.  The file name is built in a buffer of 256 bytes.
\<close>

definition mapRegion ::
  "('m, 'l, 'k) ext \<Rightarrow> mode \<Rightarrow> bool \<Rightarrow> string \<Rightarrow> string \<Rightarrow> int \<Rightarrow> ('m, 'l, 'k) st
    \<Rightarrow> (ptr \<times> ('m, 'l, 'k) st) option" where
  "mapRegion E md fixed name addrFilename n s =
     (if md = Server \<and> \<not> fixed
      then let (region, s1) = createSharedRegion E name n NULL s
           in Some (region, setAddressToFile addrFilename region s1)
      else do {
        addr \<leftarrow> getAddressFromFile addrFilename s;
        Some (createSharedRegion E name n addr s) })"

definition registerInterface ::
  "('m, 'l, 'k) ext \<Rightarrow> mode \<Rightarrow> bool \<Rightarrow> string \<Rightarrow> int \<Rightarrow> sock_address \<Rightarrow> sock_address
    \<Rightarrow> ('m, 'l, 'k) st \<Rightarrow> (int \<times> ('m, 'l, 'k) st) option" where
  "registerInterface E md fixed name n remoteAddress ownAddress s =
     (case getFreeInterface s of
        None \<Rightarrow> Some (0, s)
      | Some k \<Rightarrow>
          let addrFilename = name @ ''.'' @ ''addr''
          in if length addrFilename \<ge> 0x100 then None
             else do {
               (region, s1) \<leftarrow> mapRegion E md fixed name addrFilename n s;
               if region = NULL then Some (0, s1)
               else
                 let s2 = s1\<lparr>interfaces := (interfaces s1)[k := region]\<rparr>
                 in Some (1, if md = Server
                             then initInterface E md region n remoteAddress ownAddress s2
                             else s2) })"

section \<open>The address survives the file\<close>

lemma is_digit_char: "n < (10::nat) \<Longrightarrow> is_digit (char_of (48 + n))"
  by (simp add: is_digit_def Let_def)

lemma read_digits_append:
  "\<forall>c \<in> set cs. is_digit c \<Longrightarrow> read_digits v (cs @ ds) = read_digits (read_digits v cs) ds"
  by (induction cs arbitrary: v) auto

lemma print_llu_digits: "\<forall>c \<in> set (print_llu n). is_digit c"
proof (induction n rule: print_llu.induct)
  case (1 n)
  then show ?case
    by (subst print_llu.simps) (auto simp: is_digit_char)
qed

lemma read_print_llu: "read_digits 0 (print_llu n) = n"
proof (induction n rule: print_llu.induct)
  case (1 n)
  show ?case
  proof (cases "n < 10")
    case True
    then show ?thesis
      by (simp add: print_llu.simps [of n] is_digit_char)
  next
    case False
    with 1 have "read_digits 0 (print_llu (n div 10)) = n div 10" by simp
    with False show ?thesis
      by (simp add: print_llu.simps [of n] read_digits_append print_llu_digits is_digit_char)
  qed
qed

lemma print_llu_nonempty: "print_llu n \<noteq> []"
  by (subst print_llu.simps) simp

lemma digit_not_space: "is_digit c \<Longrightarrow> \<not> is_space c \<and> c \<noteq> CHR ''-'' \<and> c \<noteq> CHR ''+''"
  by (auto simp: is_digit_def is_space_def Let_def)

text \<open>
  The file may hold white space before the number and anything but a digit after it; a number
  that does not fit is read as the largest one.
\<close>

lemma scan_print_llu:
  assumes "\<forall>c \<in> set ws. is_space c" and "rest = [] \<or> \<not> is_digit (hd rest)"
  shows "scan_llu (ws @ print_llu n @ rest) = Some (if n < 2 ^ 64 then n else 2 ^ 64 - 1)"
proof -
  obtain c cs where p: "print_llu n = c # cs"
    using print_llu_nonempty by (cases "print_llu n") auto
  then have c: "is_digit c"
    using print_llu_digits [of n] by simp
  have "read_digits v rest = v" for v
    using assms(2) by (cases rest) auto
  then have "read_digits 0 (print_llu n @ rest) = n"
    by (simp add: read_digits_append print_llu_digits read_print_llu)
  then have digits: "read_digits 0 (c # cs @ rest) = n"
    by (simp only: p append_Cons)
  have drop: "dropWhile is_space (ws @ c # cs @ rest) = c # cs @ rest"
    using assms(1) digit_not_space [OF c] by (subst dropWhile_append2) auto
  show ?thesis
    using digit_not_space [OF c] c digits
    by (simp only: scan_llu_def p append_Cons drop Let_def list.case) simp
qed

lemma address_file_roundtrip:
  "getAddressFromFile f (setAddressToFile f addr s) = Some (addr mod 2 ^ 64)"
proof -
  have "scan_llu (print_llu (addr mod 2 ^ 64)) = Some (addr mod 2 ^ 64)"
    using scan_print_llu [of "[]" "[]" "addr mod 2 ^ 64"] by simp
  then show ?thesis
    by (simp add: getAddressFromFile_def setAddressToFile_def)
qed

section \<open>The table after a registration\<close>

lemma find_interface_hit:
  assumes "\<forall>p \<in> set ps. p \<noteq> NULL \<longrightarrow> p \<in> dom (ifaces s)"
  shows "find_interface Q s ps =
    Some (case List.find (\<lambda>p. p \<noteq> NULL \<and> Q (the (ifaces s p))) ps of None \<Rightarrow> NULL | Some p \<Rightarrow> p)"
  using assms by (induction ps) (auto simp: get_iface_def)

lemma createSharedRegion_frame:
  assumes "createSharedRegion E name n addr s = (r, t)"
  shows "\<exists>k e. t = s\<lparr>kern := k, errno := e\<rparr>"
proof -
  have step: "\<exists>k' e'. snd (syscall E q (s\<lparr>kern := k, errno := e\<rparr>)) = s\<lparr>kern := k', errno := e'\<rparr>"
    for q k e
    by (auto simp: syscall_def split: prod.splits)
  have "s = s\<lparr>kern := kern s, errno := errno s\<rparr>"
    by simp
  then obtain r1 k1 e1 where 1: "syscall E (Ftok name CHR ''r'') s = (r1, s\<lparr>kern := k1, errno := e1\<rparr>)"
    using step by (metis prod.collapse)
  obtain r2 k2 e2 where 2: "syscall E (Shmget (sys_ret r1) n) (s\<lparr>kern := k1, errno := e1\<rparr>)
      = (r2, s\<lparr>kern := k2, errno := e2\<rparr>)"
    using step by (metis prod.collapse)
  obtain r3 k3 e3 where 3: "syscall E (Shmat (sys_ret r2) addr) (s\<lparr>kern := k2, errno := e2\<rparr>)
      = (r3, s\<lparr>kern := k3, errno := e3\<rparr>)"
    using step by (metis prod.collapse)
  show ?thesis
    using assms by (auto simp: createSharedRegion_def 1 2 3 split: if_splits)
qed

end
