(* ===== verification/Socket.thy ===== *)
theory Socket
  imports Delivery Tables Interface
begin

text \<open>
  The socket API of \<open>socket.c\<close>.  A call takes the state of the process and returns the value
  of the C function, what it stores through its pointer arguments, and the state afterwards;
  \<open>None\<close> is undefined behaviour.  A call that may block takes a number of rounds and the
  effect \<open>env k\<close> of the rest of the system during its k-th sleep, and returns \<open>None\<close> as its
  value when it is still waiting after that many rounds.
\<close>

section \<open>Constants and addresses\<close>

definition AF_INET :: "32 word" where "AF_INET = 2"
definition SOCK_STREAM :: "32 word" where "SOCK_STREAM = 1"
definition SOCK_NONBLOCK :: "32 word" where "SOCK_NONBLOCK = 0x800"
definition SOCK_CLOEXEC :: "32 word" where "SOCK_CLOEXEC = 0x80000"
definition MSG_DONTWAIT :: "32 word" where "MSG_DONTWAIT = 0x40"
definition O_NONBLOCK :: "64 word" where "O_NONBLOCK = 0x800"

lemmas flag_defs = AF_INET_def SOCK_STREAM_def SOCK_NONBLOCK_def SOCK_CLOEXEC_def
  MSG_DONTWAIT_def O_NONBLOCK_def

text \<open>\<open>struct sockaddr_in\<close> of the C library; a \<open>NULL\<close> pointer to one is \<open>None\<close>.\<close>

record sockaddr_in =
  sin_family :: "16 word"
  sin_port :: "16 word"
  sin_addr :: "32 word"

definition PORT :: "sockaddr_in \<Rightarrow> int" where
  "PORT a = uint (sin_port a)"

definition SOCKADDR :: "sockaddr_in \<Rightarrow> sock_address" where
  "SOCKADDR a = sint (sin_addr a)"

definition TO_PORT :: "int \<Rightarrow> 16 word" where
  "TO_PORT port = word_of_int port"

definition TO_SOCKADDR :: "sock_address \<Rightarrow> 32 word" where
  "TO_SOCKADDR addr = word_of_int addr"

text \<open>The conversion of a \<open>size_t\<close> argument to the \<open>int\<close> parameter of \<open>sendConnection\<close>.\<close>

definition size_to_int :: "64 word \<Rightarrow> int" where
  "size_to_int n = sint (ucast n :: 32 word)"

section \<open>Descriptors\<close>

definition socket ::
  "32 word \<Rightarrow> 32 word \<Rightarrow> 32 word \<Rightarrow> ('m, 'l, 'k) st \<Rightarrow> (int \<times> ('m, 'l, 'k) st) option" where
  "socket domain type protocol s =
     (if domain \<noteq> AF_INET then fail EAFNOSUPPORT s
      else if type AND NOT (SOCK_NONBLOCK OR SOCK_CLOEXEC) \<noteq> SOCK_STREAM
      then fail EPROTONOSUPPORT s
      else if currentMaxFd s \<ge> POLLFD_START then fail ENFILE s
      else case getEmptyFd s of
             (None, s1) \<Rightarrow> fail ENOMEM s1
           | (Some i, s1) \<Rightarrow>
               let n = currentMaxFd s1;
                   s2 = set_fd i (\<lambda>f. f\<lparr>num := n, fstate := s_created, fd_pConn := NULL,
                          flagNonblock := type AND SOCK_NONBLOCK\<rparr>)
                          (s1\<lparr>currentMaxFd := n + 1\<rparr>)
               in Some (n, s2))"

text \<open>The address is read only after the descriptor has been checked.\<close>

definition bind ::
  "int \<Rightarrow> sockaddr_in option \<Rightarrow> ('m, 'l, 'k) st \<Rightarrow> (int \<times> ('m, 'l, 'k) st) option" where
  "bind sockfd addr s =
     (case getFdByNum sockfd s of
        None \<Rightarrow> fail EBADF s
      | Some i \<Rightarrow>
          if fstate (fds s ! i) \<noteq> s_created then fail EBADF s
          else do {
            a \<leftarrow> addr;
            Some (0, set_fd i (\<lambda>f. f\<lparr>listenPort := PORT a, listenAddress := SOCKADDR a,
                                 fstate := s_bound\<rparr>) s) })"

definition listen ::
  "('m, 'l, 'k) ext \<Rightarrow> mode \<Rightarrow> int \<Rightarrow> int \<Rightarrow> ('m, 'l, 'k) st \<Rightarrow> (int \<times> ('m, 'l, 'k) st) option"
  where
  "listen E md sockfd backlog s =
     (case getFdByNum sockfd s of
        None \<Rightarrow> fail EBADF s
      | Some i \<Rightarrow>
          if fstate (fds s ! i) \<noteq> s_bound then fail EBADF s
          else do {
            (p, s1) \<leftarrow> createNewListenerConnection E md s;
            Some (0, set_fd i (\<lambda>f. f\<lparr>fd_pConn := p, fstate := s_listen\<rparr>) s1) })"

text \<open>\<open>assertFd\<close> returns 1, not -1.\<close>

definition handleSockfdClose ::
  "('m, 'l, 'k) ext \<Rightarrow> mode \<Rightarrow> int \<Rightarrow> ('m, 'l, 'k) st \<Rightarrow> (int \<times> ('m, 'l, 'k) st) option" where
  "handleSockfdClose E md sockfd s =
     (case getFdByNum sockfd s of
        None \<Rightarrow> Some (1, s\<lparr>errno := EBADF\<rparr>)
      | Some i \<Rightarrow> do {
          s1 \<leftarrow> (if fd_pConn (fds s ! i) \<noteq> NULL
                then closeConnection E md (fd_pConn (fds s ! i)) s else Some s);
          Some (0, deleteFd i (set_fd i (\<lambda>f. f\<lparr>fstate := s_close\<rparr>) s1)) })"

definition close ::
  "('m, 'l, 'k) ext \<Rightarrow> mode \<Rightarrow> int \<Rightarrow> ('m, 'l, 'k) st \<Rightarrow> (int \<times> ('m, 'l, 'k) st) option" where
  "close E md sockfd s =
     (if sockfd < FD_START
      then let (r, s1) = syscall E (SYS_close sockfd) s in Some (sys_ret r, s1)
      else if sockfd < POLLFD_START then handleSockfdClose E md sockfd s
      else Some (handleEpfdClose sockfd s))"

definition getsockname ::
  "mode \<Rightarrow> int \<Rightarrow> sockaddr_in option \<Rightarrow> ('m, 'l, 'k) st
    \<Rightarrow> (int \<times> sockaddr_in option \<times> ('m, 'l, 'k) st) option" where
  "getsockname md sockfd addr s =
     (case getFdByNum sockfd s of
        None \<Rightarrow> Some (1, addr, s\<lparr>errno := EBADF\<rparr>)
      | Some i \<Rightarrow>
          let f = fds s ! i
          in if fstate f = s_listen
             then do {
               a \<leftarrow> addr;
               Some (0, Some (a\<lparr>sin_port := TO_PORT (listenPort f),
                            sin_addr := TO_SOCKADDR (listenAddress f)\<rparr>), s) }
             else if fd_pConn f = NULL then Some (-1, addr, s\<lparr>errno := ENOTCONN\<rparr>)
             else do {
               c \<leftarrow> get_conn (fd_pConn f) s;
               if connState c \<noteq> c_open then Some (-1, addr, s\<lparr>errno := ENOTCONN\<rparr>)
               else do {
                 a \<leftarrow> addr;
                 iface \<leftarrow> get_iface (pAssociatedIface c) s;
                 Some (0, Some (a\<lparr>sin_port := TO_PORT (own_port md c),
                              sin_addr := TO_SOCKADDR (own_address md iface)\<rparr>), s) } })"

definition getpeername ::
  "mode \<Rightarrow> int \<Rightarrow> sockaddr_in option \<Rightarrow> ('m, 'l, 'k) st
    \<Rightarrow> (int \<times> sockaddr_in option \<times> ('m, 'l, 'k) st) option" where
  "getpeername md sockfd addr s =
     (case getFdByNum sockfd s of
        None \<Rightarrow> Some (1, addr, s\<lparr>errno := EBADF\<rparr>)
      | Some i \<Rightarrow>
          let f = fds s ! i
          in if fd_pConn f = NULL then Some (-1, addr, s\<lparr>errno := ENOTCONN\<rparr>)
             else do {
               c \<leftarrow> get_conn (fd_pConn f) s;
               if connState c \<noteq> c_open then Some (-1, addr, s\<lparr>errno := ENOTCONN\<rparr>)
               else do {
                 a \<leftarrow> addr;
                 iface \<leftarrow> get_iface (pAssociatedIface c) s;
                 Some (0, Some (a\<lparr>sin_family := ucast AF_INET,
                              sin_port := TO_PORT (remote_port md c),
                              sin_addr := TO_SOCKADDR (remote_address md iface)\<rparr>), s) } })"

section \<open>Accepting\<close>

text \<open>
  One round of the loop of \<open>accept4\<close>: a connection (\<open>Inr\<close>), an error (\<open>Inl\<close>) or another
  sleep.
\<close>

definition accept_round ::
  "('m, 'l, 'k) ext \<Rightarrow> mode \<Rightarrow> nat \<Rightarrow> nat \<Rightarrow> ('m, 'l, 'k) st
    \<Rightarrow> ((errno + ptr) option \<times> ('m, 'l, 'k) st) option" where
  "accept_round E md i k s = do {
     (p, s1) \<leftarrow> acceptNewConnectionOnAnyIface E md (listenAddress (fds s ! i))
                 (listenPort (fds s ! i)) s;
     if p \<noteq> NULL then Some (Some (Inr p), s1)
     else if flagNonblock (fds s1 ! i) \<noteq> 0 then Some (Some (Inl EAGAIN), s1)
     else if fstate (fds s1 ! i) = s_close then Some (Some (Inl EBADF), s1)
     else Some (None, s1)
   }"

text \<open>
  After the loop the new descriptor is allocated.  The check that follows the allocation
  looks at the listening descriptor instead of the new one, so a full table ends in a write
  through \<open>NULL\<close>.
\<close>

definition accept_finish ::
  "mode \<Rightarrow> ptr \<Rightarrow> sockaddr_in option \<Rightarrow> 32 word \<Rightarrow> ('m, 'l, 'k) st
    \<Rightarrow> ((int \<times> sockaddr_in option) \<times> ('m, 'l, 'k) st) option" where
  "accept_finish md p addr flags s =
     (case getEmptyFd s of
        (None, s1) \<Rightarrow> None
      | (Some j, s1) \<Rightarrow>
          let n = currentMaxFd s1;
              s2 = set_fd j (\<lambda>f. f\<lparr>num := n, fstate := s_open, fd_pConn := p,
                     flagNonblock := flags AND SOCK_NONBLOCK\<rparr>) (s1\<lparr>currentMaxFd := n + 1\<rparr>)
          in do {
            (_, addr', s3) \<leftarrow> getpeername md n addr s2;
            Some ((n, addr'), s3) })"

definition accept4 ::
  "nat \<Rightarrow> (nat \<Rightarrow> ('m, 'l, 'k) st \<Rightarrow> ('m, 'l, 'k) st) \<Rightarrow> ('m, 'l, 'k) ext \<Rightarrow> mode \<Rightarrow> int
    \<Rightarrow> sockaddr_in option \<Rightarrow> 32 word \<Rightarrow> ('m, 'l, 'k) st
    \<Rightarrow> ((int \<times> sockaddr_in option) option \<times> ('m, 'l, 'k) st) option" where
  "accept4 rounds env E md sockfd addr flags s =
     (case getFdByNum sockfd s of
        None \<Rightarrow> Some (Some (-1, addr), s\<lparr>errno := EBADF\<rparr>)
      | Some i \<Rightarrow>
          if fstate (fds s ! i) \<noteq> s_listen then Some (Some (-1, addr), s\<lparr>errno := EBADF\<rparr>)
          else do {
            (r, s1) \<leftarrow> wait_loop rounds env 0 (accept_round E md i) s;
            case r of
              None \<Rightarrow> Some (None, s1)
            | Some (Inl e) \<Rightarrow> Some (Some (-1, addr), s1\<lparr>errno := e\<rparr>)
            | Some (Inr p) \<Rightarrow> do {
                (v, s2) \<leftarrow> accept_finish md p addr flags s1;
                Some (Some v, s2) } })"

definition accept ::
  "nat \<Rightarrow> (nat \<Rightarrow> ('m, 'l, 'k) st \<Rightarrow> ('m, 'l, 'k) st) \<Rightarrow> ('m, 'l, 'k) ext \<Rightarrow> mode \<Rightarrow> int
    \<Rightarrow> sockaddr_in option \<Rightarrow> ('m, 'l, 'k) st
    \<Rightarrow> ((int \<times> sockaddr_in option) option \<times> ('m, 'l, 'k) st) option" where
  "accept rounds env E md sockfd addr s = accept4 rounds env E md sockfd addr 0 s"

section \<open>Connecting\<close>

definition connect_round ::
  "nat \<Rightarrow> nat \<Rightarrow> ('m, 'l, 'k) st \<Rightarrow> ((errno + unit) option \<times> ('m, 'l, 'k) st) option" where
  "connect_round i k s = do {
     accepted \<leftarrow> checkIfAcceptedConnection (fd_pConn (fds s ! i)) s;
     if accepted then Some (Some (Inr ()), s)
     else do {
       closed \<leftarrow> checkIfClosedConnection (fd_pConn (fds s ! i)) s;
       if closed then Some (Some (Inl ECONNREFUSED), s)
       else if flagNonblock (fds s ! i) \<noteq> 0 then Some (Some (Inl EINPROGRESS), s)
       else Some (None, s) }
   }"

definition wait_for_accept ::
  "nat \<Rightarrow> (nat \<Rightarrow> ('m, 'l, 'k) st \<Rightarrow> ('m, 'l, 'k) st) \<Rightarrow> nat \<Rightarrow> ('m, 'l, 'k) st
    \<Rightarrow> (int option \<times> ('m, 'l, 'k) st) option" where
  "wait_for_accept rounds env i s = do {
     (r, s1) \<leftarrow> wait_loop rounds env 0 (connect_round i) s;
     case r of
       None \<Rightarrow> Some (None, s1)
     | Some (Inl e) \<Rightarrow> Some (Some (-1), s1\<lparr>errno := e\<rparr>)
     | Some (Inr _) \<Rightarrow> Some (Some 0, set_fd i (\<lambda>f. f\<lparr>fstate := s_open\<rparr>) s1)
   }"

text \<open>
  The part of \<open>connectEx\<close> before the label \<open>wait_for_accept\<close>: find the interface, create the
  connection and offer it.
\<close>

definition start_connect ::
  "('m, 'l, 'k) ext \<Rightarrow> mode \<Rightarrow> nat \<Rightarrow> sockaddr_in option \<Rightarrow> ('m, 'l, 'k) st
    \<Rightarrow> (errno option \<times> ('m, 'l, 'k) st) option" where
  "start_connect E md i addr s = do {
     a \<leftarrow> addr;
     pIface \<leftarrow> getInterfaceBySockaddr md (SOCKADDR a) s;
     if pIface = NULL then Some (Some ENETUNREACH, s)
     else do {
       (p, s1) \<leftarrow> createNewConnection E md pIface (randomPort s) (PORT a)
                   (s\<lparr>randomPort := randomPort s + 1\<rparr>);
       let s2 = set_fd i (\<lambda>f. f\<lparr>fd_pConn := p\<rparr>) s1;
       (_, s3) \<leftarrow> initiateNewConnection E p s2;
       Some (None, set_fd i (\<lambda>f. f\<lparr>fstate := s_connecting\<rparr>) s3) }
   }"

definition connectEx ::
  "nat \<Rightarrow> (nat \<Rightarrow> ('m, 'l, 'k) st \<Rightarrow> ('m, 'l, 'k) st) \<Rightarrow> ('m, 'l, 'k) ext \<Rightarrow> mode \<Rightarrow> int
    \<Rightarrow> sockaddr_in option \<Rightarrow> ('m, 'l, 'k) st \<Rightarrow> (int option \<times> ('m, 'l, 'k) st) option" where
  "connectEx rounds env E md sockfd addr s =
     (case getFdByNum sockfd s of
        None \<Rightarrow> Some (Some (-1), s\<lparr>errno := EBADF\<rparr>)
      | Some i \<Rightarrow>
          if fstate (fds s ! i) = s_connecting then wait_for_accept rounds env i s
          else if fstate (fds s ! i) = s_created
          then do {
            (e, s1) \<leftarrow> start_connect E md i addr s;
            case e of
              Some e \<Rightarrow> Some (Some (-1), s1\<lparr>errno := e\<rparr>)
            | None \<Rightarrow> wait_for_accept rounds env i s1 }
          else Some (Some (-1), s\<lparr>errno := EBADF\<rparr>))"

definition connect ::
  "nat \<Rightarrow> (nat \<Rightarrow> ('m, 'l, 'k) st \<Rightarrow> ('m, 'l, 'k) st) \<Rightarrow> ('m, 'l, 'k) ext \<Rightarrow> mode \<Rightarrow> int
    \<Rightarrow> sockaddr_in option \<Rightarrow> ('m, 'l, 'k) st \<Rightarrow> (int option \<times> ('m, 'l, 'k) st) option" where
  "connect rounds env E md sockfd addr s =
     (case getFdByNum sockfd s of
        None \<Rightarrow> Some (Some (-1), s\<lparr>errno := EBADF\<rparr>)
      | Some i \<Rightarrow>
          if fstate (fds s ! i) \<noteq> s_created \<and> fstate (fds s ! i) \<noteq> s_connecting
          then Some (Some (-1), s\<lparr>errno := EBADF\<rparr>)
          else if fstate (fds s ! i) = s_connecting
          then Some (Some (-1), s\<lparr>errno := EALREADY\<rparr>)
          else connectEx rounds env E md sockfd addr s)"

section \<open>Sending and receiving\<close>

definition send ::
  "('m, 'l, 'k) ext \<Rightarrow> mode \<Rightarrow> int \<Rightarrow> byte list \<Rightarrow> 64 word \<Rightarrow> 32 word \<Rightarrow> ('m, 'l, 'k) st
    \<Rightarrow> (int \<times> ('m, 'l, 'k) st) option" where
  "send E md sockfd buf len flags s =
     (case getFdByNum sockfd s of
        None \<Rightarrow> fail EBADF s
      | Some i \<Rightarrow>
          if fstate (fds s ! i) \<noteq> s_open then fail EBADF s
          else do {
            c \<leftarrow> get_conn (fd_pConn (fds s ! i)) s;
            if connState c = c_close then fail ENOTCONN (handleCloseWhileIO i s)
            else sendConnection E md (fd_pConn (fds s ! i)) buf (size_to_int len) s })"

text \<open>One round of \<open>recv\<close>: data or end of file (\<open>Inr\<close>), an error, or another sleep.\<close>

definition recv_round ::
  "('m, 'l, 'k) ext \<Rightarrow> mode \<Rightarrow> nat \<Rightarrow> 64 word \<Rightarrow> 32 word \<Rightarrow> nat \<Rightarrow> ('m, 'l, 'k) st
    \<Rightarrow> ((errno + int \<times> byte list) option \<times> ('m, 'l, 'k) st) option" where
  "recv_round E md i len flags k s = do {
     (ret, out, s1) \<leftarrow> recvConnection E md (fd_pConn (fds s ! i)) (size_to_int len) s;
     if ret \<noteq> 0 then Some (Some (Inr (ret, out)), s1)
     else do {
       c \<leftarrow> get_conn (fd_pConn (fds s1 ! i)) s1;
       if connState c = c_close then Some (Some (Inr (0, [])), handleCloseWhileIO i s1)
       else if flagNonblock (fds s1 ! i) \<noteq> 0 \<or> flags AND MSG_DONTWAIT \<noteq> 0
       then Some (Some (Inl EAGAIN), s1)
       else Some (None, s1) }
   }"

definition recv ::
  "nat \<Rightarrow> (nat \<Rightarrow> ('m, 'l, 'k) st \<Rightarrow> ('m, 'l, 'k) st) \<Rightarrow> ('m, 'l, 'k) ext \<Rightarrow> mode \<Rightarrow> int
    \<Rightarrow> 64 word \<Rightarrow> 32 word \<Rightarrow> ('m, 'l, 'k) st
    \<Rightarrow> ((int \<times> byte list) option \<times> ('m, 'l, 'k) st) option" where
  "recv rounds env E md sockfd len flags s =
     (case getFdByNum sockfd s of
        None \<Rightarrow> Some (Some (-1, []), s\<lparr>errno := EBADF\<rparr>)
      | Some i \<Rightarrow>
          if fstate (fds s ! i) \<noteq> s_open then Some (Some (-1, []), s\<lparr>errno := EBADF\<rparr>)
          else do {
            (r, s1) \<leftarrow> wait_loop rounds env 0 (recv_round E md i len flags) s;
            case r of
              None \<Rightarrow> Some (None, s1)
            | Some (Inl e) \<Rightarrow> Some (Some (-1, []), s1\<lparr>errno := e\<rparr>)
            | Some (Inr v) \<Rightarrow> Some (Some v, s1) })"

text \<open>\<open>sendmsg\<close> sends the pieces of the message one after the other.\<close>

fun send_iov ::
  "('m, 'l, 'k) ext \<Rightarrow> mode \<Rightarrow> int \<Rightarrow> (byte list \<times> 64 word) list \<Rightarrow> 32 word \<Rightarrow> int
    \<Rightarrow> ('m, 'l, 'k) st \<Rightarrow> (int \<times> ('m, 'l, 'k) st) option" where
  "send_iov E md sockfd [] flags bytesSent s = Some (bytesSent, s)"
| "send_iov E md sockfd ((base, len) # iov) flags bytesSent s = do {
     (ret, s1) \<leftarrow> send E md sockfd base len flags s;
     if ret < 0 then Some (-1, s1) else send_iov E md sockfd iov flags (bytesSent + ret) s1 }"

definition sendmsg ::
  "('m, 'l, 'k) ext \<Rightarrow> mode \<Rightarrow> int \<Rightarrow> (byte list \<times> 64 word) list \<Rightarrow> 32 word
    \<Rightarrow> ('m, 'l, 'k) st \<Rightarrow> (int \<times> ('m, 'l, 'k) st) option" where
  "sendmsg E md sockfd iov flags s =
     (case getFdByNum sockfd s of
        None \<Rightarrow> fail EBADF s
      | Some i \<Rightarrow>
          if fstate (fds s ! i) \<noteq> s_open then fail EBADF s
          else do {
            c \<leftarrow> get_conn (fd_pConn (fds s ! i)) s;
            if connState c = c_close then fail ENOTCONN (handleCloseWhileIO i s)
            else send_iov E md sockfd iov flags 0 s })"

definition recvmsg :: "int \<Rightarrow> ('m, 'l, 'k) st \<Rightarrow> int \<times> ('m, 'l, 'k) st" where
  "recvmsg sockfd s = (-1, s)"

text \<open>\<open>read\<close> and \<open>write\<close> forward the descriptors of the kernel.\<close>

definition read ::
  "nat \<Rightarrow> (nat \<Rightarrow> ('m, 'l, 'k) st \<Rightarrow> ('m, 'l, 'k) st) \<Rightarrow> ('m, 'l, 'k) ext \<Rightarrow> mode \<Rightarrow> int
    \<Rightarrow> 64 word \<Rightarrow> ('m, 'l, 'k) st
    \<Rightarrow> ((int \<times> byte list) option \<times> ('m, 'l, 'k) st) option" where
  "read rounds env E md sockfd count s =
     (if sockfd < FD_START
      then let (r, s1) = syscall E (SYS_read sockfd (unat count)) s
           in Some (Some (sys_ret r, sys_bytes r), s1)
      else recv rounds env E md sockfd count 0 s)"

definition write_api ::
  "('m, 'l, 'k) ext \<Rightarrow> mode \<Rightarrow> int \<Rightarrow> byte list \<Rightarrow> 64 word \<Rightarrow> ('m, 'l, 'k) st
    \<Rightarrow> (int \<times> ('m, 'l, 'k) st) option" where
  "write_api E md sockfd buf count s =
     (if sockfd < FD_START
      then let (r, s1) = syscall E (SYS_write sockfd buf (unat count)) s in Some (sys_ret r, s1)
      else send E md sockfd buf count 0 s)"

section \<open>Options\<close>

text \<open>\<open>shutdown\<close>: \<open>SHUT_RD\<close> 0, \<open>SHUT_WR\<close> 1, \<open>SHUT_RDWR\<close> 2.\<close>

definition shutdown :: "int \<Rightarrow> int \<Rightarrow> ('m, 'l, 'k) st \<Rightarrow> (int \<times> ('m, 'l, 'k) st) option" where
  "shutdown sockfd how s =
     (case getFdByNum sockfd s of
        None \<Rightarrow> fail EBADF s
      | Some i \<Rightarrow>
          if fstate (fds s ! i) \<noteq> s_open \<and> fstate (fds s ! i) \<noteq> s_shutdown then fail EBADF s
          else if how = 0 then Some (0, s)
          else if how = 1 then Some (0, s)
          else if how = 2 then Some (0, s)
          else fail EINVAL s)"

definition ioctl ::
  "('m, 'l, 'k) ext \<Rightarrow> int \<Rightarrow> nat \<Rightarrow> ptr \<Rightarrow> ('m, 'l, 'k) st \<Rightarrow> int \<times> ('m, 'l, 'k) st" where
  "ioctl E sockfd request argp s =
     (if sockfd < FD_START
      then let (r, s1) = syscall E (SYS_ioctl sockfd request argp) s in (sys_ret r, s1)
      else (0, s))"

text \<open>The commands of \<open>fcntl\<close>: \<open>F_GETFD\<close> 1, \<open>F_SETFD\<close> 2, \<open>F_GETFL\<close> 3, \<open>F_SETFL\<close> 4.\<close>

definition fcntl ::
  "('m, 'l, 'k) ext \<Rightarrow> int \<Rightarrow> int \<Rightarrow> 64 word \<Rightarrow> ('m, 'l, 'k) st
    \<Rightarrow> (int \<times> ('m, 'l, 'k) st) option" where
  "fcntl E sockfd cmd arg s =
     (if sockfd < FD_START
      then let (r, s1) = syscall E (SYS_fcntl sockfd cmd arg) s in Some (sys_ret r, s1)
      else case getFdByNum sockfd s of
             None \<Rightarrow> Some (1, s\<lparr>errno := EBADF\<rparr>)
           | Some i \<Rightarrow>
               if cmd = 3 \<or> cmd = 1
               then Some (if flagNonblock (fds s ! i) \<noteq> 0 then uint O_NONBLOCK else 0, s)
               else if cmd = 4 \<or> cmd = 2
               then Some (0, set_fd i (\<lambda>f. f\<lparr>flagNonblock := ucast (arg AND O_NONBLOCK)\<rparr>) s)
               else fail EINVAL s)"

definition fcntl64 ::
  "('m, 'l, 'k) ext \<Rightarrow> int \<Rightarrow> int \<Rightarrow> 64 word \<Rightarrow> ('m, 'l, 'k) st
    \<Rightarrow> (int \<times> ('m, 'l, 'k) st) option" where
  "fcntl64 E sockfd cmd arg s = fcntl E sockfd cmd arg s"

definition getsockopt :: "int \<Rightarrow> ('m, 'l, 'k) st \<Rightarrow> int \<times> ('m, 'l, 'k) st" where
  "getsockopt sockfd s = (0, s)"

definition setsockopt :: "int \<Rightarrow> ('m, 'l, 'k) st \<Rightarrow> int \<times> ('m, 'l, 'k) st" where
  "setsockopt sockfd s = (0, s)"

end
