(* ===== verification/Event.thy ===== *)
theory Event
  imports Socket
begin

text \<open>
  The event API of \<open>event.c\<close>: epoll descriptors with a table of listeners, and \<open>poll\<close> on top
  of them.  The array \<open>events\<close> of a call is the list of the entries stored so far, so that
  \<open>eventsReturned\<close> is its length.
\<close>

section \<open>Registration\<close>

definition epoll_create1 :: "int \<Rightarrow> ('m, 'l, 'k) st \<Rightarrow> (int \<times> ('m, 'l, 'k) st) option" where
  "epoll_create1 flags s =
     (if randomPollFd s \<ge> SYSTEM_MAX_FD then fail ENFILE s
      else case getEmptyPollfd s of
             (None, s1) \<Rightarrow> fail ENOMEM s1
           | (Some i, s1) \<Rightarrow>
               let n = randomPollFd s1
               in Some (n, set_pfd i (\<lambda>p. p\<lparr>pfd_num := n, allFlags := flags\<rparr>)
                          (s1\<lparr>randomPollFd := n + 1\<rparr>)))"

definition EPOLL_CTL_ADD :: int where "EPOLL_CTL_ADD = 1"
definition EPOLL_CTL_DEL :: int where "EPOLL_CTL_DEL = 2"
definition EPOLL_CTL_MOD :: int where "EPOLL_CTL_MOD = 3"

lemmas ctl_defs = EPOLL_CTL_ADD_def EPOLL_CTL_DEL_def EPOLL_CTL_MOD_def

text \<open>The part of \<open>epoll_ctl\<close> for the descriptors of the kernel.\<close>

definition epoll_ctl_real ::
  "('m, 'l, 'k) ext \<Rightarrow> nat \<Rightarrow> int \<Rightarrow> int \<Rightarrow> epoll_event option \<Rightarrow> ('m, 'l, 'k) st
    \<Rightarrow> int \<times> ('m, 'l, 'k) st" where
  "epoll_ctl_real E i op sockfd event s =
     (let s1 = (if isMixed (pollfds s ! i) then s
                else let (r, t) = syscall E (SYS_epoll_create1 (allFlags (pollfds s ! i))) s
                     in set_pfd i (\<lambda>p. p\<lparr>realPollfd := sys_ret r, isMixed := True\<rparr>) t);
          (r, s2) = syscall E (SYS_epoll_ctl (realPollfd (pollfds s1 ! i)) op sockfd event) s1
      in (sys_ret r, s2))"

definition set_listener :: "epoll_event \<Rightarrow> eventListenFd \<Rightarrow> eventListenFd" where
  "set_listener ev l =
     l\<lparr>lfd_event := ev, isLevelTriggered := \<not> IS_EVENT_SET (ev_events ev) EPOLLET\<rparr>"

definition epoll_ctl ::
  "('m, 'l, 'k) ext \<Rightarrow> int \<Rightarrow> int \<Rightarrow> int \<Rightarrow> epoll_event option \<Rightarrow> ('m, 'l, 'k) st
    \<Rightarrow> (int \<times> ('m, 'l, 'k) st) option" where
  "epoll_ctl E epfd op sockfd event s =
     (case getPollfdByNum epfd s of
        None \<Rightarrow> fail EBADF s
      | Some i \<Rightarrow>
          if sockfd < FD_START then Some (epoll_ctl_real E i op sockfd event s)
          else case getFdByNum sockfd s of
                 None \<Rightarrow> fail EBADF s
               | Some f \<Rightarrow>
                   let (l, s1) = getListenerForFd i sockfd s in
                   if op = EPOLL_CTL_ADD
                   then (case l of
                           Some _ \<Rightarrow> fail EEXIST s1
                         | None \<Rightarrow>
                             (case getEmptyListener i s1 of
                                (None, s2) \<Rightarrow> fail ENOMEM s2
                              | (Some j, s2) \<Rightarrow> do {
                                  ev \<leftarrow> event;
                                  Some (0, set_lfd i j
                                    (\<lambda>l. set_listener ev (l\<lparr>lfd_fd := f\<rparr>)) s2) }))
                   else if op = EPOLL_CTL_MOD
                   then (case l of
                           None \<Rightarrow> fail ENOENT s1
                         | Some j \<Rightarrow> do {
                             ev \<leftarrow> event;
                             Some (0, set_lfd i j (set_listener ev) s1) })
                   else if op = EPOLL_CTL_DEL
                   then (case l of
                           None \<Rightarrow> fail ENOENT s1
                         | Some j \<Rightarrow> Some (0, deleteListener i j s1))
                   else fail EINVAL s)"

section \<open>Waiting\<close>

definition setLevelTriggeredEvents ::
  "('m, 'l, 'k) ext \<Rightarrow> mode \<Rightarrow> ptr \<Rightarrow> ('m, 'l, 'k) st \<Rightarrow> ('m, 'l, 'k) st option" where
  "setLevelTriggeredEvents E md pConn s = do {
     c \<leftarrow> get_conn pConn s;
     rb \<leftarrow> recvBuffer md c;
     let c1 = set_own_lt_events md 0 c;
     let c2 = (if hasDataList E rb
               then set_own_lt_events md (SET_EVENT (own_lt_events md c1) EPOLLIN) c1 else c1);
     let c3 = set_own_lt_events md (SET_EVENT (own_lt_events md c2) EPOLLOUT) c2;
     let c4 = (if connState c3 = c_close
               then set_own_lt_events md (SET_EVENT (own_lt_events md c3) EPOLLHUP) c3 else c3);
     Some (put_conn pConn c4 s)
   }"

text \<open>
  The macro \<open>checkAndSetEvents\<close> for listener \<open>j\<close> of descriptor \<open>i\<close>; \<open>evs\<close> are the entries
  stored so far.
\<close>

definition checkAndSetEvents ::
  "('m, 'l, 'k) ext \<Rightarrow> mode \<Rightarrow> nat \<Rightarrow> nat \<Rightarrow> eventmask \<Rightarrow> epoll_event list \<Rightarrow> ('m, 'l, 'k) st
    \<Rightarrow> (epoll_event list \<times> ('m, 'l, 'k) st) option" where
  "checkAndSetEvents E md i j eventsListening evs s =
     (let l = lfd_at s i j; f = fds s ! lfd_fd l; p = fd_pConn f in
      if isLevelTriggered l
      then do {
        s1 \<leftarrow> (if \<not> (fstate f = s_listen \<or> fstate f = s_connecting)
              then setLevelTriggeredEvents E md p s else Some s);
        c \<leftarrow> get_conn p s1;
        Some (if IS_EVENT_SET (own_lt_events md c) eventsListening
              then evs @ [\<lparr>ev_events = own_lt_events md c AND eventsListening,
                           ev_data = ev_data (lfd_event l)\<rparr>]
              else evs, s1) }
      else do {
        c \<leftarrow> get_conn p s;
        if IS_EVENT_SET (own_events md c) eventsListening
        then Some (evs @ [\<lparr>ev_events = own_events md c AND eventsListening,
                           ev_data = ev_data (lfd_event l)\<rparr>],
                   put_conn p (set_own_events md (CLEAR_EVENT (own_events md c) eventsListening) c) s)
        else Some (evs, s) })"

text \<open>The body of the loop over the listeners; \<open>connectEx\<close> does not sleep here.\<close>

definition scan_listener ::
  "('m, 'l, 'k) ext \<Rightarrow> mode \<Rightarrow> nat \<Rightarrow> nat \<Rightarrow> epoll_event list \<Rightarrow> ('m, 'l, 'k) st
    \<Rightarrow> (epoll_event list \<times> ('m, 'l, 'k) st) option" where
  "scan_listener E md i j evs s =
     (let l = lfd_at s i j; f = fds s ! lfd_fd l; p = fd_pConn f in
      if \<not> lfd_active l then Some (evs, s)
      else if \<not> fd_active f then Some (evs, handleFdCloseInEvents i j s)
      else if fstate f = s_listen
      then do {
        q \<leftarrow> searchNewConnectionOnAnyIface E md (listenAddress f) (listenPort f) s;
        c \<leftarrow> get_conn p s;
        if q \<noteq> NULL
        then let c1 = set_own_events md (SET_EVENT (own_events md c) EPOLLIN) c;
                 c2 = set_own_lt_events md (SET_EVENT (own_lt_events md c1) EPOLLIN) c1
             in checkAndSetEvents E md i j EPOLLIN evs (put_conn p c2 s)
        else Some (evs, put_conn p
               (set_own_lt_events md (CLEAR_EVENT (own_lt_events md c) EPOLLIN) c) s) }
      else if fstate f = s_connecting
      then do {
        accepted \<leftarrow> checkIfAcceptedConnection p s;
        c \<leftarrow> get_conn p s;
        if accepted
        then do {
          let c1 = set_own_events md (SET_EVENT (own_events md c) EPOLLIN) c;
          let c2 = set_own_lt_events md (SET_EVENT (own_lt_events md c1) EPOLLIN) c1;
          (evs1, s1) \<leftarrow> checkAndSetEvents E md i j EPOLLIN evs (put_conn p c2 s);
          (_, s2) \<leftarrow> connectEx 1 (\<lambda>_ t. t) E md (num (fds s1 ! lfd_fd l)) None s1;
          Some (evs1, s2) }
        else Some (evs, put_conn p
               (set_own_lt_events md (CLEAR_EVENT (own_lt_events md c) EPOLLIN) c) s) }
      else checkAndSetEvents E md i j (ev_events (lfd_event l)) evs s)"

text \<open>\<open>for (j = 0; j < MAX_FDS_LISTEN && eventsReturned < maxevents; j++)\<close>\<close>

fun scan_listeners ::
  "('m, 'l, 'k) ext \<Rightarrow> mode \<Rightarrow> nat \<Rightarrow> int \<Rightarrow> nat list \<Rightarrow> epoll_event list \<Rightarrow> ('m, 'l, 'k) st
    \<Rightarrow> (epoll_event list \<times> ('m, 'l, 'k) st) option" where
  "scan_listeners E md i maxevents [] evs s = Some (evs, s)"
| "scan_listeners E md i maxevents (j # js) evs s =
     (if int (length evs) < maxevents
      then do {
        (evs1, s1) \<leftarrow> scan_listener E md i j evs s;
        scan_listeners E md i maxevents js evs1 s1 }
      else Some (evs, s))"

text \<open>The real descriptors of a mixed epoll descriptor fill up the rest of the array.\<close>

definition real_events ::
  "('m, 'l, 'k) ext \<Rightarrow> nat \<Rightarrow> int \<Rightarrow> epoll_event list \<Rightarrow> ('m, 'l, 'k) st
    \<Rightarrow> epoll_event list \<times> ('m, 'l, 'k) st" where
  "real_events E i maxevents evs s =
     (if isMixed (pollfds s ! i)
      then let (r, s1) = syscall E (SYS_epoll_wait (realPollfd (pollfds s ! i))
                           (maxevents - int (length evs)) 0) s
           in (if sys_ret r > 0 then evs @ take (nat (sys_ret r)) (sys_events r) else evs, s1)
      else (evs, s))"

definition SLEEP_DURATION :: int where "SLEEP_DURATION = 100"

definition int_ok :: "int \<Rightarrow> bool" where
  "int_ok x \<longleftrightarrow> - (2 ^ 31) \<le> x \<and> x < 2 ^ 31"

text \<open>
  One round of \<open>while (1)\<close>, with \<open>elapsedSleep\<close> the number of sleeps so far.  An overflow of
  the two products of the timeout test is undefined.
\<close>

definition epoll_round ::
  "('m, 'l, 'k) ext \<Rightarrow> mode \<Rightarrow> nat \<Rightarrow> int \<Rightarrow> int \<Rightarrow> nat \<Rightarrow> ('m, 'l, 'k) st
    \<Rightarrow> ((int \<times> epoll_event list) option \<times> ('m, 'l, 'k) st) option" where
  "epoll_round E md i maxevents timeout elapsedSleep s = do {
     (evs, s1) \<leftarrow> scan_listeners E md i maxevents [0..<MAX_FDS_LISTEN] [] s;
     let (evs2, s2) = real_events E i maxevents evs s1;
     if evs2 \<noteq> [] then Some (Some (int (length evs2), evs2), s2)
     else if timeout = -1 then Some (None, s2)
     else if \<not> (int_ok (timeout * 1000) \<and> int_ok (int elapsedSleep * SLEEP_DURATION)) then None
     else if int elapsedSleep * SLEEP_DURATION > timeout * 1000 then Some (Some (0, []), s2)
     else Some (None, s2)
   }"

definition epoll_pwait ::
  "nat \<Rightarrow> (nat \<Rightarrow> ('m, 'l, 'k) st \<Rightarrow> ('m, 'l, 'k) st) \<Rightarrow> ('m, 'l, 'k) ext \<Rightarrow> mode \<Rightarrow> int \<Rightarrow> int
    \<Rightarrow> int \<Rightarrow> ('m, 'l, 'k) st
    \<Rightarrow> ((int \<times> epoll_event list) option \<times> ('m, 'l, 'k) st) option" where
  "epoll_pwait rounds env E md epfd maxevents timeout s =
     (case getPollfdByNum epfd s of
        None \<Rightarrow> Some (Some (-1, []), s\<lparr>errno := EBADF\<rparr>)
      | Some i \<Rightarrow> wait_loop rounds env 0 (epoll_round E md i maxevents timeout) s)"

definition epoll_wait ::
  "nat \<Rightarrow> (nat \<Rightarrow> ('m, 'l, 'k) st \<Rightarrow> ('m, 'l, 'k) st) \<Rightarrow> ('m, 'l, 'k) ext \<Rightarrow> mode \<Rightarrow> int \<Rightarrow> int
    \<Rightarrow> int \<Rightarrow> ('m, 'l, 'k) st
    \<Rightarrow> ((int \<times> epoll_event list) option \<times> ('m, 'l, 'k) st) option" where
  "epoll_wait rounds env E md epfd maxevents timeout s =
     epoll_pwait rounds env E md epfd maxevents timeout s"

section \<open>Poll\<close>

text \<open>\<open>struct pollfd\<close> of the C library.\<close>

record pollfd =
  poll_fd :: int
  poll_events :: "16 word"
  poll_revents :: "16 word"

text \<open>
  Registering entry \<open>k\<close> and the ones after it: the event mask is a \<open>short\<close>, the index goes into
  \<open>data.u32\<close>.
\<close>

fun poll_add ::
  "('m, 'l, 'k) ext \<Rightarrow> int \<Rightarrow> nat \<Rightarrow> pollfd list \<Rightarrow> ('m, 'l, 'k) st \<Rightarrow> (int \<times> ('m, 'l, 'k) st) option"
  where
  "poll_add E epfd k [] s = Some (0, s)"
| "poll_add E epfd k (p # ps) s = do {
     (r, s1) \<leftarrow> epoll_ctl E epfd EPOLL_CTL_ADD (poll_fd p)
       (Some \<lparr>ev_events = scast (poll_events p), ev_data = word_of_nat k\<rparr>) s;
     if r = -1 then Some (-1, s1) else poll_add E epfd (Suc k) ps s1 }"

fun poll_del ::
  "('m, 'l, 'k) ext \<Rightarrow> int \<Rightarrow> pollfd list \<Rightarrow> ('m, 'l, 'k) st \<Rightarrow> (int \<times> ('m, 'l, 'k) st) option" where
  "poll_del E epfd [] s = Some (0, s)"
| "poll_del E epfd (p # ps) s = do {
     (r, s1) \<leftarrow> epoll_ctl E epfd EPOLL_CTL_DEL (poll_fd p) None s;
     if r = -1 then Some (-1, s1) else poll_del E epfd ps s1 }"

text \<open>\<open>fds[epollEvents[i].data.u32].revents = epollEvents[i].events\<close>, within the array.\<close>

definition poll_index :: "epoll_event \<Rightarrow> nat" where
  "poll_index ev = unat (ucast (ev_data ev) :: 32 word)"

fun poll_store :: "epoll_event list \<Rightarrow> pollfd list \<Rightarrow> pollfd list option" where
  "poll_store [] ps = Some ps"
| "poll_store (ev # evs) ps =
     (let k = poll_index ev in
      if k < length ps
      then poll_store evs (ps[k := (ps ! k)\<lparr>poll_revents := ucast (ev_events ev)\<rparr>])
      else None)"

text \<open>The static \<open>epollfd\<close>, created with the first call.\<close>

definition poll_descriptor :: "('m, 'l, 'k) st \<Rightarrow> (int \<times> ('m, 'l, 'k) st) option" where
  "poll_descriptor s =
     (if poll_epollfd s = -1
      then do { (r, s1) \<leftarrow> epoll_create1 0 s; Some (r, s1\<lparr>poll_epollfd := r\<rparr>) }
      else Some (poll_epollfd s, s))"

text \<open>The part of \<open>poll\<close> after the registration: the wait, the results, the removal.\<close>

definition poll_wait ::
  "nat \<Rightarrow> (nat \<Rightarrow> ('m, 'l, 'k) st \<Rightarrow> ('m, 'l, 'k) st) \<Rightarrow> ('m, 'l, 'k) ext \<Rightarrow> mode \<Rightarrow> int
    \<Rightarrow> pollfd list \<Rightarrow> int \<Rightarrow> ('m, 'l, 'k) st
    \<Rightarrow> ((int \<times> pollfd list) option \<times> ('m, 'l, 'k) st) option" where
  "poll_wait rounds env E md epfd ps timeout s = do {
     (w, s1) \<leftarrow> epoll_wait rounds env E md epfd (int (length ps)) timeout s;
     case w of
       None \<Rightarrow> Some (None, s1)
     | Some (ret, evs) \<Rightarrow> do {
         ps1 \<leftarrow> poll_store evs (map (\<lambda>p. p\<lparr>poll_revents := 0\<rparr>) ps);
         (d, s2) \<leftarrow> poll_del E epfd ps s1;
         Some (Some (if d = -1 then -1 else ret, ps1), s2) }
   }"

definition poll ::
  "nat \<Rightarrow> (nat \<Rightarrow> ('m, 'l, 'k) st \<Rightarrow> ('m, 'l, 'k) st) \<Rightarrow> ('m, 'l, 'k) ext \<Rightarrow> mode \<Rightarrow> pollfd list
    \<Rightarrow> int \<Rightarrow> ('m, 'l, 'k) st \<Rightarrow> ((int \<times> pollfd list) option \<times> ('m, 'l, 'k) st) option" where
  "poll rounds env E md ps timeout s = do {
     (epfd, s1) \<leftarrow> poll_descriptor s;
     if epfd = -1 then Some (Some (-1, ps), s1)
     else do {
       (r, s2) \<leftarrow> poll_add E epfd 0 ps s1;
       if r = -1 then Some (Some (-1, ps), s2)
       else poll_wait rounds env E md epfd ps timeout s2 }
   }"

text \<open>\<open>struct timespec\<close>; the computation of the timeout is in \<open>long\<close>, the result an \<open>int\<close>.\<close>

record timespec =
  tv_sec :: int
  tv_nsec :: int

definition ppoll_timeout :: "timespec option \<Rightarrow> int option" where
  "ppoll_timeout tmo = (case tmo of
     None \<Rightarrow> Some (-1)
   | Some t \<Rightarrow>
       let sec = tv_sec t * 1000;
           ms = sec + sgn (tv_nsec t) * (\<bar>tv_nsec t\<bar> div 1000000)
       in if - (2 ^ 63) \<le> sec \<and> sec < 2 ^ 63 \<and> - (2 ^ 63) \<le> ms \<and> ms < 2 ^ 63
          then Some (sint (word_of_int ms :: 32 word)) else None)"

definition ppoll ::
  "nat \<Rightarrow> (nat \<Rightarrow> ('m, 'l, 'k) st \<Rightarrow> ('m, 'l, 'k) st) \<Rightarrow> ('m, 'l, 'k) ext \<Rightarrow> mode \<Rightarrow> pollfd list
    \<Rightarrow> timespec option \<Rightarrow> ('m, 'l, 'k) st
    \<Rightarrow> ((int \<times> pollfd list) option \<times> ('m, 'l, 'k) st) option" where
  "ppoll rounds env E md ps tmo s = do {
     timeout \<leftarrow> ppoll_timeout tmo;
     poll rounds env E md ps timeout s }"

end
