(* ===== verification/Ownership.thy ===== *)
theory Ownership
  imports Event
begin

text \<open>
  Who holds a connection.  A connection is referenced by the active descriptors of the two
  processes; its state says how many there are: one while it is offered, two while it is
  open, one after the first close.  \<open>owned\<close> states that for a process \<open>s\<close> and the descriptors
  \<open>gs\<close> of its peer, together with well-formed memory.  Every operation of the API keeps it,
  and under it no operation follows a dangling pointer; both are stated at once with
  \<open>outcome\<close>.
\<close>

section \<open>Outcomes\<close>

text \<open>\<open>m\<close> is defined if \<open>V\<close> holds, and what it returns satisfies \<open>Q\<close>.\<close>

definition outcome :: "bool \<Rightarrow> 'a option \<Rightarrow> ('a \<Rightarrow> bool) \<Rightarrow> bool" where
  "outcome V m Q \<longleftrightarrow> (case m of None \<Rightarrow> \<not> V | Some x \<Rightarrow> Q x)"

named_theorems outcome_intros \<open>rules that split an outcome along the code\<close>

lemma outcome_Some [simp]: "outcome V (Some x) Q \<longleftrightarrow> Q x"
  by (simp add: outcome_def)

lemma outcome_None [simp]: "outcome V None Q \<longleftrightarrow> \<not> V"
  by (simp add: outcome_def)

lemma outcome_bind:
  "outcome V m P \<Longrightarrow> (\<And>x. P x \<Longrightarrow> outcome V (f x) Q) \<Longrightarrow> outcome V (m \<bind> f) Q"
  by (cases m) (auto simp: outcome_def)

lemma outcome_mono: "outcome V m P \<Longrightarrow> (\<And>x. P x \<Longrightarrow> Q x) \<Longrightarrow> (W \<Longrightarrow> V) \<Longrightarrow> outcome W m Q"
  by (cases m) (auto simp: outcome_def)

lemma outcome_returns: "outcome V m Q \<Longrightarrow> V \<Longrightarrow> \<exists>x. m = Some x \<and> Q x"
  by (cases m) (auto simp: outcome_def)

lemma outcome_result: "outcome V m Q \<Longrightarrow> m = Some x \<Longrightarrow> Q x"
  by (simp add: outcome_def)

lemma outcomeI: "(V \<Longrightarrow> m \<noteq> None) \<Longrightarrow> (\<And>x. m = Some x \<Longrightarrow> Q x) \<Longrightarrow> outcome V m Q"
  by (cases m) auto

lemma outcome_fail [simp]: "outcome V (fail e s) Q \<longleftrightarrow> Q (-1, s\<lparr>errno := e\<rparr>)"
  by (simp add: fail_def)

section \<open>Counting references\<close>

definition hits :: "ptr \<Rightarrow> fd \<Rightarrow> bool" where
  "hits p f \<longleftrightarrow> fd_active f \<and> fd_pConn f = p"

definition refs :: "ptr \<Rightarrow> fd list \<Rightarrow> nat" where
  "refs p fs = length (filter (hits p) fs)"

lemma refs_append [simp]: "refs p (fs @ gs) = refs p fs + refs p gs"
  by (simp add: refs_def)

lemma refs_update:
  "i < length fs \<Longrightarrow>
   refs p (fs[i := f]) + of_bool (hits p (fs ! i)) = refs p fs + of_bool (hits p f)"
  unfolding refs_def by (rule count_update)

lemma refs_zero: "refs p fs = 0 \<longleftrightarrow> (\<forall>f \<in> set fs. \<not> hits p f)"
  by (auto simp: refs_def filter_empty_conv)

lemma refs_pos: "f \<in> set fs \<Longrightarrow> hits p f \<Longrightarrow> 0 < refs p fs"
  using refs_zero [of p fs] by auto

section \<open>Descriptors and their connections\<close>

text \<open>What the state of an active descriptor says about its connection.\<close>

fun fits :: "socketState \<Rightarrow> 'l connection \<Rightarrow> bool" where
  "fits s_listen c \<longleftrightarrow> connState c = c_listen \<and> pAssociatedIface c = NULL"
| "fits s_connecting c \<longleftrightarrow> pAssociatedIface c \<noteq> NULL"
| "fits s_open c \<longleftrightarrow> (connState c = c_open \<or> connState c = c_close) \<and> pAssociatedIface c \<noteq> NULL"
| "fits s_close c \<longleftrightarrow> connState c = c_close \<and> pAssociatedIface c \<noteq> NULL"
| "fits _ c \<longleftrightarrow> False"

definition fd_ok :: "('m, 'l, 'k) st \<Rightarrow> fd \<Rightarrow> bool" where
  "fd_ok s f \<longleftrightarrow> fd_active f \<longrightarrow>
     (if fstate f = s_created \<or> fstate f = s_bound then fd_pConn f = NULL
      else \<exists>c. conns s (fd_pConn f) = Some c \<and> fits (fstate f) c)"

text \<open>How many descriptors reference a connection.\<close>

definition expected :: "'l connection option \<Rightarrow> nat" where
  "expected x = (case x of
     None \<Rightarrow> 0
   | Some c \<Rightarrow> (case connState c of
        c_create \<Rightarrow> 1
      | c_open \<Rightarrow> 2
      | c_listen \<Rightarrow> 1
      | c_close \<Rightarrow> (if pAssociatedIface c = NULL then 0 else 1)))"

definition owned :: "('m, 'l, 'k) ext \<Rightarrow> ('m, 'l, 'k) st \<Rightarrow> fd list \<Rightarrow> bool" where
  "owned E s gs \<longleftrightarrow> mem_wf E s
     \<and> (\<forall>f \<in> set (fds s @ gs). fd_ok s f)
     \<and> (\<forall>p. p \<noteq> NULL \<longrightarrow> refs p (fds s @ gs) = expected (conns s p))"

lemma ownedD:
  assumes "owned E s gs"
  shows "mem_wf E s" and "f \<in> set (fds s) \<Longrightarrow> fd_ok s f" and "f \<in> set gs \<Longrightarrow> fd_ok s f"
    and "p \<noteq> NULL \<Longrightarrow> refs p (fds s) + refs p gs = expected (conns s p)"
  using assms by (auto simp: owned_def)

lemma ownedI:
  assumes "mem_wf E s" and "\<And>f. f \<in> set (fds s) \<Longrightarrow> fd_ok s f" and "\<And>f. f \<in> set gs \<Longrightarrow> fd_ok s f"
    and "\<And>p. p \<noteq> NULL \<Longrightarrow> refs p (fds s) + refs p gs = expected (conns s p)"
  shows "owned E s gs"
  using assms by (auto simp: owned_def)

text \<open>The numbers of the descriptors, the listeners and the interface table of one process.\<close>

definition own_ok :: "('m, 'l, 'k) st \<Rightarrow> bool" where
  "own_ok s \<longleftrightarrow> table_ok s \<and> cur_ctx s = NULL \<and> length (fds s) = MAX_FDS
     \<and> unique_keys fd_active num (fds s) \<and> keys_below fd_active num (currentMaxFd s) (fds s)
     \<and> (\<forall>p \<in> set (pollfds s). length (lfds p) = MAX_FDS_LISTEN
          \<and> (\<forall>l \<in> set (lfds p). lfd_active l \<longrightarrow> lfd_fd l < MAX_FDS))"

text \<open>
  What an operation of one process guarantees to the other: the invariant, and that no
  interface disappears.
\<close>

definition kept :: "('m, 'l, 'k) ext \<Rightarrow> ('m, 'l, 'k) st \<Rightarrow> fd list \<Rightarrow> ('m, 'l, 'k) st \<Rightarrow> bool" where
  "kept E s gs s' \<longleftrightarrow> owned E s' gs \<and> own_ok s' \<and> dom (ifaces s) \<subseteq> dom (ifaces s')"

lemma keptD:
  assumes "kept E s gs s'"
  shows "owned E s' gs" and "own_ok s'" and "dom (ifaces s) \<subseteq> dom (ifaces s')"
  using assms by (simp_all add: kept_def)

lemma kept_refl: "owned E s gs \<Longrightarrow> own_ok s \<Longrightarrow> kept E s gs s"
  by (simp add: kept_def)

lemma kept_trans: "kept E s gs s' \<Longrightarrow> kept E s' gs s'' \<Longrightarrow> kept E s gs s''"
  by (auto simp: kept_def)

lemma fd_ok_cong: "conns s (fd_pConn f) = conns t (fd_pConn f) \<Longrightarrow> fd_ok s f = fd_ok t f"
  by (simp add: fd_ok_def)

lemma owned_cong:
  assumes "heap s = heap t" and "ifaces s = ifaces t" and "conns s = conns t"
    and "bufs s = bufs t" and "fds s = fds t"
  shows "owned E s gs = owned E t gs"
  using assms mem_wf_cong [OF assms(1-4)] by (simp add: owned_def fd_ok_def)

text \<open>Assigning to static variables that neither condition reads.\<close>

lemma owned_frame [simp]:
  "owned E (s\<lparr>errno := e\<rparr>) gs = owned E s gs"
  "owned E (s\<lparr>currentMaxFd := n\<rparr>) gs = owned E s gs"
  "owned E (s\<lparr>randomPort := n\<rparr>) gs = owned E s gs"
  "owned E (s\<lparr>kern := k\<rparr>) gs = owned E s gs"
  "owned E (s\<lparr>pollfds := ps\<rparr>) gs = owned E s gs"
  "owned E (s\<lparr>randomPollFd := n\<rparr>) gs = owned E s gs"
  "owned E (s\<lparr>poll_epollfd := n\<rparr>) gs = owned E s gs"
  "owned E (s\<lparr>cur_ctx := p\<rparr>) gs = owned E s gs"
  by (rule owned_cong; simp)+

lemma own_ok_frame [simp]:
  "own_ok (s\<lparr>errno := e\<rparr>) = own_ok s"
  "own_ok (s\<lparr>randomPort := n\<rparr>) = own_ok s"
  "own_ok (s\<lparr>kern := k\<rparr>) = own_ok s"
  "own_ok (s\<lparr>randomPollFd := n\<rparr>) = own_ok s"
  "own_ok (s\<lparr>poll_epollfd := n\<rparr>) = own_ok s"
  by (simp_all add: own_ok_def table_ok_def)

lemma kept_frame [simp]:
  "kept E s gs (t\<lparr>errno := e\<rparr>) = kept E s gs t"
  "kept E s gs (t\<lparr>randomPort := n\<rparr>) = kept E s gs t"
  "kept E s gs (t\<lparr>kern := k\<rparr>) = kept E s gs t"
  by (simp_all add: kept_def)

section \<open>Updates of the table\<close>

lemma fd_ok_inactive [simp]: "\<not> fd_active f \<Longrightarrow> fd_ok s f"
  by (simp add: fd_ok_def)

lemma nth_fd_ok: "owned E s gs \<Longrightarrow> i < length (fds s) \<Longrightarrow> fd_ok s (fds s ! i)"
  by (simp add: ownedD(2))

text \<open>A descriptor changes, its connection does not.\<close>

lemma owned_set_fd:
  assumes own: "owned E s gs" and i: "i < length (fds s)"
    and ok: "fd_ok s (g (fds s ! i))"
    and same: "\<And>p. p \<noteq> NULL \<Longrightarrow> hits p (g (fds s ! i)) = hits p (fds s ! i)"
  shows "owned E (set_fd i g s) gs"
proof (rule ownedI)
  let ?t = "set_fd i g s"
  have ok_t: "fd_ok ?t f = fd_ok s f" for f
    by (rule fd_ok_cong) simp
  show "mem_wf E ?t"
    using ownedD(1) [OF own] mem_wf_cong [of ?t s E] by simp
  show "fd_ok ?t f" if "f \<in> set (fds ?t)" for f
    using that ok ownedD(2) [OF own] subsetD [OF set_update_subset_insert] unfolding ok_t
    by fastforce
  show "fd_ok ?t f" if "f \<in> set gs" for f
    using that ownedD(3) [OF own] unfolding ok_t by simp
  show "refs p (fds ?t) + refs p gs = expected (conns ?t p)" if "p \<noteq> NULL" for p
    using ownedD(4) [OF own that] refs_update [OF i, of p "g (fds s ! i)"] same [OF that] by simp
qed

text \<open>
  A descriptor takes or drops a reference to the connection \<open>p\<close>, and the connection changes
  with it.
\<close>

lemma owned_step:
  assumes own: "owned E s gs" and wf: "mem_wf E s'" and i: "i < length (fds s)"
    and fds': "fds s' = (fds s)[i := f']" and conns': "\<And>q. q \<noteq> p \<Longrightarrow> conns s' q = conns s q"
    and p: "p \<noteq> NULL" and ok: "fd_ok s' f'"
    and same: "\<And>q. q \<noteq> NULL \<Longrightarrow> q \<noteq> p \<Longrightarrow> hits q f' = hits q (fds s ! i)"
    and count: "expected (conns s' p) + of_bool (hits p (fds s ! i)) =
      expected (conns s p) + of_bool (hits p f')"
    and others: "\<And>g. fd_ok s g \<Longrightarrow> hits p g \<Longrightarrow>
      of_bool (hits p (fds s ! i)) < expected (conns s p) \<Longrightarrow> fd_ok s' g"
  shows "owned E s' gs"
proof (rule ownedI)
  let ?f = "fds s ! i"
  have sum: "refs p (fds s) + refs p gs = expected (conns s p)"
    by (rule ownedD(4) [OF own p])
  define d where "d = ?f\<lparr>fd_active := False\<rparr>"
  have d: "refs p ((fds s)[i := d]) + of_bool (hits p ?f) = refs p (fds s)"
    using refs_update [OF i, of p d] by (simp add: d_def hits_def)
  have keep: "fd_ok s' g" if g: "fd_ok s g" and "hits p g \<Longrightarrow> 0 < refs p ((fds s)[i := d]) + refs p gs"
    for g
  proof (cases "hits p g")
    case True
    then have "0 < refs p ((fds s)[i := d]) + refs p gs" by (rule that(2))
    with sum d have "of_bool (hits p ?f) < expected (conns s p)" by linarith
    with others [OF g True] show ?thesis .
  next
    case False
    show ?thesis
    proof (cases "fd_active g")
      case True
      with False have "fd_pConn g \<noteq> p" by (simp add: hits_def)
      then have "fd_ok s' g = fd_ok s g"
        by (intro fd_ok_cong conns')
      with g show ?thesis by simp
    qed simp
  qed
  show "mem_wf E s'" by (rule wf)
  show "fd_ok s' g" if "g \<in> set gs" for g
    by (rule keep) (use ownedD(3) [OF own that] refs_pos [OF that] in auto)
  show "fd_ok s' g" if g: "g \<in> set (fds s')" for g
  proof -
    from g obtain j where j: "j < length (fds s)" "g = (fds s)[i := f'] ! j"
      unfolding fds' by (auto simp: in_set_conv_nth)
    show ?thesis
    proof (cases "j = i")
      case True
      with j i ok show ?thesis by simp
    next
      case False
      with j have "g = (fds s)[i := d] ! j" and gj: "g = fds s ! j" by simp_all
      with j have "g \<in> set ((fds s)[i := d])" by (simp add: in_set_conv_nth) metis
      then show ?thesis
        by (intro keep) (use gj j nth_fd_ok [OF own] refs_pos in auto)
    qed
  qed
  show "refs q (fds s') + refs q gs = expected (conns s' q)" if q: "q \<noteq> NULL" for q
  proof (cases "q = p")
    case True
    with sum count refs_update [OF i, of p f'] show ?thesis
      by (simp add: fds')
  next
    case False
    with q have "refs q (fds s') = refs q (fds s)"
      using refs_update [OF i, of q f'] same by (simp add: fds')
    with ownedD(4) [OF own q] conns' [OF False] show ?thesis by simp
  qed
qed

lemma expected_simps [simp]:
  "expected None = 0"
  "connState c = c_create \<Longrightarrow> expected (Some c) = 1"
  "connState c = c_open \<Longrightarrow> expected (Some c) = 2"
  "connState c = c_listen \<Longrightarrow> expected (Some c) = 1"
  "connState c = c_close \<Longrightarrow> pAssociatedIface c = NULL \<Longrightarrow> expected (Some c) = 0"
  "connState c = c_close \<Longrightarrow> pAssociatedIface c \<noteq> NULL \<Longrightarrow> expected (Some c) = 1"
  by (simp_all add: expected_def)

text \<open>A descriptor without a connection gets a new one.\<close>

lemma owned_acquire:
  assumes own: "owned E s gs" and wf: "mem_wf E s'" and i: "i < length (fds s)"
    and fds': "fds s' = (fds s)[i := f']" and conns': "\<And>q. q \<noteq> p \<Longrightarrow> conns s' q = conns s q"
    and p: "p \<noteq> NULL" "conns s p = None" and old: "fd_pConn (fds s ! i) = NULL"
    and new: "fd_active f'" "fd_pConn f' = p" "expected (conns s' p) = 1" "fd_ok s' f'"
  shows "owned E s' gs"
proof (rule owned_step [OF own wf i fds' conns' p(1) new(4)])
  have no: "\<not> hits p (fds s ! i)"
    using p old by (simp add: hits_def)
  then show "expected (conns s' p) + of_bool (hits p (fds s ! i)) =
      expected (conns s p) + of_bool (hits p f')"
    using p new by (simp add: hits_def)
  show "hits q f' = hits q (fds s ! i)" if "q \<noteq> NULL" "q \<noteq> p" for q
    using that old new(2) by (simp add: hits_def)
  show "fd_ok s' g" if "of_bool (hits p (fds s ! i)) < expected (conns s p)" for g
    using that p(2) by simp
qed

text \<open>
  A descriptor drops its reference: the connection goes with the last one, and an open
  connection becomes a closed one for the other holder.
\<close>

lemma owned_release:
  assumes own: "owned E s gs" and wf: "mem_wf E s'" and i: "i < length (fds s)"
    and fds': "fds s' = (fds s)[i := f']" and conns': "\<And>q. q \<noteq> p \<Longrightarrow> conns s' q = conns s q"
    and p: "p \<noteq> NULL" "conns s p = Some c" and old: "hits p (fds s ! i)" and new: "\<not> fd_active f'"
    and count: "expected (conns s' p) + 1 = expected (Some c)"
    and mark: "connState c = c_open \<Longrightarrow> \<exists>c'. conns s' p = Some c' \<and> connState c' = c_close
      \<and> pAssociatedIface c' = pAssociatedIface c"
  shows "owned E s' gs"
proof (rule owned_step [OF own wf i fds' conns' p(1)])
  show "fd_ok s' f'"
    using new by simp
  show "expected (conns s' p) + of_bool (hits p (fds s ! i)) =
      expected (conns s p) + of_bool (hits p f')"
    using p(2) old new count by (simp add: hits_def)
  show "hits q f' = hits q (fds s ! i)" if "q \<noteq> NULL" "q \<noteq> p" for q
    using that old new by (simp add: hits_def)
  show "fd_ok s' g" if g: "fd_ok s g" "hits p g" and more: "of_bool (hits p (fds s ! i)) < expected (conns s p)"
    for g
  proof -
    have "connState c = c_open"
      using more p(2) old by (cases "connState c") (auto simp: expected_def split: if_splits)
    with mark obtain c' where c': "conns s' p = Some c'" "connState c' = c_close"
        "pAssociatedIface c' = pAssociatedIface c"
      by blast
    have "fstate g \<noteq> s_created \<and> fstate g \<noteq> s_bound \<and> fits (fstate g) c"
      using g p by (auto simp: fd_ok_def hits_def split: if_splits)
    then have "fits (fstate g) c'"
      using c' \<open>connState c = c_open\<close> by (cases "fstate g") simp_all
    with c'(1) g show ?thesis
      by (auto simp: fd_ok_def hits_def)
  qed
qed

text \<open>Connections change without changing who may hold them.\<close>

definition skeleton :: "'l connection \<Rightarrow> connectionState \<times> ptr" where
  "skeleton c = (connState c, pAssociatedIface c)"

lemma fits_skeleton: "skeleton c = skeleton d \<Longrightarrow> fits st c = fits st d"
  by (cases st) (simp_all add: skeleton_def)

lemma owned_conns:
  assumes own: "owned E s gs" and wf: "mem_wf E s'" and "fds s' = fds s"
    and sk: "\<And>p. map_option skeleton (conns s' p) = map_option skeleton (conns s p)"
  shows "owned E s' gs"
proof (rule ownedI)
  show "mem_wf E s'" by (rule wf)
  have ok: "fd_ok s' f = fd_ok s f" for f
  proof (cases "conns s (fd_pConn f)")
    case None
    with sk [of "fd_pConn f"] show ?thesis by (intro fd_ok_cong) simp
  next
    case (Some c)
    with sk [of "fd_pConn f"] obtain d where "conns s' (fd_pConn f) = Some d"
      and "skeleton d = skeleton c"
      by auto
    with Some fits_skeleton [of d c] show ?thesis by (simp add: fd_ok_def)
  qed
  show "fd_ok s' f" if "f \<in> set (fds s')" for f
    using that ownedD(2) [OF own] assms(3) ok by simp
  show "fd_ok s' f" if "f \<in> set gs" for f
    using that ownedD(3) [OF own] ok by simp
  have "expected (conns s' p) = expected (conns s p)" for p
    using sk [of p]
    by (cases "conns s p"; cases "conns s' p")
      (auto simp: expected_def skeleton_def split: connectionState.splits)
  then show "refs p (fds s') + refs p gs = expected (conns s' p)" if "p \<noteq> NULL" for p
    using ownedD(4) [OF own that] assms(3) by simp
qed

section \<open>The tables of one process\<close>

lemma own_okD:
  assumes "own_ok s"
  shows "table_ok s" and "cur_ctx s = NULL" and "length (fds s) = MAX_FDS"
    and "unique_keys fd_active num (fds s)" and "keys_below fd_active num (currentMaxFd s) (fds s)"
    and "p \<in> set (pollfds s) \<Longrightarrow> length (lfds p) = MAX_FDS_LISTEN"
    and "p \<in> set (pollfds s) \<Longrightarrow> l \<in> set (lfds p) \<Longrightarrow> lfd_active l \<Longrightarrow> lfd_fd l < MAX_FDS"
  using assms by (auto simp: own_ok_def)

text \<open>An operation on shared memory only.\<close>

lemma own_ok_mem:
  assumes "own_ok s" and "interfaces s' = interfaces s" and "dom (ifaces s) \<subseteq> dom (ifaces s')"
    and "fds s' = fds s" and "currentMaxFd s' = currentMaxFd s" and "pollfds s' = pollfds s"
    and "cur_ctx s' = NULL"
  shows "own_ok s'"
proof -
  have "table_ok s'"
    using assms(1,2) subsetD [OF assms(3)] by (simp add: own_ok_def table_ok_def)
  with assms show ?thesis by (simp add: own_ok_def)
qed

lemma own_ok_set_fd:
  assumes own: "own_ok s" and i: "i < length (fds s)"
    and g: "fd_active (g (fds s ! i)) \<longrightarrow> fd_active (fds s ! i) \<and> num (g (fds s ! i)) = num (fds s ! i)"
  shows "own_ok (set_fd i g s)"
  using own fd_table.update_unique [OF own_okD(4) [OF own] g]
    fd_table.update_below [OF own_okD(5) [OF own] i g]
  by (auto simp: own_ok_def table_ok_def)

text \<open>The common case: the slot keeps its number and stays as active as it was.\<close>

lemma own_ok_set_fd_same:
  assumes "own_ok s" and "i < length (fds s)"
    and "fd_active (g (fds s ! i)) = fd_active (fds s ! i)" and "num (g (fds s ! i)) = num (fds s ! i)"
  shows "own_ok (set_fd i g s)"
  by (rule own_ok_set_fd) (use assms in simp_all)

text \<open>A new descriptor takes a free slot and the next number.\<close>

definition new_fd :: "nat \<Rightarrow> (fd \<Rightarrow> fd) \<Rightarrow> ('m, 'l, 'k) st \<Rightarrow> ('m, 'l, 'k) st" where
  "new_fd i g s = set_fd i (\<lambda>f. g (f\<lparr>fd_active := True, num := currentMaxFd s\<rparr>))
     (s\<lparr>currentMaxFd := currentMaxFd s + 1\<rparr>)"

lemma getEmptyFd_cases:
  obtains "getEmptyFd s = (None, s)" and "\<forall>f \<in> set (fds s). fd_active f"
  | i where "getEmptyFd s = (Some i, set_fd i (\<lambda>f. f\<lparr>fd_active := True\<rparr>) s)"
      and "i < length (fds s)" and "\<not> fd_active (fds s ! i)"
proof (cases "first_slot (\<lambda>f. \<not> fd_active f) (fds s)")
  case None
  with fd_table.alloc_None [of "fds s"] that(1) show thesis
    by (simp add: getEmptyFd_def)
next
  case (Some i)
  with first_slotD [OF Some] that(2) show thesis
    by (simp add: getEmptyFd_def)
qed

lemma own_ok_new_fd:
  assumes own: "own_ok s" and g: "\<And>f. fd_active (g f) = fd_active f" "\<And>f. num (g f) = num f"
  shows "own_ok (new_fd i g s)"
  using own fd_table.alloc_unique [OF own_okD(4,5) [OF own],
      of "g ((fds s ! i)\<lparr>fd_active := True, num := currentMaxFd s\<rparr>)" i]
  by (auto simp: own_ok_def table_ok_def new_fd_def set_fd_def g)

lemma getFdByNum_iff:
  "own_ok s \<Longrightarrow> getFdByNum n s = Some i \<longleftrightarrow>
     i < length (fds s) \<and> fd_active (fds s ! i) \<and> num (fds s ! i) = n"
  unfolding getFdByNum_def by (rule fd_table.lookup_iff) (rule own_okD(4))

lemma getFdByNumD:
  assumes "getFdByNum n s = Some i"
  shows "i < length (fds s)" and "fd_active (fds s ! i)" and "num (fds s ! i) = n"
  using first_slotD [OF assms [unfolded getFdByNum_def]] by simp_all

text \<open>The descriptor just allocated is the one its number finds.\<close>

lemma getFdByNum_new_fd:
  assumes own: "own_ok s" and g: "\<And>f. fd_active (g f) = fd_active f" "\<And>f. num (g f) = num f"
    and i: "i < length (fds s)"
  shows "getFdByNum (currentMaxFd s) (new_fd i g s) = Some i"
  unfolding getFdByNum_iff [OF own_ok_new_fd [OF own g]]
  using i by (simp add: new_fd_def set_fd_def g)

text \<open>The connection of a descriptor, by its state.\<close>

lemma fd_conn:
  assumes own: "owned E s gs" and i: "getFdByNum n s = Some i"
    and st: "fstate (fds s ! i) \<in> {s_listen, s_connecting, s_open, s_close}"
  obtains c where "conns s (fd_pConn (fds s ! i)) = Some c" and "fits (fstate (fds s ! i)) c"
    and "fd_pConn (fds s ! i) \<noteq> NULL"
proof -
  have "fd_ok s (fds s ! i)"
    using own getFdByNumD(1) [OF i] by (rule nth_fd_ok)
  then obtain c where c: "conns s (fd_pConn (fds s ! i)) = Some c" "fits (fstate (fds s ! i)) c"
    using getFdByNumD(2) [OF i] st by (auto simp: fd_ok_def)
  then show thesis
    using that mem_wf_conn(3) [OF ownedD(1) [OF own] c(1)] by blast
qed

text \<open>Assigning \<open>fstate\<close> and other fields of a descriptor in place.\<close>

lemma kept_set_fd:
  assumes "owned E s gs" and "own_ok s" and "i < length (fds s)" and "fd_ok s (g (fds s ! i))"
    and "fd_active (g (fds s ! i)) = fd_active (fds s ! i)" and "num (g (fds s ! i)) = num (fds s ! i)"
    and "fd_pConn (g (fds s ! i)) = fd_pConn (fds s ! i)"
  shows "kept E s gs (set_fd i g s)"
proof -
  have "owned E (set_fd i g s) gs"
    by (rule owned_set_fd) (use assms in \<open>auto simp: hits_def\<close>)
  moreover have "own_ok (set_fd i g s)"
    by (rule own_ok_set_fd_same) (use assms in auto)
  ultimately show ?thesis
    by (simp add: kept_def)
qed

end
