(* ===== verification/Calls.thy ===== *)
theory Calls
  imports Ownership
begin

text \<open>
  One lemma per call of the socket API: on a state that \<open>owned\<close> and \<open>own_ok\<close> describe, the
  call is defined whenever its arguments are valid, and it leaves such a state behind.
\<close>

section \<open>Creating and naming sockets\<close>

lemma owned_new_fd:
  assumes own: "owned E s gs" and i: "i < length (fds s)" "\<not> fd_active (fds s ! i)"
    and g: "\<And>f. fd_pConn (g f) = NULL" "\<And>f. fstate (g f) = s_created"
  shows "owned E (new_fd i g s) gs"
proof -
  have "owned E (s\<lparr>currentMaxFd := currentMaxFd s + 1\<rparr>) gs"
    using own by simp
  then show ?thesis
    unfolding new_fd_def by (rule owned_set_fd) (use i g in \<open>auto simp: hits_def fd_ok_def\<close>)
qed

lemma new_fd_eq:
  assumes "i < length (fds s)"
    and "\<And>f. h (f\<lparr>fd_active := True\<rparr>) = g (f\<lparr>fd_active := True, num := currentMaxFd s\<rparr>)"
  shows "set_fd i h ((set_fd i (\<lambda>f. f\<lparr>fd_active := True\<rparr>) s)\<lparr>currentMaxFd := currentMaxFd s + 1\<rparr>)
    = new_fd i g s"
  using assms by (simp add: set_fd_def new_fd_def)

lemma socket_outcome:
  assumes own: "owned E s gs" and ok: "own_ok s"
  shows "outcome True (socket domain type protocol s) (\<lambda>(r, s'). kept E s gs s')"
proof (cases rule: getEmptyFd_cases [of s])
  case 1
  then show ?thesis
    using kept_refl [OF assms] by (simp add: socket_def)
next
  case (2 i)
  let ?g = "\<lambda>f. f\<lparr>fstate := s_created, fd_pConn := NULL, flagNonblock := type AND SOCK_NONBLOCK\<rparr>"
  have "owned E (new_fd i ?g s) gs"
    by (rule owned_new_fd [OF own 2(2,3)]) simp_all
  moreover have "own_ok (new_fd i ?g s)"
    by (rule own_ok_new_fd [OF ok]) simp_all
  moreover have "ifaces (new_fd i ?g s) = ifaces s"
    by (simp add: new_fd_def)
  ultimately have "kept E s gs (new_fd i ?g s)"
    by (simp add: kept_def)
  then show ?thesis
    using kept_refl [OF assms] 2(1)
      new_fd_eq [OF 2(2), of "\<lambda>f. f\<lparr>num := currentMaxFd s, fstate := s_created, fd_pConn := NULL,
        flagNonblock := type AND SOCK_NONBLOCK\<rparr>" ?g]
    by (simp add: socket_def Let_def)
qed

lemma bind_outcome:
  assumes own: "owned E s gs" and ok: "own_ok s"
  shows "outcome (addr \<noteq> None) (bind sockfd addr s) (\<lambda>(r, s'). kept E s gs s')"
proof (cases "getFdByNum sockfd s")
  case None
  then show ?thesis using kept_refl [OF assms] by (simp add: bind_def)
next
  case (Some i)
  note i = getFdByNumD [OF Some]
  have old: "fd_ok s (fds s ! i)"
    by (rule nth_fd_ok [OF own i(1)])
  have "kept E s gs (set_fd i (\<lambda>f. f\<lparr>listenPort := PORT a, listenAddress := SOCKADDR a,
      fstate := s_bound\<rparr>) s)" if "fstate (fds s ! i) = s_created" for a
    by (rule kept_set_fd [OF own ok i(1)]) (use that old i(2) in \<open>simp_all add: fd_ok_def\<close>)
  with Some show ?thesis
    using kept_refl [OF assms] by (cases addr) (simp_all add: bind_def)
qed

lemma createNewListenerConnection_wf:
  assumes wf: "mem_wf E s" and ctx: "cur_ctx s = NULL"
    and op: "createNewListenerConnection E md s = Some (p, s')"
  obtains c m' where "s' = s\<lparr>heap := m', conns := (conns s)(p \<mapsto> c)\<rparr>" and "mem_wf E s'"
    and "p \<noteq> NULL" and "conns s p = None" and "connState c = c_listen" and "pAssociatedIface c = NULL"
proof -
  obtain q m' where m: "malloc E NULL sizeof_connection (heap s) = (q, m')"
    by fastforce
  let ?c = "set_own_events md 0 (set_remote_events md 0 (set_own_lt_events md 0
    (set_remote_lt_events md 0 ((set_remote_port md (-1) (set_own_port md (-1) blank_connection))
      \<lparr>connState := c_listen, pAssociatedIface := NULL\<rparr>))))"
  from op m ctx have q: "q = p" "p \<noteq> NULL" and s': "s' = s\<lparr>heap := m', conns := (conns s)(p \<mapsto> ?c)\<rparr>"
    by (auto simp: createNewListenerConnection_def malloc_block_def put_conn_def Let_def
        split: if_splits)
  note fresh = mem_wf_fresh [OF wf m [unfolded q(1)] q(2)]
  have bufs: "buf1 ?c = None" "buf2 ?c = None"
    by (simp_all add: blank_connection_def view_defs split: mode.splits)
  have "mem_wf E (put_conn p ?c (s\<lparr>heap := m'\<rparr>))"
  proof (rule mem_wf_new_conn)
    show "mem_wf E (s\<lparr>heap := m'\<rparr>)"
      by (rule mem_wf_malloc [OF wf m])
    show "conn_ok E (s\<lparr>heap := m'\<rparr>) p ?c"
      using bufs fresh(3) by (simp add: conn_ok_def)
    show "conn_bufs E ?c = []"
      by (simp add: conn_bufs_def)
  qed (use fresh q in simp_all)
  then have "mem_wf E s'"
    by (simp add: s' put_conn_def)
  then show thesis
    using s' fresh(1) q(2) by (intro that [of ?c m']) simp_all
qed

lemma createNewListenerConnection_defined:
  "never_full E \<Longrightarrow> createNewListenerConnection E md s \<noteq> None"
  by (auto simp: createNewListenerConnection_def malloc_block_def never_full_def Let_def
      split: prod.splits)
    (metis fst_conv gr_implies_not0)

lemma listen_outcome:
  assumes own: "owned E s gs" and ok: "own_ok s"
  shows "outcome (never_full E) (listen E md sockfd backlog s) (\<lambda>(r, s'). kept E s gs s')"
proof (cases "getFdByNum sockfd s")
  case None
  then show ?thesis using kept_refl [OF assms] by (simp add: listen_def)
next
  case (Some i)
  note i = getFdByNumD [OF Some]
  have old: "fd_ok s (fds s ! i)"
    by (rule nth_fd_ok [OF own i(1)])
  show ?thesis
  proof (cases "fstate (fds s ! i) = s_bound")
    case False
    with Some show ?thesis using kept_refl [OF assms] by (simp add: listen_def)
  next
    case True
    have pn: "fd_pConn (fds s ! i) = NULL"
      using old i(2) True by (simp add: fd_ok_def)
    have "outcome (never_full E) (createNewListenerConnection E md s)
      (\<lambda>(p, s1). kept E s gs (set_fd i (\<lambda>f. f\<lparr>fd_pConn := p, fstate := s_listen\<rparr>) s1))"
    proof (rule outcomeI)
      fix x
      assume op: "createNewListenerConnection E md s = Some x"
      obtain p s1 where x: "x = (p, s1)" by fastforce
      obtain c m' where s1: "s1 = s\<lparr>heap := m', conns := (conns s)(p \<mapsto> c)\<rparr>" and wf: "mem_wf E s1"
        and p: "p \<noteq> NULL" "conns s p = None" and c: "connState c = c_listen" "pAssociatedIface c = NULL"
        using createNewListenerConnection_wf [OF ownedD(1) [OF own] own_okD(2) [OF ok]
            op [unfolded x]] by blast
      let ?g = "\<lambda>f. f\<lparr>fd_pConn := p, fstate := s_listen\<rparr>"
      have "owned E (set_fd i ?g s1) gs"
      proof (rule owned_acquire [OF own _ i(1) _ _ p pn])
        show "mem_wf E (set_fd i ?g s1)"
          using wf by (simp add: set_fd_def)
        show "fds (set_fd i ?g s1) = (fds s)[i := ?g (fds s ! i)]"
          by (simp add: s1)
        show "fd_ok (set_fd i ?g s1) (?g (fds s ! i))"
          using c by (simp add: fd_ok_def s1)
      qed (use c i(2) in \<open>simp_all add: s1\<close>)
      moreover have "own_ok s1"
        by (rule own_ok_mem [OF ok]) (use own_okD(2) [OF ok] in \<open>simp_all add: s1\<close>)
      then have "own_ok (set_fd i ?g s1)"
        by (rule own_ok_set_fd_same) (use i in \<open>simp_all add: s1\<close>)
      ultimately show "case x of (p, s1) \<Rightarrow>
          kept E s gs (set_fd i (\<lambda>f. f\<lparr>fd_pConn := p, fstate := s_listen\<rparr>) s1)"
        by (simp add: kept_def x s1)
    qed (use createNewListenerConnection_defined in blast)
    then show ?thesis
      using Some True by (auto simp: listen_def split_beta intro!: outcome_bind)
  qed
qed

section \<open>Closing\<close>

text \<open>What \<open>closeConnection\<close> does for a descriptor that holds the connection.\<close>

lemma closeConnection_cases:
  assumes wf: "mem_wf E s" and c: "conns s p = Some c"
    and st: "pAssociatedIface c = NULL \<longrightarrow> connState c = c_listen"
  obtains s' where "closeConnection E md p s = Some s'" and "mem_wf E s'"
    and "\<forall>q. q \<noteq> p \<longrightarrow> conns s' q = conns s q" and "fds s' = fds s"
    and "pollfds s' = pollfds s" and "interfaces s' = interfaces s"
    and "currentMaxFd s' = currentMaxFd s"
    and "dom (ifaces s') = dom (ifaces s)" and "cur_ctx s = NULL \<longrightarrow> cur_ctx s' = NULL"
    and "expected (conns s' p) + 1 = expected (Some c)"
    and "connState c \<in> {c_open, c_listen} \<longrightarrow> (\<exists>c'. conns s' p = Some c' \<and> connState c' = c_close
      \<and> pAssociatedIface c' = pAssociatedIface c)"
    and "connState c \<in> {c_create, c_close} \<longrightarrow> conns s' p = None"
    and "bufs s' = bufs s \<and> (\<forall>c'. conns s' p = Some c' \<longrightarrow> buf1 c' = buf1 c \<and> buf2 c' = buf2 c)"
proof (cases "connState c \<in> {c_open, c_listen}")
  case True
  let ?c = "set_remote_events md (SET_EVENT (remote_events md c) EPOLLHUP) (c\<lparr>connState := c_close\<rparr>)"
  have "connState c = c_listen \<longleftrightarrow> pAssociatedIface c = NULL"
    using mem_wf_conn(1) [OF wf c] st unfolding conn_ok_def by presburger
  then have count: "expected (Some ?c) + 1 = expected (Some c)"
    using True by (auto simp: expected_def)
  note mark = closeConnection_mark [OF wf c True, of md]
  show thesis
    by (rule that [OF mark]) (use True count in \<open>auto simp: put_conn_def\<close>)
next
  case False
  then have rm: "connState c \<in> {c_create, c_close}"
    by (cases "connState c") auto
  with st have i: "pAssociatedIface c \<noteq> NULL"
    by auto
  obtain r' where op: "removeConnection E md p s = Some (True,
      s\<lparr>ifaces := (ifaces s)(pAssociatedIface c \<mapsto> r'),
        heap := free E (pAssociatedIface c) p (heap s),
        conns := (conns s)(p := None), cur_ctx := NULL\<rparr>)"
    and wf': "mem_wf E (s\<lparr>ifaces := (ifaces s)(pAssociatedIface c \<mapsto> r'),
        heap := free E (pAssociatedIface c) p (heap s),
        conns := (conns s)(p := None), cur_ctx := NULL\<rparr>)"
    by (rule removeConnection_wf [OF wf c i])
  have "pAssociatedIface c \<in> dom (ifaces s)"
    using mem_wf_conn(1) [OF wf c] i by (simp add: conn_ok_def)
  then have dom: "dom ((ifaces s)(pAssociatedIface c \<mapsto> r')) = dom (ifaces s)"
    by auto
  show thesis
    by (rule that [OF _ wf'])
      (use rm i op dom in \<open>auto simp: closeConnection_remove [OF wf c rm] expected_def\<close>)
qed

text \<open>Closing a descriptor drops its reference and marks its slot as free.\<close>

lemma close_unconnected_kept:
  assumes own: "owned E s gs" and ok: "own_ok s" and i: "i < length (fds s)"
    and p: "fd_pConn (fds s ! i) = NULL"
  shows "kept E s gs (set_fd i (\<lambda>f. f\<lparr>fstate := s_close, fd_active := False\<rparr>) s)" (is "kept E s gs ?t")
proof -
  have "owned E ?t gs"
    by (rule owned_set_fd [OF own i]) (use p in \<open>auto simp: hits_def\<close>)
  moreover have "own_ok ?t"
    by (rule own_ok_set_fd [OF ok i]) simp
  ultimately show ?thesis
    by (simp add: kept_def)
qed

lemma close_connected_kept:
  assumes own: "owned E s gs" and ok: "own_ok s" and i: "i < length (fds s)" "fd_active (fds s ! i)"
    and p: "fd_pConn (fds s ! i) = p" "p \<noteq> NULL"
  obtains s1 where "closeConnection E md p s = Some s1" and "fds s1 = fds s"
    and "kept E s gs (set_fd i (\<lambda>f. f\<lparr>fstate := s_close, fd_active := False\<rparr>) s1)"
proof -
  have "fd_ok s (fds s ! i)"
    by (rule nth_fd_ok [OF own i(1)])
  with i(2) p obtain c where c: "conns s p = Some c" and fits: "fits (fstate (fds s ! i)) c"
    by (auto simp: fd_ok_def split: if_splits)
  have st: "pAssociatedIface c = NULL \<longrightarrow> connState c = c_listen"
    using fits by (cases "fstate (fds s ! i)") auto
  obtain s1 where s1: "closeConnection E md p s = Some s1" "mem_wf E s1"
    "\<forall>q. q \<noteq> p \<longrightarrow> conns s1 q = conns s q" "fds s1 = fds s" "pollfds s1 = pollfds s"
    "interfaces s1 = interfaces s" "currentMaxFd s1 = currentMaxFd s"
    "dom (ifaces s1) = dom (ifaces s)" "cur_ctx s = NULL \<longrightarrow> cur_ctx s1 = NULL"
    "expected (conns s1 p) + 1 = expected (Some c)"
    "connState c \<in> {c_open, c_listen} \<longrightarrow> (\<exists>c'. conns s1 p = Some c' \<and> connState c' = c_close
      \<and> pAssociatedIface c' = pAssociatedIface c)"
    "connState c \<in> {c_create, c_close} \<longrightarrow> conns s1 p = None"
    "bufs s1 = bufs s \<and> (\<forall>c'. conns s1 p = Some c' \<longrightarrow> buf1 c' = buf1 c \<and> buf2 c' = buf2 c)"
    by (rule closeConnection_cases [OF ownedD(1) [OF own] c st, of md])
  let ?t = "set_fd i (\<lambda>f. f\<lparr>fstate := s_close, fd_active := False\<rparr>) s1"
  have "owned E ?t gs"
  proof (rule owned_release [OF own _ i(1) _ _ p(2) c])
    show "mem_wf E ?t"
      using s1(2) by (simp add: set_fd_def)
    show "hits p (fds s ! i)"
      using i(2) p(1) by (simp add: hits_def)
  qed (use s1 in auto)
  moreover have "own_ok s1"
    by (rule own_ok_mem [OF ok]) (use s1 own_okD(2) [OF ok] in auto)
  then have "own_ok ?t"
    by (rule own_ok_set_fd) (use s1 i in auto)
  ultimately have "kept E s gs ?t"
    using s1(8) by (simp add: kept_def)
  with s1(1,4) show thesis by (rule that)
qed

lemma handleSockfdClose_outcome:
  assumes own: "owned E s gs" and ok: "own_ok s"
  shows "outcome True (handleSockfdClose E md sockfd s) (\<lambda>(r, s'). kept E s gs s')"
proof (cases "getFdByNum sockfd s")
  case None
  then show ?thesis using kept_refl [OF assms] by (simp add: handleSockfdClose_def)
next
  case (Some i)
  note i = getFdByNumD [OF Some]
  have twice: "deleteFd i (set_fd i (\<lambda>f. f\<lparr>fstate := s_close\<rparr>) t) =
      set_fd i (\<lambda>f. f\<lparr>fstate := s_close, fd_active := False\<rparr>) t"
    if "i < length (fds t)" for t :: "('m, 'l, 'k) st"
    using that by (simp add: deleteFd_def set_fd_def)
  show ?thesis
  proof (cases "fd_pConn (fds s ! i) = NULL")
    case True
    with Some i(1) close_unconnected_kept [OF assms i(1) True] show ?thesis
      by (simp add: handleSockfdClose_def twice)
  next
    case False
    obtain s1 where "closeConnection E md (fd_pConn (fds s ! i)) s = Some s1" "fds s1 = fds s"
      "kept E s gs (set_fd i (\<lambda>f. f\<lparr>fstate := s_close, fd_active := False\<rparr>) s1)"
      by (rule close_connected_kept [OF assms i(1,2) refl False])
    with Some False i(1) show ?thesis
      by (simp add: handleSockfdClose_def twice)
  qed
qed

lemma own_ok_pollfds:
  assumes "own_ok s"
    and "\<And>p. p \<in> set ps \<Longrightarrow> length (lfds p) = MAX_FDS_LISTEN
      \<and> (\<forall>l \<in> set (lfds p). lfd_active l \<longrightarrow> lfd_fd l < MAX_FDS)"
  shows "own_ok (s\<lparr>pollfds := ps\<rparr>)"
  using assms by (simp add: own_ok_def table_ok_def)

lemma own_ok_set_pfd:
  assumes ok: "own_ok s"
    and g: "\<And>p. lfds (g p) = lfds p"
  shows "own_ok (set_pfd i g s)"
proof (cases "i < length (pollfds s)")
  case True
  have "q = g (pollfds s ! i) \<or> q \<in> set (pollfds s)"
    if "q \<in> set ((pollfds s)[i := g (pollfds s ! i)])" for q
    using subsetD [OF set_update_subset_insert that] by simp
  then show ?thesis
    unfolding set_pfd_def
    by (intro own_ok_pollfds [OF ok]) (metis True g nth_mem own_okD(6,7) ok)
next
  case False
  with ok show ?thesis by (simp add: set_pfd_def list_update_beyond)
qed

lemma own_ok_set_lfd:
  assumes ok: "own_ok s"
    and g: "\<And>l. lfd_active l \<longrightarrow> lfd_fd l < MAX_FDS \<Longrightarrow> lfd_active (g l) \<Longrightarrow> lfd_fd (g l) < MAX_FDS"
    and j: "j < MAX_FDS_LISTEN"
  shows "own_ok (set_lfd i j g s)"
proof (cases "i < length (pollfds s)")
  case True
  let ?p = "pollfds s ! i"
  have p: "?p \<in> set (pollfds s)"
    using True by simp
  have len: "length (lfds ?p) = MAX_FDS_LISTEN"
    by (rule own_okD(6) [OF ok p])
  have here: "lfd_active l \<longrightarrow> lfd_fd l < MAX_FDS" if "l \<in> set ((lfds ?p)[j := g (lfds ?p ! j)])" for l
    using that g [of "lfds ?p ! j"] own_okD(7) [OF ok p] j len
      subsetD [OF set_update_subset_insert, of l "lfds ?p" j]
    by auto
  let ?q = "?p\<lparr>lfds := (lfds ?p)[j := g (lfds ?p ! j)]\<rparr>"
  have "q = ?q \<or> q \<in> set (pollfds s)" if "q \<in> set ((pollfds s)[i := ?q])" for q
    using subsetD [OF set_update_subset_insert that] by simp
  moreover have "length (lfds ?q) = MAX_FDS_LISTEN"
    and "\<forall>l \<in> set (lfds ?q). lfd_active l \<longrightarrow> lfd_fd l < MAX_FDS"
    using len here by simp_all
  ultimately show ?thesis
    unfolding set_lfd_def set_pfd_def
    by (intro own_ok_pollfds [OF ok]) (metis own_okD(6,7) ok)
next
  case False
  with ok show ?thesis by (simp add: set_lfd_def set_pfd_def list_update_beyond)
qed

lemma own_ok_deleteListener:
  "own_ok s \<Longrightarrow> j < MAX_FDS_LISTEN \<Longrightarrow> own_ok (deleteListener i j s)"
  unfolding deleteListener_def by (rule own_ok_set_lfd) simp_all

lemma own_ok_deleteAllListeners:
  assumes "own_ok s"
  shows "own_ok (deleteAllListeners i s)"
proof -
  have "own_ok (fold (deleteListener i) js s)" if "set js \<subseteq> {..<MAX_FDS_LISTEN}" for js
    using that assms by (induction js arbitrary: s) (auto intro: own_ok_deleteListener)
  from this [of "[0..<MAX_FDS_LISTEN]"] show ?thesis
    by (simp add: deleteAllListeners_def subset_iff)
qed

text \<open>Operations on the epoll table only.\<close>

lemma kept_only_pollfds:
  assumes "owned E s gs" and "own_ok t" and "only_pollfds s t"
  shows "kept E s gs t"
  using assms by (auto simp: kept_def only_pollfds_def)

lemma handleEpfdClose_kept:
  assumes own: "owned E s gs" and ok: "own_ok s"
  shows "kept E s gs (snd (handleEpfdClose epfd s))"
proof (cases "getPollfdByNum epfd s")
  case None
  then show ?thesis using kept_refl [OF assms] by (simp add: handleEpfdClose_def)
next
  case (Some i)
  let ?t = "deleteAllListeners i (set_pfd i (\<lambda>p. p\<lparr>pfd_active := False\<rparr>) s)"
  have "own_ok ?t"
    by (intro own_ok_deleteAllListeners own_ok_set_pfd ok) simp
  moreover have "only_pollfds s ?t"
    by (rule only_pollfds_trans [OF only_pollfds_set_pfd deleteAllListeners_only])
  ultimately show ?thesis
    using Some kept_only_pollfds [OF own] by (simp add: handleEpfdClose_def)
qed

text \<open>A request to the kernel leaves everything else alone.\<close>

lemma syscall_frame:
  assumes "syscall E q s = (r, t)"
  shows "\<exists>k e. t = s\<lparr>kern := k, errno := e\<rparr>"
  using assms by (auto simp: syscall_def split: prod.splits)

lemma kept_syscall:
  assumes "syscall E q s = (r, t)" and "owned E s gs" and "own_ok s"
  shows "kept E s gs t"
  using syscall_frame [OF assms(1)] kept_refl [OF assms(2,3)] by auto

lemma close_outcome:
  assumes own: "owned E s gs" and ok: "own_ok s"
  shows "outcome True (close E md sockfd s) (\<lambda>(r, s'). kept E s gs s')"
  using kept_syscall [OF _ assms] handleSockfdClose_outcome [OF assms]
    handleEpfdClose_kept [OF assms, of sockfd]
  by (auto simp: close_def split: prod.splits)

section \<open>Accepting\<close>

lemma fits_waiting: "fits st c \<Longrightarrow> connState c = c_create \<Longrightarrow> st = s_connecting"
  by (cases st) auto

text \<open>One round either changes nothing or opens a connection that waits.\<close>

lemma accept_round_cases:
  assumes wf: "mem_wf E s" and tab: "table_ok s"
  obtains r where "accept_round E md i k s = Some (r, s)" and "\<forall>p. r \<noteq> Some (Inr p)"
  | p c where "accept_round E md i k s = Some (Some (Inr p), opened p s)" and "p \<noteq> NULL"
      and "conns s p = Some c" and "connState c = c_create" and "pAssociatedIface c \<noteq> NULL"
      and "own_port md c = listenPort (fds s ! i)"
      and "pAssociatedIface c \<in> set (interfaces s)"
      and "listenAddress (fds s ! i) = 0
           \<or> own_address md (the (ifaces s (pAssociatedIface c))) = listenAddress (fds s ! i)"
proof -
  let ?ps = "table_conns E s (\<lambda>x. listenAddress (fds s ! i) = 0
    \<or> own_address md x = listenAddress (fds s ! i)) (interfaces s)"
  let ?w = "waiting md (listenPort (fds s ! i)) s"
  let ?p = "first_or_NULL ?w ?ps"
  note eq = acceptNewConnectionOnAnyIface_eq [OF assms, of md "listenAddress (fds s ! i)"
      "listenPort (fds s ! i)"]
  note props = table_conns_props [OF wf tab [unfolded table_ok_def]]
  show thesis
  proof (cases "?p = NULL")
    case True
    then show thesis
      using eq
      by (intro that(1) [of "if flagNonblock (fds s ! i) \<noteq> 0 then Some (Inl EAGAIN)
          else if fstate (fds s ! i) = s_close then Some (Inl EBADF) else None"])
        (simp_all add: accept_round_def Let_def)
  next
    case False
    then have p: "?p \<in> set ?ps" "?w ?p"
      using first_or_NULL_hit [OF props(1)] by blast+
    from props(2) [OF p(1)] obtain c where c: "conns s ?p = Some c" "pAssociatedIface c \<noteq> NULL"
      "pAssociatedIface c \<in> set (interfaces s)"
      "listenAddress (fds s ! i) = 0
           \<or> own_address md (the (ifaces s (pAssociatedIface c))) = listenAddress (fds s ! i)"
      by blast
    have "connState c = c_create" "own_port md c = listenPort (fds s ! i)"
      using p(2) c(1) by (simp_all add: waiting_def)
    moreover have "accept_round E md i k s = Some (Some (Inr ?p), opened ?p s)"
      using False eq by (simp add: accept_round_def Let_def)
    ultimately show thesis
      using False c by (intro that(2))
  qed
qed

text \<open>A new descriptor for a connection that was just opened.\<close>

definition accepted :: "nat \<Rightarrow> ptr \<Rightarrow> 32 word \<Rightarrow> ('m, 'l, 'k) st \<Rightarrow> ('m, 'l, 'k) st" where
  "accepted j p flags s = new_fd j
     (\<lambda>f. f\<lparr>fstate := s_open, fd_pConn := p, flagNonblock := flags AND SOCK_NONBLOCK\<rparr>) (opened p s)"

lemma own_ok_opened: "own_ok s \<Longrightarrow> own_ok (opened p s)"
  by (rule own_ok_mem) (use own_okD(2) [of s] in \<open>simp_all add: opened_def\<close>)

lemma accepted_sel:
  assumes "conns s p = Some c"
  shows "fds (accepted j p flags s) = (fds s)[j := (fds s ! j)\<lparr>fd_active := True,
      num := currentMaxFd s, fstate := s_open, fd_pConn := p, flagNonblock := flags AND SOCK_NONBLOCK\<rparr>]"
    and "conns (accepted j p flags s) = (conns s)(p \<mapsto> c\<lparr>connState := c_open\<rparr>)"
    and "ifaces (accepted j p flags s) = ifaces s" and "bufs (accepted j p flags s) = bufs s"
  using assms by (simp_all add: accepted_def new_fd_def opened_def)

lemma accept_finish_eq:
  assumes ok: "own_ok s"
  obtains "accept_finish md p addr flags (opened p s) = None" and "\<forall>f \<in> set (fds s). fd_active f"
  | j where "j < length (fds s)" and "\<not> fd_active (fds s ! j)"
      and "getFdByNum (currentMaxFd s) (accepted j p flags s) = Some j"
      and "own_ok (accepted j p flags s)"
      and "accept_finish md p addr flags (opened p s) = do {
        (_, addr', s3) \<leftarrow> getpeername md (currentMaxFd s) addr (accepted j p flags s);
        Some ((currentMaxFd s, addr'), s3) }"
proof (cases rule: getEmptyFd_cases [of "opened p s"])
  case 1
  with that(1) show thesis by (auto simp: accept_finish_def opened_def)
next
  case (2 j)
  let ?g = "\<lambda>f. f\<lparr>fstate := s_open, fd_pConn := p, flagNonblock := flags AND SOCK_NONBLOCK\<rparr>"
  let ?h = "\<lambda>f. f\<lparr>num := currentMaxFd s, fstate := s_open, fd_pConn := p,
      flagNonblock := flags AND SOCK_NONBLOCK\<rparr>"
  have t: "fds (opened p s) = fds s" "currentMaxFd (opened p s) = currentMaxFd s"
    by (simp_all add: opened_def)
  have j: "j < length (fds s)" "\<not> fd_active (fds s ! j)"
    using 2(2,3) by (simp_all add: t)
  note ok_t = own_ok_opened [OF ok, of p]
  show thesis
  proof (rule that(2) [OF j])
    show "getFdByNum (currentMaxFd s) (accepted j p flags s) = Some j"
      using getFdByNum_new_fd [OF ok_t, of ?g] j by (simp add: t accepted_def)
    show "own_ok (accepted j p flags s)"
      unfolding accepted_def by (rule own_ok_new_fd [OF ok_t]) simp_all
    show "accept_finish md p addr flags (opened p s) = do {
        (_, addr', s3) \<leftarrow> getpeername md (currentMaxFd s) addr (accepted j p flags s);
        Some ((currentMaxFd s, addr'), s3) }"
      using 2(1) new_fd_eq [OF 2(2), of ?h ?g] by (simp add: accept_finish_def Let_def t accepted_def)
  qed
qed

lemma accept_finish_outcome:
  assumes own: "owned E s gs" and ok: "own_ok s" and p: "p \<noteq> NULL" and c: "conns s p = Some c"
    and st: "connState c = c_create" and i: "pAssociatedIface c \<noteq> NULL"
  shows "outcome (addr \<noteq> None \<and> (\<exists>f \<in> set (fds s). \<not> fd_active f))
    (accept_finish md p addr flags (opened p s)) (\<lambda>(v, s'). kept E s gs s')"
proof (cases rule: accept_finish_eq [OF ok, of md p addr flags])
  case 1
  then show ?thesis by auto
next
  case (2 j)
  let ?u = "accepted j p flags s"
  note u = accepted_sel [OF c, of j flags]
  let ?f = "(fds s ! j)\<lparr>fd_active := True, num := currentMaxFd s, fstate := s_open, fd_pConn := p,
    flagNonblock := flags AND SOCK_NONBLOCK\<rparr>"
  have hit: "hits p ?f" "\<not> hits q (fds s ! j)" for q
    using 2(2) by (simp_all add: hits_def)
  have "owned E ?u gs"
  proof (rule owned_step [OF own _ 2(1) u(1) _ p])
    have "mem_wf E ?u = mem_wf E (opened p s)"
      by (rule mem_wf_cong) (simp_all add: accepted_def new_fd_def)
    with opened_wf [OF ownedD(1) [OF own] c i] show "mem_wf E ?u" by simp
    show "fd_ok ?u ?f"
      using i by (simp add: fd_ok_def u)
    show "expected (conns ?u p) + of_bool (hits p (fds s ! j)) = expected (conns s p) + of_bool (hits p ?f)"
      using hit st c by (simp add: u)
    show "fd_ok ?u g" if g: "fd_ok s g" "hits p g" for g
    proof -
      from g p c have "fits (fstate g) c" and "fd_pConn g = p"
        by (auto simp: fd_ok_def hits_def split: if_splits)
      moreover from this(1) have "fstate g = s_connecting"
        by (rule fits_waiting [OF _ st])
      ultimately show ?thesis
        using i by (simp add: fd_ok_def u)
    qed
    show "hits q ?f = hits q (fds s ! j)" if "q \<noteq> NULL" "q \<noteq> p" for q
      using that hit by (simp add: hits_def)
  qed (simp add: u)
  with 2(4) have "kept E s gs ?u"
    by (simp add: kept_def u)
  moreover have "get_conn p ?u = Some (c\<lparr>connState := c_open\<rparr>)"
    using p by (simp add: get_conn_def u)
  moreover have "get_iface (pAssociatedIface c) ?u \<noteq> None"
    using mem_wf_conn(1) [OF ownedD(1) [OF own] c] i by (auto simp: conn_ok_def get_iface_def u)
  ultimately show ?thesis
    using 2 p by (auto simp: getpeername_def u Let_def split: Option.bind_splits)
qed

lemma accept4_outcome:
  assumes own: "owned E s gs" and ok: "own_ok s"
  shows "outcome (addr \<noteq> None \<and> (\<exists>f \<in> set (fds s). \<not> fd_active f))
    (accept4 1 (\<lambda>_ t. t) E md sockfd addr flags s) (\<lambda>(r, s'). kept E s gs s')"
proof (cases "getFdByNum sockfd s")
  case None
  then show ?thesis using kept_refl [OF assms] by (simp add: accept4_def)
next
  case (Some i)
  show ?thesis
  proof (cases rule: accept_round_cases [OF ownedD(1) [OF own] own_okD(1) [OF ok], of md i 0])
    case (1 r)
    then show ?thesis
      using Some kept_refl [OF assms]
      by (auto simp: accept4_def split: option.splits sum.splits)
  next
    case (2 p c)
    have "outcome (addr \<noteq> None \<and> (\<exists>f \<in> set (fds s). \<not> fd_active f))
        (do { (v, s2) \<leftarrow> accept_finish md p addr flags (opened p s); Some (Some v, s2) })
        (\<lambda>(r, s'). kept E s gs s')"
      by (rule outcome_bind [OF accept_finish_outcome [OF assms 2(2-5)]]) auto
    then show ?thesis
      using Some 2(1) kept_refl [OF assms] by (simp add: accept4_def)
  qed
qed

section \<open>Connecting\<close>

lemma getInterfaceBySockaddr_hit:
  assumes "table_ok s"
  obtains p where "getInterfaceBySockaddr md a s = Some p"
    and "p \<noteq> NULL \<longrightarrow> p \<in> set (interfaces s) \<and> p \<in> dom (ifaces s)
         \<and> remote_address md (the (ifaces s p)) = a"
proof -
  let ?Q = "\<lambda>p. p \<noteq> NULL \<and> remote_address md (the (ifaces s p)) = a"
  have eq: "getInterfaceBySockaddr md a s =
    Some (case List.find ?Q (interfaces s) of None \<Rightarrow> NULL | Some p \<Rightarrow> p)"
    unfolding getInterfaceBySockaddr_def
    by (rule find_interface_hit) (use assms in \<open>simp add: table_ok_def\<close>)
  show thesis
  proof (cases "List.find ?Q (interfaces s)")
    case None
    with eq that [of NULL] show thesis by simp
  next
    case (Some p)
    then have "p \<in> set (interfaces s)" "?Q p"
      by (auto simp: find_Some_iff)
    with Some eq assms that [of p] show thesis
      by (simp add: table_ok_def)
  qed
qed

lemma createNewConnection_defined:
  assumes "ll_laws E" and "never_full E"
  shows "createNewConnection E md i own remote s \<noteq> None"
proof -
  obtain p m' where m: "malloc E i sizeof_connection (heap s) = (p, m')" by fastforce
  with assms(2) have "p \<noteq> NULL" unfolding never_full_def by (metis fst_conv)
  with createNewConnection_eq [OF assms(1) m, of md own remote] show ?thesis by auto
qed

text \<open>A connection is created for the descriptor and put first on the list of the interface.\<close>

lemma start_connect_new:
  assumes own: "owned E s gs" and ok: "own_ok s" and i: "i < length (fds s)"
    and pI: "getInterfaceBySockaddr md (SOCKADDR a) s = Some pI" "pI \<noteq> NULL"
    and new: "createNewConnection E md pI (randomPort s) (PORT a) (s\<lparr>randomPort := randomPort s + 1\<rparr>)
      = Some (p, s1)"
  obtains c r r' s' where "start_connect E md i (Some a) s = Some (None, s')"
    and "created E md pI (randomPort s) (PORT a) c" and "p \<noteq> NULL" and "conns s p = None"
    and "ifaces s pI = Some r" and "mem_wf E s'"
    and "opt_elems E (connectionList r') = p # iface_conns E s pI"
    and "addr1 r' = addr1 r" and "addr2 r' = addr2 r"
    and "conns s' = (conns s)(p \<mapsto> c)" and "ifaces s' = (ifaces s)(pI \<mapsto> r')"
    and "fds s' = (fds s)[i := (fds s ! i)\<lparr>fd_pConn := p, fstate := s_connecting\<rparr>]"
    and "interfaces s' = interfaces s" and "currentMaxFd s' = currentMaxFd s"
    and "pollfds s' = pollfds s" and "cur_ctx s' = NULL" and "randomPort s' = randomPort s + 1"
    and "bufs s' = bufs s"
proof -
  note wf = ownedD(1) [OF own]
  obtain pI' where "getInterfaceBySockaddr md (SOCKADDR a) s = Some pI'"
    and "pI' \<noteq> NULL \<longrightarrow> pI' \<in> dom (ifaces s)"
    by (rule getInterfaceBySockaddr_hit [OF own_okD(1) [OF ok]]) blast
  with pI obtain r where r: "ifaces s pI = Some r" by auto
  let ?s0 = "s\<lparr>randomPort := randomPort s + 1\<rparr>"
  obtain c m' where s1: "s1 = ?s0\<lparr>heap := m', conns := (conns ?s0)(p \<mapsto> c), cur_ctx := NULL\<rparr>"
    and c: "created E md pI (randomPort s) (PORT a) c" and p: "p \<noteq> NULL" "conns ?s0 p = None"
    and wf1: "mem_wf E s1"
    by (rule createNewConnection_wf [OF _ _ new, of r]) (use wf r in simp_all)
  have c': "pAssociatedIface c = pI"
    using c by (simp add: created_def)
  let ?s2 = "set_fd i (\<lambda>f. f\<lparr>fd_pConn := p\<rparr>) s1"
  have wf2: "mem_wf E ?s2"
    using wf1 by (simp add: set_fd_def)
  have old: "iface_conns E ?s2 pI = iface_conns E s pI"
    by (simp add: iface_conns_def s1)
  have fresh: "p \<notin> set (iface_conns E ?s2 pI)"
    using iface_conns_props(2) [OF wf, of pI p] r p(2) by (auto simp: old)
  obtain r' where ini: "initiateNewConnection E p ?s2 =
      Some (True, ?s2\<lparr>ifaces := (ifaces ?s2)(pI \<mapsto> r')\<rparr>)"
    and wf3: "mem_wf E (?s2\<lparr>ifaces := (ifaces ?s2)(pI \<mapsto> r')\<rparr>)"
    and r': "opt_elems E (connectionList r') = p # iface_conns E ?s2 pI"
      "addr1 r' = addr1 (the (ifaces ?s2 pI))" "addr2 r' = addr2 (the (ifaces ?s2 pI))"
    by (rule initiateNewConnection_wf [OF wf2, of p c, unfolded c'])
      (use pI(2) fresh in \<open>auto simp: s1\<close>)
  let ?s3 = "?s2\<lparr>ifaces := (ifaces ?s2)(pI \<mapsto> r')\<rparr>"
  let ?s4 = "set_fd i (\<lambda>f. f\<lparr>fstate := s_connecting\<rparr>) ?s3"
  have "mem_wf E ?s4 = mem_wf E ?s3"
    by (rule mem_wf_cong) simp_all
  with wf3 have "mem_wf E ?s4" by simp
  moreover have "start_connect E md i (Some a) s = Some (None, ?s4)"
    using pI new ini by (simp add: start_connect_def Let_def)
  ultimately show thesis
    using c p r r'(1) [unfolded old] r'(2,3) i by (intro that [of ?s4 c r r']) (simp_all add: s1)
qed

lemma start_connect_outcome:
  assumes own: "owned E s gs" and ok: "own_ok s" and i: "i < length (fds s)"
    and act: "fd_active (fds s ! i)" and st: "fstate (fds s ! i) = s_created"
  shows "outcome (never_full E \<and> addr \<noteq> None) (start_connect E md i addr s)
    (\<lambda>(e, s'). kept E s gs s' \<and> (e = None \<longrightarrow> (\<exists>p. fds s' = (fds s)[i := (fds s ! i)
        \<lparr>fd_pConn := p, fstate := s_connecting\<rparr>])))"
proof (cases addr)
  case None
  then show ?thesis by (simp add: start_connect_def)
next
  case (Some a)
  have pn: "fd_pConn (fds s ! i) = NULL"
    using nth_fd_ok [OF own i] act st by (simp add: fd_ok_def)
  obtain pI where pI: "getInterfaceBySockaddr md (SOCKADDR a) s = Some pI"
    by (rule getInterfaceBySockaddr_hit [OF own_okD(1) [OF ok]]) blast
  let ?new = "createNewConnection E md pI (randomPort s) (PORT a) (s\<lparr>randomPort := randomPort s + 1\<rparr>)"
  consider "pI = NULL" | "pI \<noteq> NULL" "?new = None" | p s1 where "pI \<noteq> NULL" "?new = Some (p, s1)"
    by (cases ?new) auto
  then show ?thesis
  proof cases
    case 1
    with Some pI kept_refl [OF own ok] show ?thesis by (simp add: start_connect_def)
  next
    case 2
    then have "\<not> never_full E"
      using createNewConnection_defined [OF mem_wfD(2) [OF ownedD(1) [OF own]]] by blast
    with 2 Some pI show ?thesis
      by (simp add: start_connect_def)
  next
    case (3 p s1)
    let ?f = "(fds s ! i)\<lparr>fd_pConn := p, fstate := s_connecting\<rparr>"
    obtain c r r' s' where op: "start_connect E md i (Some a) s = Some (None, s')"
      and c: "created E md pI (randomPort s) (PORT a) c" and p: "p \<noteq> NULL" "conns s p = None"
      and r: "ifaces s pI = Some r" and wf: "mem_wf E s'"
      and s': "conns s' = (conns s)(p \<mapsto> c)" "ifaces s' = (ifaces s)(pI \<mapsto> r')" "fds s' = (fds s)[i := ?f]"
        "interfaces s' = interfaces s" "currentMaxFd s' = currentMaxFd s" "pollfds s' = pollfds s"
        "cur_ctx s' = NULL"
      by (rule start_connect_new [OF own ok i pI 3]) blast
    have c': "pAssociatedIface c = pI" "connState c = c_create"
      using c by (simp_all add: created_def)
    have "owned E s' gs"
    proof (rule owned_acquire [OF own _ i s'(3) _ p(1) _ pn])
      show "mem_wf E s'" by (rule wf)
      show "fd_ok s' ?f"
        using c' 3(1) by (simp add: fd_ok_def s')
    qed (use p c' act s' in auto)
    moreover have "own_ok s'"
    proof -
      have "own_ok (set_fd i (\<lambda>f. f\<lparr>fd_pConn := p, fstate := s_connecting\<rparr>) s)"
        by (rule own_ok_set_fd_same [OF ok i]) simp_all
      then show ?thesis
        by (auto simp: own_ok_def table_ok_def s')
    qed
    ultimately have "kept E s gs s'"
      using r by (auto simp: kept_def s')
    with op Some s'(3) show ?thesis by auto
  qed
qed

lemma wait_for_accept_outcome:
  assumes own: "owned E s gs" and ok: "own_ok s" and i: "i < length (fds s)"
    and act: "fd_active (fds s ! i)" and st: "fstate (fds s ! i) = s_connecting"
  shows "outcome True (wait_for_accept 1 (\<lambda>_ t. t) i s) (\<lambda>(r, s'). kept E s gs s')"
proof -
  obtain c where c: "conns s (fd_pConn (fds s ! i)) = Some c" "pAssociatedIface c \<noteq> NULL"
    using nth_fd_ok [OF own i] act st by (auto simp: fd_ok_def)
  note get = mem_wf_get_conn [OF ownedD(1) [OF own]]
  have "kept E s gs (set_fd i (\<lambda>f. f\<lparr>fstate := s_open\<rparr>) s)" if "connState c = c_open"
    by (rule kept_set_fd [OF own ok i]) (use that c act in \<open>simp_all add: fd_ok_def\<close>)
  then show ?thesis
    using c kept_refl [OF own ok]
    by (simp add: wait_for_accept_def connect_round_def checkIfAcceptedConnection_def
        checkIfClosedConnection_def get)
qed

lemma connectEx_outcome:
  assumes own: "owned E s gs" and ok: "own_ok s"
  shows "outcome (never_full E \<and> addr \<noteq> None) (connectEx 1 (\<lambda>_ t. t) E md sockfd addr s)
    (\<lambda>(r, s'). kept E s gs s')"
proof (cases "getFdByNum sockfd s")
  case None
  then show ?thesis using kept_refl [OF assms] by (simp add: connectEx_def)
next
  case (Some i)
  note i = getFdByNumD [OF Some]
  consider "fstate (fds s ! i) = s_connecting" | "fstate (fds s ! i) = s_created"
    | "fstate (fds s ! i) \<noteq> s_connecting" "fstate (fds s ! i) \<noteq> s_created"
    by blast
  then show ?thesis
  proof cases
    case 1
    with Some outcome_mono [OF wait_for_accept_outcome [OF own ok i(1,2)]] show ?thesis
      by (simp add: connectEx_def)
  next
    case 2
    have "outcome (never_full E \<and> addr \<noteq> None) (do {
        (e, s1) \<leftarrow> start_connect E md i addr s;
        case e of
          Some e \<Rightarrow> Some (Some (-1), s1\<lparr>errno := e\<rparr>)
        | None \<Rightarrow> wait_for_accept 1 (\<lambda>_ t. t) i s1 }) (\<lambda>(r, s'). kept E s gs s')"
    proof (rule outcome_bind [OF start_connect_outcome [OF own ok i(1,2) 2]])
      fix x :: "errno option \<times> ('a, 'b, 'c) st"
      obtain e s1 where x: "x = (e, s1)" by fastforce
      assume P: "case x of (e, s') \<Rightarrow> kept E s gs s' \<and> (e = None \<longrightarrow> (\<exists>p. fds s' = (fds s)[i := (fds s ! i)
        \<lparr>fd_pConn := p, fstate := s_connecting\<rparr>]))"
      then have k: "kept E s gs s1" by (simp add: x)
      show "outcome (never_full E \<and> addr \<noteq> None) ((\<lambda>(e, s1). case e of
          Some e \<Rightarrow> Some (Some (-1), s1\<lparr>errno := e\<rparr>)
        | None \<Rightarrow> wait_for_accept 1 (\<lambda>_ t. t) i s1) x) (\<lambda>(r, s'). kept E s gs s')"
      proof (cases e)
        case (Some e')
        with k show ?thesis by (simp add: x)
      next
        case None
        with P obtain p where f: "fds s1 = (fds s)[i := (fds s ! i)
          \<lparr>fd_pConn := p, fstate := s_connecting\<rparr>]" by (auto simp: x)
        have "outcome True (wait_for_accept 1 (\<lambda>_ t. t) i s1) (\<lambda>(r, s'). kept E s1 gs s')"
          by (rule wait_for_accept_outcome [OF keptD(1,2) [OF k]]) (use f i in simp_all)
        then have "outcome (never_full E \<and> addr \<noteq> None) (wait_for_accept 1 (\<lambda>_ t. t) i s1)
            (\<lambda>(r, s'). kept E s gs s')"
          by (rule outcome_mono) (auto intro: kept_trans [OF k])
        with None show ?thesis by (simp add: x)
      qed
    qed
    with Some 2 show ?thesis by (simp add: connectEx_def del: One_nat_def)
  next
    case 3
    with Some kept_refl [OF assms] show ?thesis by (simp add: connectEx_def)
  qed
qed

lemma connect_outcome:
  assumes own: "owned E s gs" and ok: "own_ok s"
  shows "outcome (never_full E \<and> addr \<noteq> None) (connect 1 (\<lambda>_ t. t) E md sockfd addr s)
    (\<lambda>(r, s'). kept E s gs s')"
  using connectEx_outcome [OF assms] kept_refl [OF assms]
  by (auto simp: connect_def split: option.splits)

end
