(* ===== verification/IoCalls.thy ===== *)
theory IoCalls
  imports Calls
begin

text \<open>
  The calls that move data, and the ones that only look at a descriptor: defined for valid
  arguments, and they keep the invariant.
\<close>

section \<open>Sending\<close>

lemma sendConnection_defined:
  assumes wf: "mem_wf E s" and c: "conns s p = Some c" and i: "pAssociatedIface c \<noteq> NULL"
    and full: "never_full E" and len: "0 \<le> len" "len \<le> int (length bs)"
  shows "sendConnection E md p bs len s \<noteq> None"
proof -
  obtain sb where sb: "sendBuffer md c = Some sb"
    using chan_buffers [OF wf c i, of md] by metis
  obtain q m' where m: "malloc E (pAssociatedIface c) (packet_size len) (heap s) = (q, m')"
    by fastforce
  with full have "q \<noteq> NULL" unfolding never_full_def by (metis fst_conv)
  with c m sb len mem_wf_conn(3) [OF wf c] show ?thesis
    by (auto simp: sendConnection_def mem_defs mem_read_def split: prod.splits)
qed

text \<open>The queues of a connection change, nothing else.\<close>

lemma kept_queue_change:
  assumes own: "owned E s gs" and ok: "own_ok s" and wf: "mem_wf E s'"
    and c: "conns s p = Some c" "conns s' = (conns s)(p \<mapsto> c')" "skeleton c' = skeleton c"
    and "fds s' = fds s" and "ifaces s' = ifaces s" and "interfaces s' = interfaces s"
    and "currentMaxFd s' = currentMaxFd s" and "pollfds s' = pollfds s" and "cur_ctx s' = NULL"
  shows "kept E s gs s'"
proof -
  have "owned E s' gs"
    by (rule owned_conns [OF own wf]) (use assms in simp_all)
  moreover have "own_ok s'"
    by (rule own_ok_mem [OF ok]) (use assms in simp_all)
  ultimately show ?thesis
    using assms by (simp add: kept_def)
qed

lemma sendConnection_outcome:
  assumes own: "owned E s gs" and ok: "own_ok s" and c: "conns s p = Some c"
    and i: "pAssociatedIface c \<noteq> NULL"
  shows "outcome (never_full E \<and> 0 \<le> len \<and> len \<le> int (length bs)) (sendConnection E md p bs len s)
    (\<lambda>(r, s'). kept E s gs s' \<and> r = len \<and> fds s' = fds s)"
proof (rule outcomeI)
  note wf = ownedD(1) [OF own]
  show "sendConnection E md p bs len s \<noteq> None"
    if "never_full E \<and> 0 \<le> len \<and> len \<le> int (length bs)"
    using sendConnection_defined [OF wf c i] that by blast
  fix x :: "int \<times> ('a, 'b, 'c) st"
  obtain r s' where x: "x = (r, s')" by fastforce
  assume "sendConnection E md p bs len s = Some x"
  then have op: "sendConnection E md p bs len s = Some (r, s')" by (simp add: x)
  obtain q b c' m' sb sb' where r: "r = len"
    and s': "s' = s\<lparr>heap := m', bufs := (bufs s)(q \<mapsto> b), conns := (conns s)(p \<mapsto> c'), cur_ctx := NULL\<rparr>"
    and wf': "mem_wf E s'"
    and c': "c' = set_remote_events md (SET_EVENT (remote_events md c) EPOLLIN)
                (set_sendBuffer md (Some sb') c)"
    using sendConnection_wf [OF wf c i op] by metis
  have "kept E s gs s'"
    by (rule kept_queue_change [OF own ok wf' c, where c' = c']) (simp_all add: s' c' skeleton_def)
  then show "case x of (r, s') \<Rightarrow> kept E s gs s' \<and> r = len \<and> fds s' = fds s"
    using r by (simp add: x s')
qed

text \<open>The arguments of \<open>send\<close>: the length fits the buffer and the \<open>int\<close> it is converted to.\<close>

definition send_args :: "byte list \<Rightarrow> 64 word \<Rightarrow> bool" where
  "send_args buf len \<longleftrightarrow> 0 \<le> size_to_int len \<and> size_to_int len \<le> int (length buf)"

text \<open>The connection of an open descriptor is closed: the descriptor notices it.\<close>

lemma kept_handleCloseWhileIO:
  assumes own: "owned E s gs" and ok: "own_ok s" and i: "i < length (fds s)"
    and c: "conns s (fd_pConn (fds s ! i)) = Some c" "connState c = c_close" "pAssociatedIface c \<noteq> NULL"
  shows "kept E s gs (handleCloseWhileIO i s)"
  unfolding handleCloseWhileIO_def
  by (rule kept_set_fd [OF own ok i]) (use c in \<open>simp_all add: fd_ok_def\<close>)

lemma open_conn:
  assumes own: "owned E s gs" and i: "getFdByNum n s = Some i" and st: "fstate (fds s ! i) = s_open"
  obtains c where "conns s (fd_pConn (fds s ! i)) = Some c" and "pAssociatedIface c \<noteq> NULL"
    and "connState c = c_open \<or> connState c = c_close"
    and "get_conn (fd_pConn (fds s ! i)) s = Some c" and "fd_pConn (fds s ! i) \<noteq> NULL"
proof -
  obtain c where c: "conns s (fd_pConn (fds s ! i)) = Some c" "fits (fstate (fds s ! i)) c"
    "fd_pConn (fds s ! i) \<noteq> NULL"
    using fd_conn [OF own i] st by auto
  then show thesis
    using st by (intro that [of c]) (simp_all add: mem_wf_get_conn [OF ownedD(1) [OF own]])
qed

lemma send_outcome:
  assumes own: "owned E s gs" and ok: "own_ok s"
  shows "outcome (never_full E \<and> send_args buf len) (send E md sockfd buf len flags s)
    (\<lambda>(r, s'). kept E s gs s')"
proof (cases "getFdByNum sockfd s")
  case None
  then show ?thesis using kept_refl [OF assms] by (simp add: send_def)
next
  case (Some i)
  show ?thesis
  proof (cases "fstate (fds s ! i) = s_open")
    case False
    with Some show ?thesis using kept_refl [OF assms] by (simp add: send_def)
  next
    case True
    obtain c where c: "conns s (fd_pConn (fds s ! i)) = Some c" "pAssociatedIface c \<noteq> NULL"
      "get_conn (fd_pConn (fds s ! i)) s = Some c"
      by (rule open_conn [OF own Some True])
    have "outcome (never_full E \<and> send_args buf len)
      (sendConnection E md (fd_pConn (fds s ! i)) buf (size_to_int len) s) (\<lambda>(r, s'). kept E s gs s')"
      by (rule outcome_mono [OF sendConnection_outcome [OF own ok c(1,2)]])
        (auto simp: send_args_def)
    with Some True c kept_handleCloseWhileIO [OF own ok getFdByNumD(1) [OF Some] c(1) _ c(2)]
    show ?thesis
      by (simp add: send_def)
  qed
qed

lemma send_iov_outcome:
  assumes "owned E s gs" and "own_ok s"
  shows "outcome (never_full E \<and> (\<forall>(buf, len) \<in> set iov. send_args buf len))
    (send_iov E md sockfd iov flags n s) (\<lambda>(r, s'). kept E s gs s')"
  using assms
proof (induction iov arbitrary: n s)
  case Nil
  then show ?case by (simp add: kept_refl)
next
  case (Cons x iov)
  obtain buf len where x: "x = (buf, len)" by fastforce
  let ?V = "never_full E \<and> (\<forall>(buf, len) \<in> set (x # iov). send_args buf len)"
  have "outcome ?V (do {
     (ret, s1) \<leftarrow> send E md sockfd buf len flags s;
     if ret < 0 then Some (-1, s1) else send_iov E md sockfd iov flags (n + ret) s1 })
    (\<lambda>(r, s'). kept E s gs s')"
  proof (rule outcome_bind)
    show "outcome ?V (send E md sockfd buf len flags s) (\<lambda>(r, s'). kept E s gs s')"
      by (rule outcome_mono [OF send_outcome [OF Cons.prems]]) (auto simp: x)
    fix y :: "int \<times> ('a, 'b, 'c) st"
    obtain ret s1 where y: "y = (ret, s1)" by fastforce
    assume "case y of (r, s') \<Rightarrow> kept E s gs s'"
    then have k: "kept E s gs s1" by (simp add: y)
    have "outcome ?V (send_iov E md sockfd iov flags (n + ret) s1) (\<lambda>(r, s'). kept E s gs s')"
      by (rule outcome_mono [OF Cons.IH [OF keptD(1,2) [OF k]]]) (auto intro: kept_trans [OF k])
    with k show "outcome ?V ((\<lambda>(ret, s1). if ret < 0 then Some (-1, s1)
        else send_iov E md sockfd iov flags (n + ret) s1) y) (\<lambda>(r, s'). kept E s gs s')"
      by (simp add: y)
  qed
  then show ?case by (simp add: x)
qed

lemma sendmsg_outcome:
  assumes own: "owned E s gs" and ok: "own_ok s"
  shows "outcome (never_full E \<and> (\<forall>(buf, len) \<in> set iov. send_args buf len))
    (sendmsg E md sockfd iov flags s) (\<lambda>(r, s'). kept E s gs s')"
proof (cases "getFdByNum sockfd s")
  case None
  then show ?thesis using kept_refl [OF assms] by (simp add: sendmsg_def)
next
  case (Some i)
  show ?thesis
  proof (cases "fstate (fds s ! i) = s_open")
    case False
    with Some show ?thesis using kept_refl [OF assms] by (simp add: sendmsg_def)
  next
    case True
    obtain c where c: "conns s (fd_pConn (fds s ! i)) = Some c" "pAssociatedIface c \<noteq> NULL"
      "get_conn (fd_pConn (fds s ! i)) s = Some c"
      by (rule open_conn [OF own Some True])
    with Some True send_iov_outcome [OF assms]
      kept_handleCloseWhileIO [OF own ok getFdByNumD(1) [OF Some] c(1) _ c(2)]
    show ?thesis
      by (simp add: sendmsg_def)
  qed
qed

section \<open>Receiving\<close>

text \<open>A negative length with a packet waiting is an overlong \<open>memcpy\<close>.\<close>

lemma recvConnection_negative:
  assumes wf: "mem_wf E s" and c: "conns s p = Some c" and i: "pAssociatedIface c \<noteq> NULL"
    and queue: "recv_queue E md p s = x # xs" and "len < 0"
  shows "recvConnection E md p len s = None"
proof -
  obtain rb q qs b where rb: "recvBuffer md c = Some rb" "llist_ok E rb" "hasDataList E rb"
    and q: "llist_elems E rb = q # qs" and ent: "entry_ok E s (pAssociatedIface c) q"
    and b: "bufs s q = Some b"
    using recv_queue_first [OF wf c i queue] by metis
  have first: "llist_get_first E rb (cur_ctx s) = (q, cur_ctx s)"
    using llist_get_first_val [OF rb(2)] q by simp
  show ?thesis
    using c rb(1,3) first b ent \<open>len < 0\<close> mem_wf_conn(3) [OF wf c]
    by (auto simp: recvConnection_def mem_defs mem_read_def entry_ok_def)
qed

text \<open>What a receive does, in terms of the queue.\<close>

lemma recvConnection_cases:
  assumes own: "owned E s gs" and ok: "own_ok s" and c: "conns s p = Some c"
    and i: "pAssociatedIface c \<noteq> NULL"
  shows "outcome (0 \<le> len) (recvConnection E md p len s)
    (\<lambda>(r, out, s'). kept E s gs s' \<and> fds s' = fds s \<and> r = int (length out)
      \<and> (r = 0 \<and> 0 < len \<and> [] \<notin> set (recv_queue E md p s) \<longrightarrow> recv_queue E md p s = [] \<and> s' = s))"
proof -
  note wf = ownedD(1) [OF own]
  show ?thesis
  proof (cases "recv_queue E md p s")
    case Nil
    then show ?thesis
      using recvConnection_empty [OF wf c i Nil] kept_refl [OF own ok] by simp
  next
    case (Cons x xs)
    show ?thesis
    proof (cases "int (length x) \<le> len")
      case True
      obtain q c' rb' where op: "recvConnection E md p len s = Some (int (length x), x,
          s\<lparr>conns := (conns s)(p \<mapsto> c'), heap := free E (pAssociatedIface c) q (heap s),
            bufs := (bufs s)(q := None), cur_ctx := NULL\<rparr>)"
        and wf': "mem_wf E (s\<lparr>conns := (conns s)(p \<mapsto> c'),
            heap := free E (pAssociatedIface c) q (heap s), bufs := (bufs s)(q := None)\<rparr>)"
        and c': "c' = set_recvBuffer md (Some rb') c"
        by (rule recvConnection_whole [OF wf c i Cons True])
      let ?t = "s\<lparr>conns := (conns s)(p \<mapsto> c'), heap := free E (pAssociatedIface c) q (heap s),
            bufs := (bufs s)(q := None), cur_ctx := NULL\<rparr>"
      have "kept E s gs ?t"
        by (rule kept_queue_change [OF own ok _ c, where c' = c']) (use wf' in \<open>simp_all add: c' skeleton_def\<close>)
      with op Cons show ?thesis by auto
    next
      case small: False
      show ?thesis
      proof (cases "0 \<le> len")
        case True
        obtain q b where op: "recvConnection E md p len s = Some (len, take (nat len) x,
            put_buf q (b\<lparr>offset := offset b + len, datasize := datasize b - len\<rparr>) s)"
          and wf': "mem_wf E (put_buf q (b\<lparr>offset := offset b + len, datasize := datasize b - len\<rparr>) s)"
          by (rule recvConnection_part [OF wf c i Cons True]) (use small in auto)
        let ?t = "put_buf q (b\<lparr>offset := offset b + len, datasize := datasize b - len\<rparr>) s"
        have "owned E ?t gs"
          by (rule owned_conns [OF own wf']) (simp_all add: put_buf_def)
        moreover have "own_ok ?t"
          by (rule own_ok_mem [OF ok]) (use own_okD(2) [OF ok] in \<open>simp_all add: put_buf_def\<close>)
        ultimately have "kept E s gs ?t"
          by (simp add: kept_def put_buf_def)
        with op small True Cons show ?thesis by (simp add: put_buf_def)
      next
        case False
        then have "recvConnection E md p len s = None"
          by (intro recvConnection_negative [OF wf c i Cons]) simp
        with False show ?thesis by simp
      qed
    qed
  qed
qed

lemma recv_round_outcome:
  assumes own: "owned E s gs" and ok: "own_ok s" and i: "getFdByNum n s = Some i"
    and st: "fstate (fds s ! i) = s_open"
  shows "outcome (0 \<le> size_to_int len) (recv_round E md i len flags k s)
    (\<lambda>(r, s'). kept E s gs s')"
proof -
  obtain c where c: "conns s (fd_pConn (fds s ! i)) = Some c" "pAssociatedIface c \<noteq> NULL"
    by (rule open_conn [OF own i st])
  show ?thesis
    unfolding recv_round_def
  proof (rule outcome_bind [OF recvConnection_cases [OF own ok c, of "size_to_int len" md]])
    fix x :: "int \<times> byte list \<times> ('a, 'b, 'c) st"
    obtain ret out s1 where x: "x = (ret, out, s1)" by (cases x) auto
    assume P: "case x of (r, out, s') \<Rightarrow> kept E s gs s' \<and> fds s' = fds s \<and> r = int (length out)
      \<and> (r = 0 \<and> 0 < size_to_int len \<and> [] \<notin> set (recv_queue E md (fd_pConn (fds s ! i)) s)
        \<longrightarrow> recv_queue E md (fd_pConn (fds s ! i)) s = [] \<and> s' = s)"
    then have k: "kept E s gs s1" and f: "fds s1 = fds s" by (simp_all add: x)
    have ii: "i < length (fds s1)" "fd_active (fds s1 ! i)" "fstate (fds s1 ! i) = s_open"
      using getFdByNumD [OF i] st by (simp_all add: f)
    obtain d where d: "conns s1 (fd_pConn (fds s1 ! i)) = Some d" "pAssociatedIface d \<noteq> NULL"
      using nth_fd_ok [OF keptD(1) [OF k] ii(1)] ii by (auto simp: fd_ok_def)
    have g: "get_conn (fd_pConn (fds s1 ! i)) s1 = Some d"
      using d(1) by (simp add: mem_wf_get_conn [OF ownedD(1) [OF keptD(1) [OF k]]])
    have "kept E s gs (handleCloseWhileIO i s1)" if "connState d = c_close"
      using kept_handleCloseWhileIO [OF keptD(1,2) [OF k] ii(1) d(1) that d(2)]
      by (rule kept_trans [OF k])
    with k g show "outcome (0 \<le> size_to_int len) ((\<lambda>(ret, out, s1).
        if ret \<noteq> 0 then Some (Some (Inr (ret, out)), s1)
        else do {
          c \<leftarrow> get_conn (fd_pConn (fds s1 ! i)) s1;
          if connState c = c_close then Some (Some (Inr (0, [])), handleCloseWhileIO i s1)
          else if flagNonblock (fds s1 ! i) \<noteq> 0 \<or> flags AND MSG_DONTWAIT \<noteq> 0
          then Some (Some (Inl EAGAIN), s1)
          else Some (None, s1) }) x) (\<lambda>(r, s'). kept E s gs s')"
      by (simp add: x)
  qed
qed

lemma recv_outcome:
  assumes own: "owned E s gs" and ok: "own_ok s"
  shows "outcome (0 \<le> size_to_int len) (recv 1 (\<lambda>_ t. t) E md sockfd len flags s)
    (\<lambda>(r, s'). kept E s gs s')"
proof (cases "getFdByNum sockfd s")
  case None
  then show ?thesis using kept_refl [OF assms] by (simp add: recv_def)
next
  case (Some i)
  show ?thesis
  proof (cases "fstate (fds s ! i) = s_open")
    case False
    with Some show ?thesis using kept_refl [OF assms] by (simp add: recv_def)
  next
    case True
    show ?thesis
    proof (cases "recv_round E md i len flags 0 s")
      case None
      with recv_round_outcome [OF own ok Some True, of len md flags 0] Some True show ?thesis
        by (simp add: recv_def)
    next
      case (Some x)
      obtain r s' where x: "x = (r, s')" by fastforce
      with recv_round_outcome [OF own ok \<open>getFdByNum sockfd s = Some i\<close> True, of len md flags 0] Some
      have "kept E s gs s'" by simp
      with Some x True \<open>getFdByNum sockfd s = Some i\<close> show ?thesis
        by (auto simp: recv_def split: option.splits sum.splits)
    qed
  qed
qed

section \<open>The other calls\<close>

lemma shutdown_outcome:
  assumes "owned E s gs" and "own_ok s"
  shows "outcome True (shutdown sockfd how s) (\<lambda>(r, s'). kept E s gs s')"
  using kept_refl [OF assms] by (simp add: shutdown_def split: option.splits)

lemma fcntl_outcome:
  assumes own: "owned E s gs" and ok: "own_ok s"
  shows "outcome True (fcntl E sockfd cmd arg s) (\<lambda>(r, s'). kept E s gs s')"
proof (cases "sockfd < FD_START")
  case True
  then show ?thesis
    using kept_syscall [OF _ assms] by (auto simp: fcntl_def split: prod.splits)
next
  case False
  show ?thesis
  proof (cases "getFdByNum sockfd s")
    case None
    with False show ?thesis using kept_refl [OF assms] by (simp add: fcntl_def)
  next
    case (Some i)
    note i = getFdByNumD [OF Some]
    have "kept E s gs (set_fd i (\<lambda>f. f\<lparr>flagNonblock := ucast (arg AND O_NONBLOCK)\<rparr>) s)"
      by (rule kept_set_fd [OF own ok i(1)])
        (use nth_fd_ok [OF own i(1)] in \<open>simp_all add: fd_ok_def\<close>)
    with Some False kept_refl [OF assms] show ?thesis
      by (simp add: fcntl_def)
  qed
qed

lemma fd_iface:
  assumes own: "owned E s gs" and c: "conns s p = Some c" and "connState c = c_open"
  shows "get_iface (pAssociatedIface c) s \<noteq> None"
  using mem_wf_conn(1) [OF ownedD(1) [OF own] c] assms(3)
  by (auto simp: conn_ok_def get_iface_def split: if_splits)

lemma fd_get_conn:
  assumes own: "owned E s gs" and i: "getFdByNum n s = Some i" and p: "fd_pConn (fds s ! i) \<noteq> NULL"
  obtains c where "conns s (fd_pConn (fds s ! i)) = Some c"
    and "get_conn (fd_pConn (fds s ! i)) s = Some c"
  using nth_fd_ok [OF own getFdByNumD(1) [OF i]] getFdByNumD(2) [OF i] p that
  by (auto simp: fd_ok_def get_conn_def split: if_splits)

lemma getsockname_outcome:
  assumes own: "owned E s gs" and ok: "own_ok s"
  shows "outcome (addr \<noteq> None) (getsockname md sockfd addr s) (\<lambda>(r, addr', s'). kept E s gs s')"
proof (cases "getFdByNum sockfd s")
  case None
  then show ?thesis using kept_refl [OF assms] by (simp add: getsockname_def)
next
  case (Some i)
  show ?thesis
  proof (cases "fd_pConn (fds s ! i) = NULL")
    case True
    with Some kept_refl [OF assms] show ?thesis
      by (cases addr) (simp_all add: getsockname_def Let_def)
  next
    case False
    obtain c where "conns s (fd_pConn (fds s ! i)) = Some c"
      "get_conn (fd_pConn (fds s ! i)) s = Some c"
      by (rule fd_get_conn [OF own Some False])
    with Some False kept_refl [OF assms] fd_iface [OF own, of "fd_pConn (fds s ! i)" c] show ?thesis
      by (cases addr) (auto simp: getsockname_def Let_def)
  qed
qed

lemma getpeername_outcome:
  assumes own: "owned E s gs" and ok: "own_ok s"
  shows "outcome (addr \<noteq> None) (getpeername md sockfd addr s) (\<lambda>(r, addr', s'). kept E s gs s')"
proof (cases "getFdByNum sockfd s")
  case None
  then show ?thesis using kept_refl [OF assms] by (simp add: getpeername_def)
next
  case (Some i)
  show ?thesis
  proof (cases "fd_pConn (fds s ! i) = NULL")
    case True
    with Some kept_refl [OF assms] show ?thesis by (simp add: getpeername_def Let_def)
  next
    case False
    obtain c where "conns s (fd_pConn (fds s ! i)) = Some c"
      "get_conn (fd_pConn (fds s ! i)) s = Some c"
      by (rule fd_get_conn [OF own Some False])
    with Some False kept_refl [OF assms] fd_iface [OF own, of "fd_pConn (fds s ! i)" c] show ?thesis
      by (cases addr) (auto simp: getpeername_def Let_def)
  qed
qed

end
