(* ===== verification/EventCalls.thy ===== *)
theory EventCalls
  imports IoCalls
begin

text \<open>
  The calls of the event API: they keep the invariant, and waiting is defined unless a
  listener points to a descriptor that has no connection yet.
\<close>

section \<open>Registration\<close>

lemma epoll_create1_outcome:
  assumes own: "owned E s gs" and ok: "own_ok s"
  shows "outcome True (epoll_create1 flags s) (\<lambda>(r, s'). kept E s gs s')"
proof (cases "first_slot (\<lambda>p. \<not> pfd_active p) (pollfds s)")
  case None
  then show ?thesis using kept_refl [OF assms] by (simp add: epoll_create1_def getEmptyPollfd_def)
next
  case (Some i)
  let ?t = "(set_pfd i (\<lambda>p. p\<lparr>pfd_active := True\<rparr>) s)\<lparr>randomPollFd := randomPollFd s + 1\<rparr>"
  have "own_ok ?t"
    using own_ok_set_pfd [OF ok, of "\<lambda>p. p\<lparr>pfd_active := True\<rparr>" i] by simp
  then have "own_ok (set_pfd i (\<lambda>p. p\<lparr>pfd_num := randomPollFd s, allFlags := flags\<rparr>) ?t)"
    by (rule own_ok_set_pfd) simp
  moreover have "owned E (set_pfd i g t) gs = owned E t gs" for g and t :: "('a, 'b, 'c) st"
    by (rule owned_cong) simp_all
  ultimately have "kept E s gs (set_pfd i (\<lambda>p. p\<lparr>pfd_num := randomPollFd s, allFlags := flags\<rparr>) ?t)"
    using own by (simp add: kept_def)
  with Some kept_refl [OF assms] show ?thesis
    by (simp add: epoll_create1_def getEmptyPollfd_def Let_def)
qed

lemma getPollfdByNumD:
  assumes "getPollfdByNum n s = Some i"
  shows "i < length (pollfds s)" and "pfd_active (pollfds s ! i)" and "pfd_num (pollfds s ! i) = n"
  using first_slotD [OF assms [unfolded getPollfdByNum_def]] by simp_all

lemma kept_pollfds:
  assumes "kept E s gs t" and "only_pollfds t u" and "own_ok u"
  shows "kept E s gs u"
  using assms by (auto simp: kept_def only_pollfds_def)

lemma epoll_ctl_real_kept:
  assumes own: "owned E s gs" and ok: "own_ok s"
  shows "kept E s gs (snd (epoll_ctl_real E i op sockfd event s))"
proof -
  let ?s1 = "if isMixed (pollfds s ! i) then s
    else let (r, t) = syscall E (SYS_epoll_create1 (allFlags (pollfds s ! i))) s
         in set_pfd i (\<lambda>p. p\<lparr>realPollfd := sys_ret r, isMixed := True\<rparr>) t"
  have k: "kept E s gs ?s1"
  proof (cases "isMixed (pollfds s ! i)")
    case True
    with kept_refl [OF assms] show ?thesis by simp
  next
    case False
    obtain r t where t: "syscall E (SYS_epoll_create1 (allFlags (pollfds s ! i))) s = (r, t)"
      by fastforce
    have kt: "kept E s gs t"
      by (rule kept_syscall [OF t assms])
    have "kept E s gs (set_pfd i (\<lambda>p. p\<lparr>realPollfd := sys_ret r, isMixed := True\<rparr>) t)"
      by (rule kept_pollfds [OF kt only_pollfds_set_pfd], rule own_ok_set_pfd [OF keptD(2) [OF kt]])
        simp
    with False t show ?thesis by simp
  qed
  obtain r u where u: "syscall E (SYS_epoll_ctl (realPollfd (pollfds ?s1 ! i)) op sockfd event) ?s1 = (r, u)"
    by fastforce
  have "kept E s gs u"
    by (rule kept_trans [OF k], rule kept_syscall [OF u keptD(1,2) [OF k]])
  moreover have "epoll_ctl_real E i op sockfd event s = (sys_ret r, u)"
    using u by (simp add: epoll_ctl_real_def Let_def)
  ultimately show ?thesis by simp
qed

text \<open>The listener lookup may drop a listener; afterwards its slot is a valid index.\<close>

lemma getListenerForFd_cases:
  assumes ok: "own_ok s" and i: "i < length (pollfds s)" and op: "getListenerForFd i n s = (r, t)"
  shows "own_ok t" and "only_pollfds s t" and "r = Some j \<Longrightarrow> j < MAX_FDS_LISTEN \<and> t = s"
    and "length (pollfds t) = length (pollfds s)"
proof -
  have len: "length (lfds (pollfds s ! i)) = MAX_FDS_LISTEN"
    using own_okD(6) [OF ok] i by simp
  show "only_pollfds s t"
    by (rule getListenerForFd_only [OF op])
  show "own_ok t"
    using op len ok
    by (auto simp: getListenerForFd_def handleFdCloseInEvents_def dest!: first_slotD(1)
        intro!: own_ok_deleteListener split: option.splits if_splits)
  show "r = Some j \<Longrightarrow> j < MAX_FDS_LISTEN \<and> t = s"
    using op len
    by (auto simp: getListenerForFd_def dest!: first_slotD(1) split: option.splits if_splits)
  show "length (pollfds t) = length (pollfds s)"
    using op by (auto simp: getListenerForFd_def handleFdCloseInEvents_def deleteListener_def
        set_lfd_def split: option.splits if_splits)
qed

lemma getEmptyListener_cases:
  assumes ok: "own_ok s" and i: "i < length (pollfds s)"
  obtains "getEmptyListener i s = (None, s)"
  | j where "getEmptyListener i s = (Some j, set_lfd i j (\<lambda>l. l\<lparr>lfd_active := True\<rparr>) s)"
      and "j < MAX_FDS_LISTEN" and "\<not> lfd_active (lfd_at s i j)"
proof (cases "first_slot (\<lambda>l. \<not> lfd_active l) (lfds (pollfds s ! i))")
  case None
  then show thesis using that(1) by (simp add: getEmptyListener_def)
next
  case (Some j)
  with first_slotD [OF Some] own_okD(6) [OF ok] i that(2) show thesis
    by (simp add: getEmptyListener_def)
qed

lemma set_lfd_twice:
  "i < length (pollfds s) \<Longrightarrow> j < length (lfds (pollfds s ! i)) \<Longrightarrow>
   set_lfd i j h (set_lfd i j g s) = set_lfd i j (\<lambda>l. h (g l)) s"
  by (simp add: set_lfd_def set_pfd_def)

lemma set_lfd_only [simp]: "only_pollfds s (set_lfd i j g s)"
  by (simp add: set_lfd_def)

lemma add_listener_outcome:
  assumes k: "kept E s gs s1" and ok: "own_ok s1" and i: "i < length (pollfds s1)" and fb: "f < MAX_FDS"
  shows "outcome (event \<noteq> None) (case getEmptyListener i s1 of
        (None, s2) \<Rightarrow> fail ENOMEM s2
      | (Some j, s2) \<Rightarrow> do {
          ev \<leftarrow> event;
          Some (0, set_lfd i j (\<lambda>l. set_listener ev (l\<lparr>lfd_fd := f\<rparr>)) s2) })
      (\<lambda>(r, s'). kept E s gs s')"
proof (cases rule: getEmptyListener_cases [OF ok i])
  case 1
  with k show ?thesis by simp
next
  case (2 j)
  have len: "j < length (lfds (pollfds s1 ! i))"
    using own_okD(6) [OF ok] i 2(2) by simp
  have "kept E s gs (set_lfd i j (\<lambda>l. set_listener ev (l\<lparr>lfd_active := True, lfd_fd := f\<rparr>)) s1)"
    for ev
    by (rule kept_pollfds [OF k set_lfd_only], rule own_ok_set_lfd [OF ok])
      (use fb 2(2) in \<open>auto simp: set_listener_def\<close>)
  with 2(1) set_lfd_twice [OF i len] show ?thesis
    by (cases event) simp_all
qed

lemma epoll_ctl_outcome:
  assumes own: "owned E s gs" and ok: "own_ok s"
  shows "outcome (event \<noteq> None \<or> op = EPOLL_CTL_DEL) (epoll_ctl E epfd op sockfd event s)
    (\<lambda>(r, s'). kept E s gs s')"
proof (cases "getPollfdByNum epfd s")
  case None
  then show ?thesis using kept_refl [OF assms] by (simp add: epoll_ctl_def)
next
  case (Some i)
  note i = getPollfdByNumD(1) [OF Some]
  show ?thesis
  proof (cases "sockfd < FD_START \<or> getFdByNum sockfd s = None")
    case True
    with Some kept_refl [OF assms] epoll_ctl_real_kept [OF assms, of i op sockfd event] show ?thesis
      by (auto simp: epoll_ctl_def split_beta)
  next
    case False
    then obtain f where f: "getFdByNum sockfd s = Some f" and real: "\<not> sockfd < FD_START" by auto
    have fb: "f < MAX_FDS"
      using getFdByNumD(1) [OF f] own_okD(3) [OF ok] by simp
    obtain l s1 where l: "getListenerForFd i sockfd s = (l, s1)" by fastforce
    note look = getListenerForFd_cases [OF ok i l]
    have k1: "kept E s gs s1"
      by (rule kept_only_pollfds [OF own look(1,2)])
    have mod: "kept E s gs (set_lfd i j (set_listener ev) s1)" if "l = Some j" for j ev
      by (rule kept_pollfds [OF k1 set_lfd_only], rule own_ok_set_lfd [OF look(1)])
        (use look(3) [OF that] in \<open>auto simp: set_listener_def\<close>)
    have del: "kept E s gs (deleteListener i j s1)" if "l = Some j" for j
      by (rule kept_pollfds [OF k1 deleteListener_only], rule own_ok_deleteListener [OF look(1)])
        (use look(3) [OF that] in simp)
    have i1: "i < length (pollfds s1)" using i look(4) by simp
    note add = add_listener_outcome [OF k1 look(1) i1 fb, of event]
    consider "op = EPOLL_CTL_ADD" | "op = EPOLL_CTL_MOD" | "op = EPOLL_CTL_DEL"
      | "op \<noteq> EPOLL_CTL_ADD" "op \<noteq> EPOLL_CTL_MOD" "op \<noteq> EPOLL_CTL_DEL"
      by blast
    then show ?thesis
    proof cases
      case 1
      with Some f real l k1 add show ?thesis
        by (cases l) (simp_all add: epoll_ctl_def ctl_defs)
    next
      case 2
      with Some f real l k1 mod show ?thesis
        by (cases l; cases event) (simp_all add: epoll_ctl_def ctl_defs)
    next
      case 3
      with Some f real l k1 del show ?thesis
        by (cases l) (simp_all add: epoll_ctl_def ctl_defs)
    next
      case 4
      with Some f real l kept_refl [OF assms] show ?thesis
        by (simp add: epoll_ctl_def)
    qed
  qed
qed

section \<open>Waiting\<close>

text \<open>Event masks are not part of the invariant.\<close>

lemma kept_put_conn:
  assumes own: "owned E s gs" and ok: "own_ok s" and c: "conns s p = Some c"
    and same: "connState c' = connState c" "pAssociatedIface c' = pAssociatedIface c"
      "buf1 c' = buf1 c" "buf2 c' = buf2 c"
  shows "kept E s gs (put_conn p c' s)"
proof -
  have "mem_wf E (put_conn p c' s)"
    by (rule mem_wf_put_conn_same [OF ownedD(1) [OF own] c])
      (use same mem_wf_conn(1) [OF ownedD(1) [OF own] c] in \<open>auto simp: conn_ok_def\<close>)
  then have "owned E (put_conn p c' s) gs"
    by (rule owned_conns [OF own]) (use c same in \<open>simp_all add: put_conn_def skeleton_def\<close>)
  moreover have "own_ok (put_conn p c' s)"
    by (rule own_ok_mem [OF ok]) (use own_okD(2) [OF ok] in \<open>simp_all add: put_conn_def\<close>)
  ultimately show ?thesis by (simp add: kept_def put_conn_def)
qed

lemma setLevelTriggeredEvents_eq:
  assumes "get_conn p s = Some c" and "recvBuffer md c = Some rb"
  shows "setLevelTriggeredEvents E md p s = Some (put_conn p (set_own_lt_events md
    ((if hasDataList E rb then EPOLLIN else 0) OR EPOLLOUT
      OR (if connState c = c_close then EPOLLHUP else 0)) c) s)"
  using assms
  by (cases md) (auto simp: setLevelTriggeredEvents_def SET_EVENT_def view_defs Let_def ac_simps)

text \<open>What a scan of the listeners changes: event masks, dropped listeners, connected sockets.\<close>

definition ready :: "('m, 'l, 'k) st \<Rightarrow> eventListenFd \<Rightarrow> bool" where
  "ready s l \<longleftrightarrow> lfd_active l \<and> fd_active (fds s ! lfd_fd l)
     \<longrightarrow> fstate (fds s ! lfd_fd l) \<noteq> s_created \<and> fstate (fds s ! lfd_fd l) \<noteq> s_bound"

definition listeners_ready :: "nat \<Rightarrow> ('m, 'l, 'k) st \<Rightarrow> bool" where
  "listeners_ready i s \<longleftrightarrow> (\<forall>l \<in> set (lfds (pollfds s ! i)). ready s l)"

lemma kept_masks:
  assumes "owned E s gs" and "own_ok s" and c: "conns s p = Some c"
    and same: "connState c' = connState c" "pAssociatedIface c' = pAssociatedIface c"
      "buf1 c' = buf1 c" "buf2 c' = buf2 c"
  shows "kept E s gs (put_conn p c' s) \<and> fds (put_conn p c' s) = fds s
    \<and> pollfds (put_conn p c' s) = pollfds s
    \<and> map_option skeleton \<circ> conns (put_conn p c' s) = map_option skeleton \<circ> conns s"
  using kept_put_conn [OF assms] same c by (auto simp: put_conn_def skeleton_def fun_eq_iff)

lemma checkAndSetEvents_outcome:
  assumes own: "owned E s gs" and ok: "own_ok s" and l: "l = lfd_at s i j"
    and lf: "lfd_fd l < length (fds s)" "fd_active (fds s ! lfd_fd l)" "lfd_active l"
  shows "outcome (ready s l) (checkAndSetEvents E md i j em evs s)
    (\<lambda>(evs', s'). kept E s gs s' \<and> fds s' = fds s \<and> pollfds s' = pollfds s
       \<and> map_option skeleton \<circ> conns s' = map_option skeleton \<circ> conns s)"
proof -
  let ?f = "fds s ! lfd_fd l" and ?p = "fd_pConn (fds s ! lfd_fd l)"
  have old: "fd_ok s ?f"
    by (rule nth_fd_ok [OF own lf(1)])
  show ?thesis
  proof (cases "fstate ?f = s_created \<or> fstate ?f = s_bound")
    case True
    with old lf(2) have pn: "?p = NULL" by (auto simp: fd_ok_def)
    with True have "checkAndSetEvents E md i j em evs s = None"
      by (auto simp: checkAndSetEvents_def setLevelTriggeredEvents_def get_conn_def l Let_def)
    moreover have "\<not> ready s l"
      using True lf by (simp add: ready_def)
    ultimately show ?thesis by simp
  next
    case False
    with old lf(2) obtain c where c: "conns s ?p = Some c" and fit: "fits (fstate ?f) c"
      by (auto simp: fd_ok_def)
    have get: "get_conn ?p s = Some c"
      using c by (simp add: mem_wf_get_conn [OF ownedD(1) [OF own]])
    have pnn: "?p \<noteq> NULL"
      by (rule mem_wf_conn(3) [OF ownedD(1) [OF own] c])
    note put = kept_masks [OF own ok c]
    show ?thesis
    proof (cases "isLevelTriggered l")
      case False
      with get put kept_refl [OF own ok] show ?thesis
        by (simp add: checkAndSetEvents_def l [symmetric] Let_def)
    next
      case lt: True
      show ?thesis
      proof (cases "fstate ?f = s_listen \<or> fstate ?f = s_connecting")
        case True
        with lt get kept_refl [OF own ok] show ?thesis
          by (auto simp: checkAndSetEvents_def l [symmetric] Let_def)
      next
        case open_: False
        with fit have i: "pAssociatedIface c \<noteq> NULL"
          by (cases "fstate ?f") auto
        obtain rb where rb: "recvBuffer md c = Some rb"
          using chan_buffers [OF ownedD(1) [OF own] c i, of md] by metis
        let ?m = "(if hasDataList E rb then EPOLLIN else 0) OR EPOLLOUT
          OR (if connState c = c_close then EPOLLHUP else 0)"
        let ?c = "set_own_lt_events md ?m c"
        have "get_conn ?p (put_conn ?p ?c s) = Some ?c"
          using pnn by (simp add: get_conn_def put_conn_def)
        with lt open_ put [of ?c] show ?thesis
          by (simp add: checkAndSetEvents_def l [symmetric] Let_def
              setLevelTriggeredEvents_eq [OF get rb])
      qed
    qed
  qed
qed

text \<open>\<open>connectEx\<close> on a descriptor whose connection was accepted in the meantime.\<close>

lemma connectEx_accepted:
  assumes own: "owned E s gs" and k: "getFdByNum n s = Some k"
    and st: "fstate (fds s ! k) = s_connecting"
    and c: "conns s (fd_pConn (fds s ! k)) = Some c" "connState c = c_open"
  shows "connectEx (Suc r) env E md n addr s = Some (Some 0, set_fd k (\<lambda>f. f\<lparr>fstate := s_open\<rparr>) s)"
  using k st c
  by (simp add: connectEx_def wait_for_accept_def connect_round_def checkIfAcceptedConnection_def
      mem_wf_get_conn [OF ownedD(1) [OF own]])

lemma listeners_ready_fds:
  assumes "listeners_ready i s" and "lfds (pollfds s' ! i) = lfds (pollfds s ! i)" and "fds s' = fds s"
  shows "listeners_ready i s'"
  using assms by (simp add: listeners_ready_def ready_def)

lemma listeners_ready_open:
  assumes "listeners_ready i s" and "fstate (fds s ! k) = s_connecting"
  shows "listeners_ready i (set_fd k (\<lambda>f. f\<lparr>fstate := s_open\<rparr>) s)"
proof -
  have "ready (set_fd k (\<lambda>f. f\<lparr>fstate := s_open\<rparr>) s) l" if "ready s l" for l
    using that assms(2)
    by (cases "lfd_fd l = k"; cases "k < length (fds s)")
      (auto simp: ready_def list_update_beyond)
  with assms(1) show ?thesis by (simp add: listeners_ready_def)
qed

lemma listeners_ready_delete:
  assumes "listeners_ready i s"
  shows "listeners_ready i (deleteListener i' j s)"
proof -
  let ?s = "deleteListener i' j s"
  have "ready ?s l" if "l \<in> set (lfds (pollfds ?s ! i))" for l
  proof -
    have "l \<in> set (lfds (pollfds s ! i)) \<or> \<not> lfd_active l"
    proof (cases "i' = i \<and> i < length (pollfds s)")
      case True
      with that have "l \<in> set ((lfds (pollfds s ! i))[j := (lfd_at s i j)\<lparr>lfd_active := False\<rparr>])"
        by (simp add: deleteListener_def set_lfd_def)
      from subsetD [OF set_update_subset_insert this] show ?thesis by auto
    next
      case False
      with that show ?thesis
        by (cases "i' = i") (auto simp: deleteListener_def set_lfd_def list_update_beyond)
    qed
    moreover have "fds ?s = fds s"
      by (simp add: deleteListener_def set_lfd_def)
    ultimately show ?thesis
      using assms by (auto simp: listeners_ready_def ready_def)
  qed
  then show ?thesis by (simp add: listeners_ready_def)
qed

definition scanned ::
  "('m, 'l, 'k) ext \<Rightarrow> nat \<Rightarrow> ('m, 'l, 'k) st \<Rightarrow> fd list \<Rightarrow> ('m, 'l, 'k) st \<Rightarrow> bool" where
  "scanned E i s gs s' \<longleftrightarrow> kept E s gs s' \<and> length (pollfds s') = length (pollfds s)
     \<and> (listeners_ready i s \<longrightarrow> listeners_ready i s')"

lemma scanned_trans: "scanned E i s gs t \<Longrightarrow> scanned E i t gs u \<Longrightarrow> scanned E i s gs u"
  using kept_trans by (auto simp: scanned_def)

lemma scanned_same:
  "kept E s gs t \<Longrightarrow> fds t = fds s \<Longrightarrow> pollfds t = pollfds s \<Longrightarrow> scanned E i s gs t"
  using listeners_ready_fds [of i s t] by (simp add: scanned_def)

text \<open>An active listener refers to a slot of the descriptor table.\<close>

lemma active_listener:
  assumes own: "owned E s gs" and ok: "own_ok s" and i: "i < length (pollfds s)" and j: "j < MAX_FDS_LISTEN"
    and act: "lfd_active (lfd_at s i j)"
  shows "lfd_fd (lfd_at s i j) < length (fds s)" and "fd_ok s (fds s ! lfd_fd (lfd_at s i j))"
proof -
  have "j < length (lfds (pollfds s ! i))"
    using own_okD(6) [OF ok] i j by simp
  then show lf: "lfd_fd (lfd_at s i j) < length (fds s)"
    using own_okD(7) [OF ok nth_mem [OF i] nth_mem act] own_okD(3) [OF ok] by simp
  show "fd_ok s (fds s ! lfd_fd (lfd_at s i j))"
    by (rule nth_fd_ok [OF own lf])
qed

lemma check_scanned:
  assumes own: "owned E s gs" and ok: "own_ok s" and i: "i < length (pollfds s)" and j: "j < MAX_FDS_LISTEN"
    and act: "lfd_active (lfd_at s i j)" "fd_active (fds s ! lfd_fd (lfd_at s i j))"
    and t: "kept E s gs t" "fds t = fds s" "pollfds t = pollfds s"
  shows "outcome (ready s (lfd_at s i j)) (checkAndSetEvents E md i j em evs t)
    (\<lambda>(evs', s'). kept E s gs s' \<and> fds s' = fds s \<and> pollfds s' = pollfds s
      \<and> map_option skeleton \<circ> conns s' = map_option skeleton \<circ> conns t)"
  by (rule outcome_mono [OF checkAndSetEvents_outcome [OF keptD(1,2) [OF t(1)] refl]])
    (use t act active_listener(1) [OF own ok i j act(1)] in \<open>auto simp: ready_def intro: kept_trans\<close>)

text \<open>\<open>epoll_pwait\<close> finishes the connect of a connection that has been accepted.\<close>

lemma scan_finishes_connect:
  assumes own: "owned E s gs" and k: "k < length (fds s)" "fd_active (fds s ! k)"
    and st: "fstate (fds s ! k) = s_connecting"
    and s1: "kept E s gs s1" "fds s1 = fds s" "pollfds s1 = pollfds s"
    and d: "conns s1 (fd_pConn (fds s ! k)) = Some d" "connState d = c_open" "pAssociatedIface d \<noteq> NULL"
  shows "connectEx 1 (\<lambda>_ t. t) E md (num (fds s1 ! k)) None s1 =
      Some (Some 0, set_fd k (\<lambda>f. f\<lparr>fstate := s_open\<rparr>) s1)" (is ?connect)
    and "scanned E i s gs (set_fd k (\<lambda>f. f\<lparr>fstate := s_open\<rparr>) s1)"
proof -
  have "getFdByNum (num (fds s ! k)) s1 = Some k"
    unfolding getFdByNum_iff [OF keptD(2) [OF s1(1)]] using k by (simp add: s1)
  then show ?connect
    unfolding One_nat_def
    by (intro connectEx_accepted [OF keptD(1) [OF s1(1)], of _ _ d]) (use d st s1 in simp_all)
  have "kept E s1 gs (set_fd k (\<lambda>f. f\<lparr>fstate := s_open\<rparr>) s1)"
    by (rule kept_set_fd [OF keptD(1,2) [OF s1(1)]]) (use k s1 d in \<open>auto simp: fd_ok_def\<close>)
  then have "kept E s gs (set_fd k (\<lambda>f. f\<lparr>fstate := s_open\<rparr>) s1)"
    by (rule kept_trans [OF s1(1)])
  moreover have "listeners_ready i (set_fd k (\<lambda>f. f\<lparr>fstate := s_open\<rparr>) s1)" if "listeners_ready i s"
    by (rule listeners_ready_open) (use listeners_ready_fds [OF that, of s1] s1 st in simp_all)
  ultimately show "scanned E i s gs (set_fd k (\<lambda>f. f\<lparr>fstate := s_open\<rparr>) s1)"
    by (simp add: scanned_def s1)
qed

lemma scan_connecting_outcome:
  assumes own: "owned E s gs" and ok: "own_ok s" and i: "i < length (pollfds s)" and j: "j < MAX_FDS_LISTEN"
    and act: "lfd_active (lfd_at s i j)" "fd_active (fds s ! k)" and k: "k = lfd_fd (lfd_at s i j)"
    and st: "fstate (fds s ! k) = s_connecting"
    and c: "conns s (fd_pConn (fds s ! k)) = Some c" "connState c = c_open" "pAssociatedIface c \<noteq> NULL"
    and t: "kept E s gs t" "fds t = fds s" "pollfds t = pollfds s"
      "map_option skeleton (conns t (fd_pConn (fds s ! k))) = Some (skeleton c)"
  shows "outcome (ready s (lfd_at s i j)) (do {
      (evs1, s1) \<leftarrow> checkAndSetEvents E md i j em evs t;
      (_, s2) \<leftarrow> connectEx 1 (\<lambda>_ t. t) E md (num (fds s1 ! k)) None s1;
      Some (evs1, s2) }) (\<lambda>(evs', s'). scanned E i s gs s')"
proof (rule outcome_bind [OF check_scanned [OF own ok i j act(1) act(2) [unfolded k] t(1-3)]])
  fix x :: "epoll_event list \<times> ('a, 'b, 'c) st"
  obtain evs1 s1 where x: "x = (evs1, s1)" by fastforce
  assume "case x of (evs', s') \<Rightarrow> kept E s gs s' \<and> fds s' = fds s \<and> pollfds s' = pollfds s
      \<and> map_option skeleton \<circ> conns s' = map_option skeleton \<circ> conns t"
  then have s1: "kept E s gs s1" "fds s1 = fds s" "pollfds s1 = pollfds s"
    and sk: "map_option skeleton (conns s1 (fd_pConn (fds s ! k))) = Some (skeleton c)"
    using t(4) by (auto simp: x fun_eq_iff)
  from sk obtain d where d: "conns s1 (fd_pConn (fds s ! k)) = Some d" "connState d = c_open"
    "pAssociatedIface d \<noteq> NULL"
    using c by (auto simp: skeleton_def)
  have "k < length (fds s)"
    unfolding k by (rule active_listener(1) [OF own ok i j act(1)])
  from scan_finishes_connect [OF own this act(2) st s1 d]
  show "outcome (ready s (lfd_at s i j)) ((\<lambda>(evs1, s1). do {
      (_, s2) \<leftarrow> connectEx 1 (\<lambda>_ t. t) E md (num (fds s1 ! k)) None s1;
      Some (evs1, s2) }) x) (\<lambda>(evs', s'). scanned E i s gs s')"
    by (simp add: x)
qed

text \<open>A listener on a socket that listens or connects, and one on a connected socket.\<close>

lemma scan_setup_outcome:
  assumes own: "owned E s gs" and ok: "own_ok s" and i: "i < length (pollfds s)" and j: "j < MAX_FDS_LISTEN"
    and act: "lfd_active (lfd_at s i j)" "fd_active (fds s ! lfd_fd (lfd_at s i j))"
    and st: "fstate (fds s ! lfd_fd (lfd_at s i j)) = s_listen
      \<or> fstate (fds s ! lfd_fd (lfd_at s i j)) = s_connecting"
  shows "outcome (ready s (lfd_at s i j)) (scan_listener E md i j evs s) (\<lambda>(evs', s'). scanned E i s gs s')"
proof -
  let ?l = "lfd_at s i j"
  let ?f = "fds s ! lfd_fd ?l" and ?p = "fd_pConn (fds s ! lfd_fd ?l)"
  note wf = ownedD(1) [OF own]
  obtain c where c: "conns s ?p = Some c" "fits (fstate ?f) c"
    using active_listener(2) [OF own ok i j act(1)] act(2) st by (auto simp: fd_ok_def)
  have get: "get_conn ?p s = Some c"
    using c by (simp add: mem_wf_get_conn [OF wf])
  let ?c2 = "set_own_lt_events md (SET_EVENT (own_lt_events md
      (set_own_events md (SET_EVENT (own_events md c) EPOLLIN) c)) EPOLLIN)
      (set_own_events md (SET_EVENT (own_events md c) EPOLLIN) c)"
  let ?clear = "put_conn ?p (set_own_lt_events md (CLEAR_EVENT (own_lt_events md c) EPOLLIN) c) s"
  let ?set = "put_conn ?p ?c2 s"
  have kset: "kept E s gs ?set" "fds ?set = fds s" "pollfds ?set = pollfds s"
    by (rule kept_put_conn [OF own ok c(1)]; simp) (simp_all add: put_conn_def)
  have "kept E s gs ?clear"
    by (rule kept_put_conn [OF own ok c(1)]) auto
  then have kclear: "scanned E i s gs ?clear"
    by (rule scanned_same) (simp_all add: put_conn_def)
  show ?thesis
  proof (cases "fstate ?f = s_listen")
    case True
    have "outcome (ready s ?l) (checkAndSetEvents E md i j EPOLLIN evs ?set) (\<lambda>(evs', s'). scanned E i s gs s')"
      by (rule outcome_mono [OF check_scanned [OF own ok i j act kset]]) (auto intro: scanned_same)
    with act True get kclear show ?thesis
      by (simp add: scan_listener_def Let_def searchNewConnectionOnAnyIface_eq [OF wf own_okD(1) [OF ok]])
  next
    case False
    with st have st': "fstate ?f = s_connecting" by simp
    show ?thesis
    proof (cases "connState c = c_open")
      case True
      have "pAssociatedIface c \<noteq> NULL"
        using c(2) st' by simp
      moreover have "map_option skeleton (conns ?set ?p) = Some (skeleton c)"
        by (simp add: put_conn_def skeleton_def)
      ultimately show ?thesis
        using scan_connecting_outcome [OF own ok i j act refl st' c(1) True _ kset] act st' True get
        by (simp add: scan_listener_def Let_def checkIfAcceptedConnection_def del: One_nat_def)
    qed (use act st' get kclear in \<open>simp add: scan_listener_def Let_def checkIfAcceptedConnection_def\<close>)
  qed
qed

lemma scan_listener_outcome:
  assumes own: "owned E s gs" and ok: "own_ok s" and i: "i < length (pollfds s)"
    and j: "j < MAX_FDS_LISTEN"
  shows "outcome (ready s (lfd_at s i j)) (scan_listener E md i j evs s)
    (\<lambda>(evs', s'). scanned E i s gs s')"
proof -
  let ?l = "lfd_at s i j"
  let ?f = "fds s ! lfd_fd ?l"
  have same: "kept E s gs s" by (rule kept_refl [OF own ok])
  consider "\<not> lfd_active ?l" | "lfd_active ?l" "\<not> fd_active ?f"
    | "lfd_active ?l" "fd_active ?f" "fstate ?f = s_listen \<or> fstate ?f = s_connecting"
    | "lfd_active ?l" "fd_active ?f" "fstate ?f \<noteq> s_listen" "fstate ?f \<noteq> s_connecting"
    by blast
  then show ?thesis
  proof cases
    case 1
    with same show ?thesis by (simp add: scan_listener_def scanned_def Let_def)
  next
    case 2
    have "kept E s gs (deleteListener i j s)"
      by (rule kept_only_pollfds [OF own own_ok_deleteListener [OF ok j] deleteListener_only])
    moreover have "length (pollfds (deleteListener i j s)) = length (pollfds s)"
      by (simp add: deleteListener_def set_lfd_def)
    ultimately show ?thesis
      using 2 listeners_ready_delete [of i s i j]
      by (simp add: scan_listener_def scanned_def handleFdCloseInEvents_def Let_def)
  next
    case 3
    show ?thesis by (rule scan_setup_outcome [OF own ok i j 3])
  next
    case 4
    have "outcome (ready s ?l) (checkAndSetEvents E md i j (ev_events (lfd_event ?l)) evs s)
        (\<lambda>(evs', s'). scanned E i s gs s')"
      by (rule outcome_mono [OF check_scanned [OF own ok i j 4(1,2) same refl refl]]) (auto intro: scanned_same)
    with 4 show ?thesis by (simp add: scan_listener_def Let_def)
  qed
qed

lemma scan_listeners_outcome:
  assumes "owned E s gs" and "own_ok s" and "i < length (pollfds s)"
    and "\<forall>j \<in> set js. j < MAX_FDS_LISTEN"
  shows "outcome (listeners_ready i s) (scan_listeners E md i maxevents js evs s)
    (\<lambda>(evs', s'). scanned E i s gs s')"
  using assms
proof (induction js arbitrary: evs s)
  case Nil
  then show ?case by (simp add: scanned_same kept_refl)
next
  case (Cons j js)
  have j: "j < MAX_FDS_LISTEN" using Cons.prems(4) by simp
  have "j < length (lfds (pollfds s ! i))"
    using own_okD(6) [OF Cons.prems(2)] Cons.prems(3) j by simp
  then have rdy: "ready s (lfd_at s i j)" if "listeners_ready i s"
    using that by (simp add: listeners_ready_def)
  have "outcome (listeners_ready i s) (do {
        (evs1, s1) \<leftarrow> scan_listener E md i j evs s;
        scan_listeners E md i maxevents js evs1 s1 }) (\<lambda>(evs', s'). scanned E i s gs s')"
  proof (rule outcome_bind)
    show "outcome (listeners_ready i s) (scan_listener E md i j evs s)
        (\<lambda>(evs', s'). scanned E i s gs s')"
      by (rule outcome_mono [OF scan_listener_outcome [OF Cons.prems(1-3) j]]) (use rdy in auto)
    fix x :: "epoll_event list \<times> ('a, 'b, 'c) st"
    obtain evs1 s1 where x: "x = (evs1, s1)" by fastforce
    assume "case x of (evs', s') \<Rightarrow> scanned E i s gs s'"
    then have s1: "scanned E i s gs s1" by (simp add: x)
    then have k: "owned E s1 gs" "own_ok s1" "i < length (pollfds s1)"
      "listeners_ready i s \<Longrightarrow> listeners_ready i s1"
      using Cons.prems(3) by (simp_all add: scanned_def kept_def)
    have "outcome (listeners_ready i s1) (scan_listeners E md i maxevents js evs1 s1)
        (\<lambda>(evs', s'). scanned E i s1 gs s')"
      by (rule Cons.IH [OF k(1-3)]) (use Cons.prems(4) in simp)
    then have "outcome (listeners_ready i s) (scan_listeners E md i maxevents js evs1 s1)
        (\<lambda>(evs', s'). scanned E i s gs s')"
      by (rule outcome_mono) (use k(4) in \<open>auto intro: scanned_trans [OF s1]\<close>)
    then show "outcome (listeners_ready i s) ((\<lambda>(evs1, s1).
        scan_listeners E md i maxevents js evs1 s1) x) (\<lambda>(evs', s'). scanned E i s gs s')"
      by (simp add: x)
  qed
  then show ?case
    using scanned_same [OF kept_refl [OF Cons.prems(1,2)] refl refl, of i] by simp
qed

lemma real_events_scanned:
  assumes own: "owned E s gs" and ok: "own_ok s"
  shows "scanned E i s gs (snd (real_events E i maxevents evs s))"
proof (cases "isMixed (pollfds s ! i)")
  case False
  then show ?thesis
    using scanned_same [OF kept_refl [OF assms] refl refl] by (simp add: real_events_def)
next
  case True
  obtain r t where t: "syscall E (SYS_epoll_wait (realPollfd (pollfds s ! i))
      (maxevents - int (length evs)) 0) s = (r, t)"
    by fastforce
  have "scanned E i s gs t"
    by (rule scanned_same [OF kept_syscall [OF t assms]]) (use syscall_frame [OF t] in auto)
  with True t show ?thesis by (simp add: real_events_def)
qed

lemma epoll_round_outcome:
  assumes own: "owned E s gs" and ok: "own_ok s" and i: "i < length (pollfds s)"
  shows "outcome (listeners_ready i s \<and> (timeout = -1
      \<or> int_ok (timeout * 1000) \<and> int_ok (int k * SLEEP_DURATION)))
    (epoll_round E md i maxevents timeout k s) (\<lambda>(r, s'). scanned E i s gs s')"
  unfolding epoll_round_def
proof (rule outcome_bind)
  let ?V = "listeners_ready i s \<and> (timeout = -1
      \<or> int_ok (timeout * 1000) \<and> int_ok (int k * SLEEP_DURATION))"
  show "outcome ?V (scan_listeners E md i maxevents [0..<MAX_FDS_LISTEN] [] s)
      (\<lambda>(evs, s'). scanned E i s gs s')"
    by (rule outcome_mono [OF scan_listeners_outcome [OF assms]]) auto
  fix x :: "epoll_event list \<times> ('a, 'b, 'c) st"
  obtain evs s1 where x: "x = (evs, s1)" by fastforce
  assume "case x of (evs, s') \<Rightarrow> scanned E i s gs s'"
  then have s1: "scanned E i s gs s1" by (simp add: x)
  obtain evs2 s2 where r: "real_events E i maxevents evs s1 = (evs2, s2)" by fastforce
  have "scanned E i s1 gs s2"
    using real_events_scanned [of E s1 gs i maxevents evs] s1 r by (simp add: scanned_def kept_def)
  then have "scanned E i s gs s2"
    by (rule scanned_trans [OF s1])
  then show "outcome ?V ((\<lambda>(evs, s1). do {
     let (evs2, s2) = real_events E i maxevents evs s1;
     if evs2 \<noteq> [] then Some (Some (int (length evs2), evs2), s2)
     else if timeout = -1 then Some (None, s2)
     else if \<not> (int_ok (timeout * 1000) \<and> int_ok (int k * SLEEP_DURATION)) then None
     else if int k * SLEEP_DURATION > timeout * 1000 then Some (Some (0, []), s2)
     else Some (None, s2) }) x) (\<lambda>(r, s'). scanned E i s gs s')"
    by (auto simp: x r)
qed

lemma epoll_pwait_outcome:
  assumes own: "owned E s gs" and ok: "own_ok s"
  shows "outcome ((\<forall>i. getPollfdByNum epfd s = Some i \<longrightarrow> listeners_ready i s)
      \<and> (timeout = -1 \<or> int_ok (timeout * 1000)))
    (epoll_pwait 1 (\<lambda>_ t. t) E md epfd maxevents timeout s) (\<lambda>(r, s'). kept E s gs s')"
proof (cases "getPollfdByNum epfd s")
  case None
  then show ?thesis using kept_refl [OF assms] by (simp add: epoll_pwait_def)
next
  case (Some i)
  have z: "int_ok (int 0 * SLEEP_DURATION)" by (simp add: int_ok_def)
  have round: "outcome (listeners_ready i s \<and> (timeout = -1 \<or> int_ok (timeout * 1000)))
      (epoll_round E md i maxevents timeout 0 s) (\<lambda>(r, s'). kept E s gs s')"
    by (rule outcome_mono [OF epoll_round_outcome [OF assms getPollfdByNumD(1) [OF Some]]])
      (use z in \<open>auto simp: scanned_def\<close>)
  show ?thesis
    using round Some
    by (cases "epoll_round E md i maxevents timeout 0 s")
      (auto simp: epoll_pwait_def split: option.splits)
qed

text \<open>
  A wait with a timeout returns after at most \<open>10 * timeout + 1\<close> sleeps, whatever the rest of
  the system does in them, as long as it respects the invariant.
\<close>

lemma epoll_round_total:
  assumes I: "(\<exists>gs. owned E s gs) \<and> own_ok s \<and> i < length (pollfds s) \<and> listeners_ready i s"
    and "int_ok (timeout * 1000)" and "int_ok (int k * SLEEP_DURATION)"
  shows "\<exists>r s'. epoll_round E md i maxevents timeout k s = Some (r, s')
    \<and> (\<exists>gs. owned E s' gs) \<and> own_ok s' \<and> i < length (pollfds s') \<and> listeners_ready i s'"
proof -
  obtain gs where s: "owned E s gs" "own_ok s" "i < length (pollfds s)"
    using I by blast
  obtain x where "epoll_round E md i maxevents timeout k s = Some x"
    and "(\<lambda>(r, s'). scanned E i s gs s') x"
    using outcome_returns [OF epoll_round_outcome [OF s, of timeout k md maxevents]] assms
    by blast
  then show ?thesis
    using I by (cases x) (auto simp: scanned_def kept_def)
qed

lemma epoll_round_gives_up:
  assumes "timeout * 1000 < int k * SLEEP_DURATION" and "timeout \<noteq> -1"
  shows "epoll_round E md i maxevents timeout k s \<noteq> Some (None, s')"
  using assms
  by (auto simp: epoll_round_def Let_def split: Option.bind_splits prod.splits if_splits)

lemma epoll_pwait_returns:
  assumes timeout: "0 \<le> timeout" "timeout \<le> 2147483" and n: "10 * nat timeout + 2 \<le> n"
    and env: "\<And>k t. (\<exists>gs. owned E t gs) \<and> own_ok t \<and> i < length (pollfds t) \<and> listeners_ready i t
       \<Longrightarrow> (\<exists>gs. owned E (env k t) gs) \<and> own_ok (env k t) \<and> i < length (pollfds (env k t))
         \<and> listeners_ready i (env k t)"
    and I: "(\<exists>gs. owned E s gs) \<and> own_ok s \<and> listeners_ready i s"
    and i: "getPollfdByNum epfd s = Some i"
  shows "\<exists>v s'. epoll_pwait n env E md epfd maxevents timeout s = Some (Some v, s')
    \<and> (\<exists>gs. owned E s' gs) \<and> own_ok s' \<and> i < length (pollfds s') \<and> listeners_ready i s'"
proof -
  let ?I = "\<lambda>t. (\<exists>gs. owned E t gs) \<and> own_ok t \<and> i < length (pollfds t) \<and> listeners_ready i t"
  let ?b = "10 * nat timeout + 1"
  have ok: "int_ok (timeout * 1000)"
    using timeout by (simp add: int_ok_def)
  have "\<exists>v s'. wait_loop n env 0 (epoll_round E md i maxevents timeout) s = Some (Some v, s') \<and> ?I s'"
  proof (rule wait_loop_terminates [where I = ?I and b = ?b])
    show "\<exists>r s'. epoll_round E md i maxevents timeout j t = Some (r, s') \<and> ?I s'"
      if "?I t" "j \<le> ?b" for j t
    proof (rule epoll_round_total [OF that(1) ok])
      have "int j \<le> int ?b" using that(2) by (rule zle_int [THEN iffD2])
      then show "int_ok (int j * SLEEP_DURATION)"
        using timeout by (simp add: int_ok_def SLEEP_DURATION_def)
    qed
    show "epoll_round E md i maxevents timeout j t \<noteq> Some (None, t')" if "?I t" "?b \<le> j" for j t t'
    proof (rule epoll_round_gives_up)
      have "int ?b \<le> int j" using that(2) by (rule zle_int [THEN iffD2])
      then show "timeout * 1000 < int j * SLEEP_DURATION"
        using timeout by (simp add: SLEEP_DURATION_def)
    qed (use timeout in simp)
    show "?I s" using I getPollfdByNumD(1) [OF i] by blast
  qed (use env n in simp_all)
  then show ?thesis
    using i by (simp add: epoll_pwait_def)
qed

end
