(* ===== verification/Polling.thy ===== *)
theory Polling
  imports EventCalls
begin

text \<open>
  \<open>poll\<close> and \<open>ppoll\<close> on their static epoll descriptor: as long as its listeners are those of
  the current call, every event that comes back names an entry of the caller's array, so the
  calls are defined and keep the invariant.
\<close>

section \<open>The listeners of the current call\<close>

text \<open>
  The slot \<open>i\<close> of the epoll table has no descriptor of the kernel, and its listeners carry an
  index below \<open>n\<close> and can be waited for.
\<close>

definition poll_slot :: "nat \<Rightarrow> nat \<Rightarrow> ('m, 'l, 'k) st \<Rightarrow> bool" where
  "poll_slot n i s \<longleftrightarrow> \<not> isMixed (pollfds s ! i)
     \<and> (\<forall>l \<in> set (lfds (pollfds s ! i)). ready s l \<and> (lfd_active l \<longrightarrow> poll_index (lfd_event l) < n))"

lemma poll_slot_ready: "poll_slot n i s \<Longrightarrow> listeners_ready i s"
  by (simp add: poll_slot_def listeners_ready_def)

lemma poll_slot_mono: "poll_slot n i s \<Longrightarrow> n \<le> m \<Longrightarrow> poll_slot m i s"
  by (auto simp: poll_slot_def)

lemma poll_slot_cong:
  assumes "pollfds s' = pollfds s" and "fds s' = fds s"
  shows "poll_slot n i s' = poll_slot n i s"
  using assms by (simp add: poll_slot_def ready_def)

lemma poll_slot_errno [simp]: "poll_slot n i (s\<lparr>errno := e\<rparr>) = poll_slot n i s"
  by (rule poll_slot_cong) simp_all

lemma ready_set_lfd [simp]: "ready (set_lfd i j g s) l = ready s l"
  by (simp add: ready_def set_lfd_def)

lemma poll_slot_set_lfd:
  assumes "poll_slot n i s"
    and "ready s (g (lfd_at s i j)) \<and> (lfd_active (g (lfd_at s i j)) \<longrightarrow>
           poll_index (lfd_event (g (lfd_at s i j))) < n)"
  shows "poll_slot n i (set_lfd i j g s)"
proof (cases "i < length (pollfds s)")
  case True
  have "ready s l \<and> (lfd_active l \<longrightarrow> poll_index (lfd_event l) < n)"
    if "l \<in> set ((lfds (pollfds s ! i))[j := g (lfd_at s i j)])" for l
    using subsetD [OF set_update_subset_insert that] assms by (auto simp: poll_slot_def)
  with True assms(1) show ?thesis
    unfolding poll_slot_def ready_set_lfd by (simp add: set_lfd_def)
next
  case False
  with assms(1) show ?thesis
    unfolding poll_slot_def ready_set_lfd by (simp add: set_lfd_def list_update_beyond)
qed

lemma poll_slot_delete: "poll_slot n i s \<Longrightarrow> poll_slot n i (deleteListener i j s)"
  unfolding deleteListener_def by (rule poll_slot_set_lfd) (auto simp: ready_def)

lemma getPollfdByNum_set_lfd [simp]: "getPollfdByNum n (set_lfd i j g s) = getPollfdByNum n s"
  by (simp add: getPollfdByNum_def set_lfd_def first_slot_update)

lemma set_lfd_fds [simp]: "fds (set_lfd i j g s) = fds s" "length (pollfds (set_lfd i j g s)) = length (pollfds s)"
  by (simp_all add: set_lfd_def)

text \<open>The same for the descriptor with number \<open>epfd\<close>, if there is one.\<close>

definition poll_listeners :: "nat \<Rightarrow> int \<Rightarrow> ('m, 'l, 'k) st \<Rightarrow> bool" where
  "poll_listeners n epfd s \<longleftrightarrow> (\<forall>i. getPollfdByNum epfd s = Some i \<longrightarrow> poll_slot n i s)"

text \<open>The lookup drops a listener at most.\<close>

lemma getListenerForFd_slot:
  assumes "getListenerForFd i fd s = (l, t)" and "poll_slot n i s"
  shows "poll_slot n i t" and "fds t = fds s" and "getPollfdByNum epfd t = getPollfdByNum epfd s"
  using assms poll_slot_delete [of n i s]
  by (auto simp: getListenerForFd_def handleFdCloseInEvents_def deleteListener_def
      split: option.splits if_splits)

section \<open>Registration\<close>

text \<open>A descriptor that may be polled: one of the library, connected or listening.\<close>

definition pollable :: "('m, 'l, 'k) st \<Rightarrow> int \<Rightarrow> bool" where
  "pollable s fd \<longleftrightarrow> FD_START \<le> fd \<and> (\<forall>f. getFdByNum fd s = Some f \<longrightarrow>
     fstate (fds s ! f) \<noteq> s_created \<and> fstate (fds s ! f) \<noteq> s_bound)"

lemma pollable_cong: "fds s' = fds s \<Longrightarrow> pollable s' fd = pollable s fd"
  by (simp add: pollable_def getFdByNum_def)

lemma modified_slot:
  assumes slot: "poll_slot n i s" and ok: "own_ok s" and ij: "i < length (pollfds s)" "j < MAX_FDS_LISTEN"
    and e: "poll_index e < n"
  shows "poll_slot n i (set_lfd i j (set_listener e) s)"
proof (rule poll_slot_set_lfd [OF slot])
  have "j < length (lfds (pollfds s ! i))"
    using ij own_okD(6) [OF ok] by simp
  then have "ready s (lfd_at s i j)"
    using slot by (simp add: poll_slot_def)
  then show "ready s (set_listener e (lfd_at s i j)) \<and> (lfd_active (set_listener e (lfd_at s i j)) \<longrightarrow>
      poll_index (lfd_event (set_listener e (lfd_at s i j))) < n)"
    using e by (simp add: set_listener_def ready_def)
qed

lemma epoll_ctl_slot:
  assumes slot: "poll_slot n i s" and i: "getPollfdByNum epfd s = Some i" and ok: "own_ok s"
    and fd: "pollable s fd" and ev: "\<And>e. event = Some e \<Longrightarrow> poll_index e < n"
    and op: "epoll_ctl E epfd op fd event s = Some (r, s')"
  shows "poll_slot n i s' \<and> fds s' = fds s \<and> getPollfdByNum epfd s' = Some i"
proof (cases "getFdByNum fd s")
  case None
  with op i fd slot show ?thesis
    by (auto simp: epoll_ctl_def fail_def pollable_def getPollfdByNum_def)
next
  case (Some f)
  obtain l s1 where l: "getListenerForFd i fd s = (l, s1)" by fastforce
  note s1 = getListenerForFd_slot [OF l slot]
  have ok1: "own_ok s1" and i1: "i < length (pollfds s1)"
    using getListenerForFd_cases(1,4) [OF ok getPollfdByNumD(1) [OF i] l] getPollfdByNumD(1) [OF i]
    by simp_all
  have rf: "fstate (fds s ! f) \<noteq> s_created" "fstate (fds s ! f) \<noteq> s_bound"
    using fd Some by (simp_all add: pollable_def)
  have add: "poll_slot n i (set_lfd i j (\<lambda>l. set_listener e (l\<lparr>lfd_active := True, lfd_fd := f\<rparr>)) s1)"
    if "event = Some e" for e j
    by (rule poll_slot_set_lfd [OF s1(1)]) (use ev [OF that] rf s1(2) in \<open>simp add: set_listener_def ready_def\<close>)
  have mod: "poll_slot n i (set_lfd i j (set_listener e) s1)" if "event = Some e" "l = Some j" for e j
    by (rule modified_slot [OF s1(1) ok1 i1])
      (use ev [OF that(1)] getListenerForFd_cases(3) [OF ok getPollfdByNumD(1) [OF i] l that(2)] in simp_all)
  have twice: "set_lfd i j h (set_lfd i j g s1) = set_lfd i j (\<lambda>l. h (g l)) s1"
    if "j < MAX_FDS_LISTEN" for j h g
    by (rule set_lfd_twice [OF i1]) (use own_okD(6) [OF ok1] i1 that in simp)
  have err: "poll_slot n i (s1\<lparr>errno := e\<rparr>) \<and> fds (s1\<lparr>errno := e\<rparr>) = fds s
      \<and> getPollfdByNum epfd (s1\<lparr>errno := e\<rparr>) = Some i" for e
    using s1 i by (simp add: getPollfdByNum_def)
  have real: "\<not> fd < FD_START" using fd by (simp add: pollable_def)
  consider "op = EPOLL_CTL_ADD" | "op = EPOLL_CTL_MOD" | "op = EPOLL_CTL_DEL"
    | "op \<noteq> EPOLL_CTL_ADD" "op \<noteq> EPOLL_CTL_MOD" "op \<noteq> EPOLL_CTL_DEL" by blast
  then show ?thesis
  proof cases
    case 1
    show ?thesis
    proof (cases rule: getEmptyListener_cases [OF ok1 i1])
      case a: 1
      with 1 op i Some real l err show ?thesis
        by (auto simp: epoll_ctl_def ctl_defs fail_def split: option.splits)
    next
      case a: (2 j)
      with 1 op i Some real l err add s1 show ?thesis
        by (auto simp: epoll_ctl_def ctl_defs fail_def twice split: option.splits Option.bind_splits)
    qed
  next
    case 2
    with op i Some real l err mod s1 show ?thesis
      by (auto simp: epoll_ctl_def ctl_defs fail_def split: option.splits Option.bind_splits)
  next
    case 3
    with op i Some real l err poll_slot_delete [OF s1(1)] s1 show ?thesis
      by (auto simp: epoll_ctl_def ctl_defs fail_def deleteListener_def split: option.splits)
  next
    case 4
    with op i Some real l slot show ?thesis
      by (auto simp: epoll_ctl_def fail_def getPollfdByNum_def)
  qed
qed


lemma epoll_ctl_listeners:
  assumes "poll_listeners n epfd s" and "own_ok s" and "pollable s fd"
    and "\<And>e. event = Some e \<Longrightarrow> poll_index e < n"
    and op: "epoll_ctl E epfd op fd event s = Some (r, s')"
  shows "poll_listeners n epfd s' \<and> fds s' = fds s"
proof (cases "getPollfdByNum epfd s")
  case None
  with op have "s' = s\<lparr>errno := EBADF\<rparr>" by (simp add: epoll_ctl_def fail_def)
  with None show ?thesis by (simp add: poll_listeners_def getPollfdByNum_def)
next
  case (Some i)
  then have "poll_slot n i s" using assms(1) by (simp add: poll_listeners_def)
  from epoll_ctl_slot [OF this Some assms(2-4) op] show ?thesis
    by (simp add: poll_listeners_def)
qed

lemma poll_index_of_nat: "poll_index \<lparr>ev_events = m, ev_data = word_of_nat k\<rparr> \<le> k"
  by (simp add: poll_index_def unsigned_ucast_eq unsigned_of_nat take_bit_eq_mod)

lemma poll_add_outcome:
  assumes "owned E s gs" and "own_ok s" and "poll_listeners n epfd s"
    and "\<forall>p \<in> set ps. pollable s (poll_fd p)" and "k + length ps \<le> n"
  shows "outcome True (poll_add E epfd k ps s) (\<lambda>(r, s'). kept E s gs s' \<and> poll_listeners n epfd s')"
  using assms
proof (induction ps arbitrary: k s)
  case Nil
  then show ?case by (simp add: kept_refl)
next
  case (Cons p ps)
  let ?ev = "\<lparr>ev_events = scast (poll_events p), ev_data = word_of_nat k\<rparr>"
  have n: "poll_index ?ev < n"
    by (rule le_less_trans [OF poll_index_of_nat]) (use Cons.prems(5) in simp)
  obtain r s1 where ctl: "epoll_ctl E epfd EPOLL_CTL_ADD (poll_fd p) (Some ?ev) s = Some (r, s1)"
    and k1: "kept E s gs s1"
    using outcome_returns [OF epoll_ctl_outcome [OF Cons.prems(1,2), of "Some ?ev"]] by fastforce
  have slot: "poll_listeners n epfd s1 \<and> fds s1 = fds s"
    by (rule epoll_ctl_listeners [OF Cons.prems(3,2) _ _ ctl]) (use Cons.prems(4) n in auto)
  show ?case
  proof (cases "r = -1")
    case True
    with ctl k1 slot show ?thesis by simp
  next
    case False
    have "outcome True (poll_add E epfd (Suc k) ps s1) (\<lambda>(r, s'). kept E s1 gs s' \<and> poll_listeners n epfd s')"
      by (rule Cons.IH) (use keptD(1,2) [OF k1] slot Cons.prems(4,5) pollable_cong [of s1 s] in auto)
    then have "outcome True (poll_add E epfd (Suc k) ps s1) (\<lambda>(r, s'). kept E s gs s' \<and> poll_listeners n epfd s')"
      by (rule outcome_mono) (auto intro: kept_trans [OF k1])
    with False ctl show ?thesis by simp
  qed
qed

lemma poll_add_kept:
  "owned E s gs \<Longrightarrow> own_ok s \<Longrightarrow> poll_add E epfd k ps s = Some (r, s') \<Longrightarrow> kept E s gs s'"
proof (induction ps arbitrary: k s)
  case Nil
  then show ?case by (simp add: kept_refl)
next
  case (Cons p ps)
  then obtain q s1 where ctl: "epoll_ctl E epfd EPOLL_CTL_ADD (poll_fd p)
      (Some \<lparr>ev_events = scast (poll_events p), ev_data = word_of_nat k\<rparr>) s = Some (q, s1)"
    and rest: "s' = s1 \<or> poll_add E epfd (Suc k) ps s1 = Some (r, s')"
    by (auto split: Option.bind_splits if_splits)
  have k1: "kept E s gs s1"
    using outcome_result [OF epoll_ctl_outcome [OF Cons.prems(1,2)] ctl] by simp
  with rest Cons.IH [OF keptD(1,2) [OF k1]] show ?case
    using kept_trans [OF k1] by blast
qed

lemma poll_del_outcome:
  assumes "owned E s gs" and "own_ok s"
  shows "outcome True (poll_del E epfd ps s) (\<lambda>(r, s'). kept E s gs s')"
  using assms
proof (induction ps arbitrary: s)
  case Nil
  then show ?case by (simp add: kept_refl)
next
  case (Cons p ps)
  obtain r s1 where ctl: "epoll_ctl E epfd EPOLL_CTL_DEL (poll_fd p) None s = Some (r, s1)"
    and k1: "kept E s gs s1"
    using outcome_returns [OF epoll_ctl_outcome [OF Cons.prems, of None EPOLL_CTL_DEL]] by fastforce
  have "outcome True (poll_del E epfd ps s1) (\<lambda>(r, s'). kept E s gs s')"
    by (rule outcome_mono [OF Cons.IH [OF keptD(1,2) [OF k1]]]) (auto intro: kept_trans [OF k1])
  with ctl k1 show ?case by simp
qed

section \<open>Waiting\<close>

text \<open>What a scan stores are events of the listeners.\<close>

lemma checkAndSetEvents_stores:
  assumes "checkAndSetEvents E md i j em evs s = Some (evs', s')"
  shows "pollfds s' = pollfds s
    \<and> (\<forall>e \<in> set evs'. e \<in> set evs \<or> poll_index e = poll_index (lfd_event (lfd_at s i j)))"
  using assms
  by (auto simp: checkAndSetEvents_def setLevelTriggeredEvents_def Let_def put_conn_def poll_index_def
      split: if_splits Option.bind_splits)

lemma connectEx_pollfds:
  "connectEx 1 (\<lambda>_ t. t) E md n None s = Some (r, s') \<Longrightarrow> pollfds s' = pollfds s"
  by (auto simp: connectEx_def start_connect_def wait_for_accept_def connect_round_def
      split: if_splits option.splits Option.bind_splits sum.splits)

lemma scan_listener_stores:
  assumes op: "scan_listener E md i j evs s = Some (evs', s')"
    and act: "lfd_active (lfd_at s i j) \<Longrightarrow> poll_index (lfd_event (lfd_at s i j)) < n"
    and evs: "\<forall>e \<in> set evs. poll_index e < n"
  shows "\<forall>e \<in> set evs'. poll_index e < n" and "pollfds s' = pollfds s \<or> s' = deleteListener i j s"
proof -
  consider "\<not> lfd_active (lfd_at s i j)" | "lfd_active (lfd_at s i j)" "\<not> fd_active (fds s ! lfd_fd (lfd_at s i j))"
    | "lfd_active (lfd_at s i j)" "fd_active (fds s ! lfd_fd (lfd_at s i j))" by blast
  then have "(\<forall>e \<in> set evs'. poll_index e < n) \<and> (pollfds s' = pollfds s \<or> s' = deleteListener i j s)"
  proof cases
    case 3
    have put: "pollfds (put_conn p c t) = pollfds t" for p c and t :: "('a, 'b, 'c) st"
      by (simp add: put_conn_def)
    from 3 op evs act show ?thesis
      unfolding scan_listener_def Let_def
      by (auto simp del: One_nat_def simp: put split: if_splits Option.bind_splits
          dest!: checkAndSetEvents_stores connectEx_pollfds)
  qed (use op evs in \<open>auto simp: scan_listener_def handleFdCloseInEvents_def Let_def\<close>)
  then show "\<forall>e \<in> set evs'. poll_index e < n" "pollfds s' = pollfds s \<or> s' = deleteListener i j s"
    by simp_all
qed


lemma poll_slot_indexed:
  assumes "poll_slot n i s" and "listeners_ready i s'"
    and "pollfds s' = pollfds s \<or> s' = deleteListener i j s"
  shows "poll_slot n i s'"
proof -
  have "poll_slot n i (deleteListener i j s)" by (rule poll_slot_delete [OF assms(1)])
  with assms show ?thesis
    by (auto simp: poll_slot_def listeners_ready_def)
qed

lemma scan_listeners_stores:
  assumes "owned E s gs" and "own_ok s" and "i < length (pollfds s)"
    and "\<forall>j \<in> set js. j < MAX_FDS_LISTEN" and "poll_slot n i s"
    and "\<forall>e \<in> set evs. poll_index e < n"
    and "scan_listeners E md i m js evs s = Some (evs', s')"
  shows "(\<forall>e \<in> set evs'. poll_index e < n) \<and> poll_slot n i s'"
  using assms
proof (induction js arbitrary: evs s)
  case (Cons j js)
  show ?case
  proof (cases "int (length evs) < m")
    case True
    with Cons.prems(7) obtain evs1 s1 where one: "scan_listener E md i j evs s = Some (evs1, s1)"
      and rest: "scan_listeners E md i m js evs1 s1 = Some (evs', s')"
      by (auto split: Option.bind_splits)
    have sc: "scanned E i s gs s1"
      using outcome_result [OF scan_listener_outcome [OF Cons.prems(1-3)] one] Cons.prems(4) by simp
    have "j < length (lfds (pollfds s ! i))"
      using own_okD(6) [OF Cons.prems(2)] Cons.prems(3,4) by simp
    then have "lfd_active (lfd_at s i j) \<Longrightarrow> poll_index (lfd_event (lfd_at s i j)) < n"
      using Cons.prems(5) by (simp add: poll_slot_def)
    note st = scan_listener_stores [OF one this Cons.prems(6)]
    have "poll_slot n i s1"
      using poll_slot_indexed [OF Cons.prems(5) _ st(2)] sc poll_slot_ready [OF Cons.prems(5)]
      by (simp add: scanned_def)
    with Cons.IH [OF _ _ _ _ _ st(1) rest] sc Cons.prems(3,4) show ?thesis
      by (simp add: scanned_def kept_def)
  qed (use Cons.prems in simp)
qed simp

lemma epoll_pwait_stores:
  assumes own: "owned E s gs" and ok: "own_ok s"
    and slot: "\<And>i. getPollfdByNum epfd s = Some i \<Longrightarrow> poll_slot n i s"
    and op: "epoll_pwait 1 (\<lambda>_ t. t) E md epfd m timeout s = Some (Some (r, evs), s')"
  shows "\<forall>e \<in> set evs. poll_index e < n"
proof (cases "getPollfdByNum epfd s")
  case None
  with op show ?thesis by (auto simp: epoll_pwait_def)
next
  case (Some i)
  with op obtain t where round: "epoll_round E md i m timeout 0 s = Some (Some (r, evs), t)"
    by (auto simp: epoll_pwait_def split: option.splits Option.bind_splits)
  then obtain evs1 s1 where sc: "scan_listeners E md i m [0..<MAX_FDS_LISTEN] [] s = Some (evs1, s1)"
    by (auto simp: epoll_round_def split: Option.bind_splits)
  have "(\<forall>e \<in> set evs1. poll_index e < n) \<and> poll_slot n i s1"
    by (rule scan_listeners_stores [OF own ok getPollfdByNumD(1) [OF Some] _ slot [OF Some] _ sc]) auto
  with round sc show ?thesis
    by (auto simp: epoll_round_def real_events_def poll_slot_def Let_def split: if_splits)
qed

lemma poll_store_defined:
  "\<forall>e \<in> set evs. poll_index e < length ps \<Longrightarrow> \<exists>ps'. poll_store evs ps = Some ps' \<and> length ps' = length ps"
proof (induction evs arbitrary: ps)
  case (Cons e evs)
  with Cons.IH [of "ps[poll_index e := (ps ! poll_index e)\<lparr>poll_revents := ucast (ev_events e)\<rparr>]"]
  show ?case by (simp add: Let_def)
qed simp

section \<open>The calls\<close>

text \<open>The condition under which a process may go on with a poll that has slept.\<close>

definition polling :: "pollfd list \<Rightarrow> int \<Rightarrow> int \<Rightarrow> ('m, 'l, 'k) st \<Rightarrow> bool" where
  "polling ps timeout epfd s \<longleftrightarrow> poll_listeners (length ps) epfd s
     \<and> (timeout = -1 \<or> int_ok (timeout * 1000))"

lemma poll_wait_outcome:
  assumes own: "owned E s gs" and ok: "own_ok s"
  shows "outcome (polling ps timeout epfd s) (poll_wait 1 (\<lambda>_ t. t) E md epfd ps timeout s)
    (\<lambda>(r, s'). kept E s gs s')"
  unfolding poll_wait_def epoll_wait_def
proof (rule outcomeI)
  let ?w = "epoll_pwait 1 (\<lambda>_ t. t) E md epfd (int (length ps)) timeout s"
  have wait: "outcome (polling ps timeout epfd s) ?w (\<lambda>(r, s'). kept E s gs s')"
    by (rule outcome_mono [OF epoll_pwait_outcome [OF assms]])
      (auto simp: polling_def poll_listeners_def intro: poll_slot_ready)
  have del: "\<exists>d s2. poll_del E epfd ps s1 = Some (d, s2) \<and> kept E s gs s2" if "kept E s gs s1" for s1
    using outcome_returns [OF poll_del_outcome [OF keptD(1,2) [OF that]], of epfd ps]
      kept_trans [OF that] by auto
  {
    assume V: "polling ps timeout epfd s"
    obtain w s1 where w: "?w = Some (w, s1)" "kept E s gs s1"
      using outcome_returns [OF wait V] by auto
    show "?w \<bind> (\<lambda>(w, s1). case w of None \<Rightarrow> Some (None, s1)
        | Some (ret, evs) \<Rightarrow> do {
            ps1 \<leftarrow> poll_store evs (map (\<lambda>p. p\<lparr>poll_revents := 0\<rparr>) ps);
            (d, s2) \<leftarrow> poll_del E epfd ps s1;
            Some (Some (if d = -1 then -1 else ret, ps1), s2) }) \<noteq> None"
    proof (cases w)
      case None
      with w(1) show ?thesis by (simp del: One_nat_def)
    next
      case (Some x)
      obtain r evs where x: "x = (r, evs)" by fastforce
      have "\<forall>e \<in> set evs. poll_index e < length ps"
        by (rule epoll_pwait_stores [OF own ok _ w(1) [unfolded Some x]]) (use V in \<open>simp add: polling_def poll_listeners_def\<close>)
      then obtain ps1 where "poll_store evs (map (\<lambda>p. p\<lparr>poll_revents := 0\<rparr>) ps) = Some ps1"
        using poll_store_defined [of evs "map (\<lambda>p. p\<lparr>poll_revents := 0\<rparr>) ps"] by auto
      with w(1) Some x del [OF w(2)] show ?thesis by (auto simp del: One_nat_def)
    qed
  }
  fix x
  assume "?w \<bind> (\<lambda>(w, s1). case w of None \<Rightarrow> Some (None, s1)
        | Some (ret, evs) \<Rightarrow> do {
            ps1 \<leftarrow> poll_store evs (map (\<lambda>p. p\<lparr>poll_revents := 0\<rparr>) ps);
            (d, s2) \<leftarrow> poll_del E epfd ps s1;
            Some (Some (if d = -1 then -1 else ret, ps1), s2) }) = Some x"
  then obtain w s1 where w: "?w = Some (w, s1)"
    and x: "x = (None, s1) \<or> (\<exists>r d s2. poll_del E epfd ps s1 = Some (d, s2) \<and> x = (r, s2))"
    by (auto simp del: One_nat_def split: Option.bind_splits option.splits)
  have "kept E s gs s1"
    using outcome_result [OF wait w] by simp
  with x del show "case x of (r, s') \<Rightarrow> kept E s gs s'"
    by fastforce
qed

text \<open>The static descriptor: a new one at the first call, otherwise the one there is.\<close>

lemma poll_descriptor_kept:
  assumes "owned E s gs" and "own_ok s"
  obtains epfd s1 where "poll_descriptor s = Some (epfd, s1)" and "kept E s gs s1"
    and "fds s1 = fds s"
proof -
  obtain r t where t: "epoll_create1 0 s = Some (r, t)" "kept E s gs t"
    using outcome_returns [OF epoll_create1_outcome [OF assms, of 0] TrueI] by auto
  have "fds t = fds s"
    using t(1) by (auto simp: epoll_create1_def fail_def getEmptyPollfd_def Let_def
        split: if_splits option.splits)
  moreover have "kept E s gs (t\<lparr>poll_epollfd := r\<rparr>)"
    using t(2) by (simp add: kept_def)
  ultimately have new: "kept E s gs (t\<lparr>poll_epollfd := r\<rparr>)" "fds (t\<lparr>poll_epollfd := r\<rparr>) = fds s"
    by simp_all
  show thesis
  proof (cases "poll_epollfd s = -1")
    case True
    then have "poll_descriptor s = Some (r, t\<lparr>poll_epollfd := r\<rparr>)"
      by (simp add: poll_descriptor_def t(1))
    then show thesis by (rule that [OF _ new])
  next
    case False
    then have "poll_descriptor s = Some (poll_epollfd s, s)"
      by (simp add: poll_descriptor_def)
    then show thesis by (rule that [OF _ kept_refl [OF assms] refl])
  qed
qed

text \<open>Nothing is left from an earlier poll.\<close>

definition poll_clean :: "('m, 'l, 'k) st \<Rightarrow> bool" where
  "poll_clean s \<longleftrightarrow> (case poll_descriptor s of None \<Rightarrow> False
     | Some (epfd, s1) \<Rightarrow> epfd \<noteq> -1 \<longrightarrow> poll_listeners 0 epfd s1)"

definition poll_args :: "pollfd list \<Rightarrow> int \<Rightarrow> ('m, 'l, 'k) st \<Rightarrow> bool" where
  "poll_args ps timeout s \<longleftrightarrow> poll_clean s \<and> (\<forall>p \<in> set ps. pollable s (poll_fd p))
     \<and> (timeout = -1 \<or> int_ok (timeout * 1000))"


lemma poll_outcome:
  assumes own: "owned E s gs" and ok: "own_ok s"
  shows "outcome (poll_args ps timeout s) (poll 1 (\<lambda>_ t. t) E md ps timeout s)
    (\<lambda>(r, s'). kept E s gs s')"
proof -
  obtain epfd s1 where d: "poll_descriptor s = Some (epfd, s1)" "kept E s gs s1" "fds s1 = fds s"
    by (rule poll_descriptor_kept [OF assms])
  show ?thesis
  proof (cases "epfd = -1")
    case True
    with d show ?thesis by (simp add: poll_def del: One_nat_def)
  next
    case False
    have V: "poll_args ps timeout s \<Longrightarrow> poll_listeners 0 epfd s1"
      using False d(1) by (simp add: poll_args_def poll_clean_def)
    have kept: "kept E s gs t" if "kept E s1 gs t" for t by (rule kept_trans [OF d(2) that])
    show ?thesis
    proof (rule outcomeI)
      assume A: "poll_args ps timeout s"
      have pl: "poll_listeners (length ps) epfd s1"
        using V [OF A] by (auto simp: poll_listeners_def intro: poll_slot_mono)
      have "\<forall>p \<in> set ps. pollable s1 (poll_fd p)"
        using A pollable_cong [OF d(3)] by (simp add: poll_args_def)
      from outcome_returns [OF poll_add_outcome [OF keptD(1,2) [OF d(2)] pl this, of 0] TrueI]
      obtain r s2 where a: "poll_add E epfd 0 ps s1 = Some (r, s2)" "kept E s1 gs s2"
        "poll_listeners (length ps) epfd s2" by auto
      have "polling ps timeout epfd s2"
        using A a(3) by (simp add: polling_def poll_args_def)
      from outcome_returns [OF poll_wait_outcome [OF keptD(1,2) [OF a(2)]] this, of md]
      show "poll 1 (\<lambda>_ t. t) E md ps timeout s \<noteq> None"
        using d(1) a(1) False by (auto simp: poll_def simp del: One_nat_def split: prod.splits)
    next
      fix x
      assume "poll 1 (\<lambda>_ t. t) E md ps timeout s = Some x"
      then obtain r s2 where a: "poll_add E epfd 0 ps s1 = Some (r, s2)"
        and x: "x = (Some (-1, ps), s2) \<or> poll_wait 1 (\<lambda>_ t. t) E md epfd ps timeout s2 = Some x"
        using d(1) False by (auto simp: poll_def simp del: One_nat_def split: Option.bind_splits if_splits)
      have s2: "kept E s gs s2"
        by (rule kept [OF poll_add_kept [OF keptD(1,2) [OF d(2)] a]])
      show "case x of (r, s') \<Rightarrow> kept E s gs s'"
        using x outcome_result [OF poll_wait_outcome [OF keptD(1,2) [OF s2], where md = md]]
          s2 kept_trans [OF s2] by fastforce
    qed
  qed
qed

lemma ppoll_outcome:
  assumes "owned E s gs" and "own_ok s"
  shows "outcome (\<exists>t. ppoll_timeout tmo = Some t \<and> poll_args ps t s)
    (ppoll 1 (\<lambda>_ t. t) E md ps tmo s) (\<lambda>(r, s'). kept E s gs s')"
proof (cases "ppoll_timeout tmo")
  case None
  then show ?thesis by (simp add: ppoll_def)
next
  case (Some t)
  with poll_outcome [OF assms, of ps t md] show ?thesis by (simp add: ppoll_def)
qed

end
