(* ===== verification/World.thy ===== *)
theory World
  imports Polling
begin

text \<open>
  Two processes, one compiled as server and one as client, on the same shared memory.  A
  step is one call of the API by one of them, a blocking call one round of its loop; what
  the call leaves in shared memory is what the other process sees next.
\<close>

section \<open>Calls\<close>

datatype call =
    C_socket "32 word" "32 word" "32 word"
  | C_bind int "sockaddr_in option"
  | C_listen int int
  | C_accept4 int "sockaddr_in option" "32 word"
  | C_connect int "sockaddr_in option"
  | C_connectEx int "sockaddr_in option"
  | C_send int "byte list" "64 word" "32 word"
  | C_sendmsg int "(byte list \<times> 64 word) list" "32 word"
  | C_recv int "64 word" "32 word"
  | C_shutdown int int
  | C_close int
  | C_fcntl int int "64 word"
  | C_getsockname int "sockaddr_in option"
  | C_getpeername int "sockaddr_in option"
  | C_epoll_create1 int
  | C_epoll_ctl int int int "epoll_event option"
  | C_epoll_pwait int int int
  | C_accept int "sockaddr_in option"
  | C_read int "64 word"
  | C_write int "byte list" "64 word"
  | C_recvmsg int
  | C_ioctl int nat ptr
  | C_fcntl64 int int "64 word"
  | C_getsockopt int
  | C_setsockopt int
  | C_epoll_wait int int int
  | C_poll "pollfd list" int
  | C_ppoll "pollfd list" "timespec option"
  | C_poll_again "pollfd list" int

text \<open>
  The value a call returns, with the bytes \<open>recv\<close> stores.  A blocking call that would sleep
  returns no value; the process calls it again, \<open>connect\<close> as \<open>connectEx\<close>, \<open>poll\<close> as the wait that
  follows its registration (\<open>C_poll_again\<close>).
\<close>

definition bytes_of :: "(int \<times> byte list) option \<Rightarrow> byte list" where
  "bytes_of r = (case r of None \<Rightarrow> [] | Some v \<Rightarrow> snd v)"

definition plain :: "(int \<times> 's) option \<Rightarrow> ((int option \<times> byte list) \<times> 's) option" where
  "plain m = map_option (\<lambda>(r, s). ((Some r, []), s)) m"

fun exec ::
  "('m, 'l, 'k) ext \<Rightarrow> mode \<Rightarrow> call \<Rightarrow> ('m, 'l, 'k) st
    \<Rightarrow> ((int option \<times> byte list) \<times> ('m, 'l, 'k) st) option" where
  "exec E md (C_socket domain type protocol) s = plain (socket domain type protocol s)"
| "exec E md (C_bind fd addr) s = plain (bind fd addr s)"
| "exec E md (C_listen fd backlog) s = plain (listen E md fd backlog s)"
| "exec E md (C_accept4 fd addr flags) s =
     map_option (\<lambda>(r, s'). ((map_option fst r, []), s')) (accept4 1 (\<lambda>_ t. t) E md fd addr flags s)"
| "exec E md (C_connect fd addr) s =
     map_option (\<lambda>(r, s'). ((r, []), s')) (connect 1 (\<lambda>_ t. t) E md fd addr s)"
| "exec E md (C_connectEx fd addr) s =
     map_option (\<lambda>(r, s'). ((r, []), s')) (connectEx 1 (\<lambda>_ t. t) E md fd addr s)"
| "exec E md (C_send fd buf len flags) s = plain (send E md fd buf len flags s)"
| "exec E md (C_sendmsg fd iov flags) s = plain (sendmsg E md fd iov flags s)"
| "exec E md (C_recv fd len flags) s =
     map_option (\<lambda>(r, s'). ((map_option fst r, bytes_of r), s'))
       (recv 1 (\<lambda>_ t. t) E md fd len flags s)"
| "exec E md (C_shutdown fd how) s = plain (shutdown fd how s)"
| "exec E md (C_close fd) s = plain (close E md fd s)"
| "exec E md (C_fcntl fd cmd arg) s = plain (fcntl E fd cmd arg s)"
| "exec E md (C_getsockname fd addr) s =
     map_option (\<lambda>(r, _, s'). ((Some r, []), s')) (getsockname md fd addr s)"
| "exec E md (C_getpeername fd addr) s =
     map_option (\<lambda>(r, _, s'). ((Some r, []), s')) (getpeername md fd addr s)"
| "exec E md (C_epoll_create1 flags) s = plain (epoll_create1 flags s)"
| "exec E md (C_epoll_ctl epfd op fd event) s = plain (epoll_ctl E epfd op fd event s)"
| "exec E md (C_epoll_pwait epfd maxevents timeout) s =
     map_option (\<lambda>(r, s'). ((map_option fst r, []), s'))
       (epoll_pwait 1 (\<lambda>_ t. t) E md epfd maxevents timeout s)"
| "exec E md (C_accept fd addr) s =
     map_option (\<lambda>(r, s'). ((map_option fst r, []), s')) (accept 1 (\<lambda>_ t. t) E md fd addr s)"
| "exec E md (C_read fd count) s =
     map_option (\<lambda>(r, s'). ((map_option fst r, bytes_of r), s')) (read 1 (\<lambda>_ t. t) E md fd count s)"
| "exec E md (C_write fd buf count) s = plain (write_api E md fd buf count s)"
| "exec E md (C_recvmsg fd) s = plain (Some (recvmsg fd s))"
| "exec E md (C_ioctl fd request argp) s = plain (Some (ioctl E fd request argp s))"
| "exec E md (C_fcntl64 fd cmd arg) s = plain (fcntl64 E fd cmd arg s)"
| "exec E md (C_getsockopt fd) s = plain (Some (getsockopt fd s))"
| "exec E md (C_setsockopt fd) s = plain (Some (setsockopt fd s))"
| "exec E md (C_epoll_wait epfd maxevents timeout) s =
     map_option (\<lambda>(r, s'). ((map_option fst r, []), s'))
       (epoll_wait 1 (\<lambda>_ t. t) E md epfd maxevents timeout s)"
| "exec E md (C_poll ps timeout) s =
     map_option (\<lambda>(r, s'). ((map_option fst r, []), s')) (poll 1 (\<lambda>_ t. t) E md ps timeout s)"
| "exec E md (C_ppoll ps tmo) s =
     map_option (\<lambda>(r, s'). ((map_option fst r, []), s')) (ppoll 1 (\<lambda>_ t. t) E md ps tmo s)"
| "exec E md (C_poll_again ps timeout) s =
     map_option (\<lambda>(r, s'). ((map_option fst r, []), s'))
       (poll_wait 1 (\<lambda>_ t. t) E md (poll_epollfd s) ps timeout s)"

text \<open>
  What the caller has to provide: pointers where the code dereferences them, buffers as long
  as the lengths say, a free descriptor for \<open>accept\<close>, listeners on sockets that have a
  connection for \<open>epoll_pwait\<close>, and for \<open>poll\<close> connected or listening sockets of the library and
  an epoll descriptor without the listeners of an earlier call.
\<close>

fun valid :: "('m, 'l, 'k) ext \<Rightarrow> call \<Rightarrow> ('m, 'l, 'k) st \<Rightarrow> bool" where
  "valid E (C_bind fd addr) s \<longleftrightarrow> addr \<noteq> None"
| "valid E (C_listen fd backlog) s \<longleftrightarrow> never_full E"
| "valid E (C_accept4 fd addr flags) s \<longleftrightarrow> addr \<noteq> None \<and> (\<exists>f \<in> set (fds s). \<not> fd_active f)"
| "valid E (C_connect fd addr) s \<longleftrightarrow> never_full E \<and> addr \<noteq> None"
| "valid E (C_connectEx fd addr) s \<longleftrightarrow> never_full E \<and> addr \<noteq> None"
| "valid E (C_send fd buf len flags) s \<longleftrightarrow> never_full E \<and> send_args buf len"
| "valid E (C_sendmsg fd iov flags) s \<longleftrightarrow> never_full E \<and> (\<forall>(buf, len) \<in> set iov. send_args buf len)"
| "valid E (C_recv fd len flags) s \<longleftrightarrow> 0 \<le> size_to_int len"
| "valid E (C_getsockname fd addr) s \<longleftrightarrow> addr \<noteq> None"
| "valid E (C_getpeername fd addr) s \<longleftrightarrow> addr \<noteq> None"
| "valid E (C_epoll_ctl epfd op fd event) s \<longleftrightarrow> event \<noteq> None \<or> op = EPOLL_CTL_DEL"
| "valid E (C_epoll_pwait epfd maxevents timeout) s \<longleftrightarrow>
     (\<forall>i. getPollfdByNum epfd s = Some i \<longrightarrow> listeners_ready i s)
     \<and> (timeout = -1 \<or> int_ok (timeout * 1000))"
| "valid E (C_accept fd addr) s \<longleftrightarrow> addr \<noteq> None \<and> (\<exists>f \<in> set (fds s). \<not> fd_active f)"
| "valid E (C_read fd count) s \<longleftrightarrow> fd < FD_START \<or> 0 \<le> size_to_int count"
| "valid E (C_write fd buf count) s \<longleftrightarrow> fd < FD_START \<or> never_full E \<and> send_args buf count"
| "valid E (C_epoll_wait epfd maxevents timeout) s \<longleftrightarrow>
     (\<forall>i. getPollfdByNum epfd s = Some i \<longrightarrow> listeners_ready i s)
     \<and> (timeout = -1 \<or> int_ok (timeout * 1000))"
| "valid E (C_poll ps timeout) s \<longleftrightarrow> poll_args ps timeout s"
| "valid E (C_ppoll ps tmo) s \<longleftrightarrow> (\<exists>t. ppoll_timeout tmo = Some t \<and> poll_args ps t s)"
| "valid E (C_poll_again ps timeout) s \<longleftrightarrow> polling ps timeout (poll_epollfd s) s"
| "valid E _ s \<longleftrightarrow> True"

lemma outcome_map_option: "outcome V (map_option f m) Q = outcome V m (\<lambda>x. Q (f x))"
  by (cases m) simp_all

lemma outcome_plain: "outcome V (plain m) Q = outcome V m (\<lambda>(r, s). Q ((Some r, []), s))"
  by (cases m) (auto simp: plain_def)

lemma accept_outcome:
  "owned E s gs \<Longrightarrow> own_ok s \<Longrightarrow> outcome (addr \<noteq> None \<and> (\<exists>f \<in> set (fds s). \<not> fd_active f))
    (accept 1 (\<lambda>_ t. t) E md fd addr s) (\<lambda>(r, s'). kept E s gs s')"
  unfolding accept_def by (rule accept4_outcome)

lemma read_outcome:
  assumes "owned E s gs" and "own_ok s"
  shows "outcome (fd < FD_START \<or> 0 \<le> size_to_int count) (read 1 (\<lambda>_ t. t) E md fd count s)
    (\<lambda>(r, s'). kept E s gs s')"
  using recv_outcome [OF assms, of count md fd 0] kept_syscall [OF _ assms]
  by (cases "fd < FD_START") (auto simp: read_def split: prod.splits)

lemma write_outcome:
  assumes "owned E s gs" and "own_ok s"
  shows "outcome (fd < FD_START \<or> never_full E \<and> send_args buf count) (write_api E md fd buf count s)
    (\<lambda>(r, s'). kept E s gs s')"
  using send_outcome [OF assms, of buf count md fd 0] kept_syscall [OF _ assms]
  by (cases "fd < FD_START") (auto simp: write_api_def split: prod.splits)

lemma ioctl_outcome:
  assumes "owned E s gs" and "own_ok s"
  shows "outcome True (Some (ioctl E fd request argp s)) (\<lambda>(r, s'). kept E s gs s')"
  using kept_refl [OF assms] kept_syscall [OF _ assms] by (auto simp: ioctl_def split: prod.splits)

lemma stub_outcomes:
  assumes "owned E s gs" and "own_ok s"
  shows "outcome True (Some (recvmsg fd s)) (\<lambda>(r, s'). kept E s gs s')"
    and "outcome True (Some (getsockopt fd s)) (\<lambda>(r, s'). kept E s gs s')"
    and "outcome True (Some (setsockopt fd s)) (\<lambda>(r, s'). kept E s gs s')"
  using kept_refl [OF assms] by (simp_all add: recvmsg_def getsockopt_def setsockopt_def)

lemmas call_outcomes = socket_outcome bind_outcome listen_outcome accept4_outcome connect_outcome
  connectEx_outcome send_outcome sendmsg_outcome recv_outcome shutdown_outcome close_outcome
  fcntl_outcome getsockname_outcome getpeername_outcome epoll_create1_outcome epoll_ctl_outcome
  epoll_pwait_outcome epoll_pwait_outcome [folded epoll_wait_def] fcntl_outcome [folded fcntl64_def]
  accept_outcome read_outcome write_outcome ioctl_outcome stub_outcomes poll_outcome ppoll_outcome
  poll_wait_outcome

lemma exec_outcome:
  assumes "owned E s gs" and "own_ok s"
  shows "outcome (valid E c s) (exec E md c s) (\<lambda>(r, s'). kept E s gs s')"
  using call_outcomes [OF assms]
  by (cases c)
    (simp_all only: exec.simps valid.simps outcome_plain outcome_map_option case_prod_unfold
      fst_conv snd_conv)

section \<open>Worlds\<close>

type_synonym ('m, 'l, 'k) world = "mode \<Rightarrow> ('m, 'l, 'k) st"

text \<open>The parts of the state both processes see.\<close>

definition share :: "('m, 'l, 'k) st \<Rightarrow> ('m, 'l, 'k) st \<Rightarrow> ('m, 'l, 'k) st" where
  "share s t = t\<lparr>heap := heap s, ifaces := ifaces s, conns := conns s, bufs := bufs s,
     kern := kern s, files := files s\<rparr>"

definition commit :: "mode \<Rightarrow> ('m, 'l, 'k) st \<Rightarrow> ('m, 'l, 'k) world \<Rightarrow> ('m, 'l, 'k) world" where
  "commit md s' w = (\<lambda>m. if m = md then s' else share s' (w m))"

definition shared_ok :: "('m, 'l, 'k) world \<Rightarrow> bool" where
  "shared_ok w \<longleftrightarrow> share (w Server) (w Client) = w Client"

definition world_ok :: "('m, 'l, 'k) ext \<Rightarrow> ('m, 'l, 'k) world \<Rightarrow> bool" where
  "world_ok E w \<longleftrightarrow> shared_ok w \<and> (\<forall>md. owned E (w md) (fds (w (peer md))) \<and> own_ok (w md))"

inductive wstep :: "('m, 'l, 'k) ext \<Rightarrow> ('m, 'l, 'k) world \<Rightarrow> ('m, 'l, 'k) world \<Rightarrow> bool"
  for E :: "('m, 'l, 'k) ext" where
  call: "exec E md c (w md) = Some (r, s') \<Longrightarrow> wstep E w (commit md s' w)"

inductive_cases wstepE: "wstep E w w'"

inductive reachable ::
  "('m, 'l, 'k) ext \<Rightarrow> ('m, 'l, 'k) world \<Rightarrow> ('m, 'l, 'k) world \<Rightarrow> bool"
  for E :: "('m, 'l, 'k) ext" and w0 :: "('m, 'l, 'k) world" where
  start: "reachable E w0 w0"
| step: "reachable E w0 w \<Longrightarrow> wstep E w w' \<Longrightarrow> reachable E w0 w'"

lemma share_sel [simp]:
  "heap (share s t) = heap s" "ifaces (share s t) = ifaces s" "conns (share s t) = conns s"
  "bufs (share s t) = bufs s" "fds (share s t) = fds t" "interfaces (share s t) = interfaces t"
  "currentMaxFd (share s t) = currentMaxFd t" "pollfds (share s t) = pollfds t"
  "cur_ctx (share s t) = cur_ctx t" "kern (share s t) = kern s" "files (share s t) = files s"
  by (simp_all add: share_def)

lemma shared_okD:
  assumes "shared_ok w"
  shows "heap (w md) = heap (w md')" and "ifaces (w md) = ifaces (w md')"
    and "conns (w md) = conns (w md')" and "bufs (w md) = bufs (w md')"
    and "kern (w md) = kern (w md')" and "files (w md) = files (w md')"
proof -
  have eq: "share (w Server) (w Client) = w Client"
    using assms by (simp add: shared_ok_def)
  have "heap (w Client) = heap (w Server) \<and> ifaces (w Client) = ifaces (w Server)
    \<and> conns (w Client) = conns (w Server) \<and> bufs (w Client) = bufs (w Server)
    \<and> kern (w Client) = kern (w Server) \<and> files (w Client) = files (w Server)"
    by (subst (1 2 3 4 5 6) eq [symmetric]) simp
  then show "heap (w md) = heap (w md')" "ifaces (w md) = ifaces (w md')"
    "conns (w md) = conns (w md')" "bufs (w md) = bufs (w md')" "kern (w md) = kern (w md')"
    "files (w md) = files (w md')"
    by (cases md; cases md'; simp)+
qed

lemma shared_ok_commit: "shared_ok (commit md s' w)"
  by (cases md) (simp_all add: shared_ok_def commit_def share_def)

text \<open>The invariant seen from the other process.\<close>

lemma owned_swap:
  assumes own: "owned E s (fds t)"
    and "heap t = heap s" "ifaces t = ifaces s" "conns t = conns s" "bufs t = bufs s"
  shows "owned E t (fds s)"
proof (rule ownedI)
  show "mem_wf E t"
    using ownedD(1) [OF own] mem_wf_cong [OF assms(2-5)] by simp
  have ok: "fd_ok t f = fd_ok s f" for f
    by (rule fd_ok_cong) (simp add: assms)
  show "fd_ok t f" if "f \<in> set (fds t)" for f
    using ownedD(3) [OF own that] by (simp add: ok)
  show "fd_ok t f" if "f \<in> set (fds s)" for f
    using ownedD(2) [OF own that] by (simp add: ok)
  show "refs p (fds t) + refs p (fds s) = expected (conns t p)" if "p \<noteq> NULL" for p
    using ownedD(4) [OF own that] by (simp add: assms add.commute)
qed

lemma wstep_world_ok:
  assumes w: "world_ok E w" and step: "wstep E w w'"
  shows "world_ok E w'"
proof -
  from step obtain md c r s' where w': "w' = commit md s' w"
    and ex: "exec E md c (w md) = Some (r, s')"
    by (rule wstepE) blast
  have own: "owned E (w md) (fds (w (peer md)))" "own_ok (w md)" "own_ok (w (peer md))"
    and sh: "shared_ok w"
    using w by (simp_all add: world_ok_def)
  have k: "kept E (w md) (fds (w (peer md))) s'"
    using outcome_result [OF exec_outcome [OF own(1,2)] ex] by simp
  let ?t = "share s' (w (peer md))"
  have "owned E ?t (fds s')"
    by (rule owned_swap) (use keptD(1) [OF k] in simp_all)
  moreover have "own_ok ?t"
  proof (rule own_ok_mem [OF own(3)])
    show "dom (ifaces (w (peer md))) \<subseteq> dom (ifaces ?t)"
      using keptD(3) [OF k] shared_okD(2) [OF sh, of "peer md" md] by simp
  qed (use own_okD(2) [OF own(3)] in simp_all)
  ultimately have "owned E (w' m) (fds (w' (peer m))) \<and> own_ok (w' m)" for m
    using keptD(1,2) [OF k] by (cases m; cases md) (simp_all add: w' commit_def)
  then show ?thesis
    using shared_ok_commit by (simp add: world_ok_def w')
qed

lemma reachable_ok:
  assumes "reachable E w0 w" and "world_ok E w0"
  shows "world_ok E w"
  using assms by induction (auto intro: wstep_world_ok)

section \<open>After registration\<close>

text \<open>Both processes have their interfaces and have not called the API yet.\<close>

definition booted :: "('m, 'l, 'k) ext \<Rightarrow> ('m, 'l, 'k) world \<Rightarrow> bool" where
  "booted E w \<longleftrightarrow> shared_ok w \<and> mem_wf E (w Server) \<and> conns (w Server) = Map.empty
     \<and> (\<forall>md. table_ok (w md) \<and> cur_ctx (w md) = NULL \<and> length (fds (w md)) = MAX_FDS
          \<and> (\<forall>f \<in> set (fds (w md)). \<not> fd_active f)
          \<and> (\<forall>p \<in> set (pollfds (w md)). length (lfds p) = MAX_FDS_LISTEN
               \<and> (\<forall>l \<in> set (lfds p). \<not> lfd_active l)))"

lemma booted_world_ok:
  assumes "booted E w"
  shows "world_ok E w"
proof -
  have sh: "shared_ok w" and wf: "mem_wf E (w Server)" and no: "conns (w Server) = Map.empty"
    and idle: "\<And>md f. f \<in> set (fds (w md)) \<Longrightarrow> \<not> fd_active f"
    using assms by (auto simp: booted_def)
  have "owned E (w md) (fds (w (peer md)))" for md
  proof (rule ownedI)
    show "mem_wf E (w md)"
      using wf mem_wf_cong [OF shared_okD(1-4) [OF sh, of md Server]] by simp
    show "fd_ok (w md) f" if "f \<in> set (fds (w md))" for f
      using idle [OF that] by simp
    show "fd_ok (w md) f" if "f \<in> set (fds (w (peer md)))" for f
      using idle [OF that] by simp
    have "refs p (fds (w m)) = 0" for p m
      using idle by (auto simp: refs_zero hits_def)
    then show "refs p (fds (w md)) + refs p (fds (w (peer md))) = expected (conns (w md) p)" for p
      using no shared_okD(3) [OF sh, of md Server] by simp
  qed
  moreover have "own_ok (w md)" for md
    using assms idle [of _ md] idle [OF nth_mem, of _ md]
    by (simp add: booted_def own_ok_def unique_keys_def keys_below_def)
  ultimately show ?thesis
    using sh by (simp add: world_ok_def)
qed

lemma reachable_world_ok: "booted E w0 \<Longrightarrow> reachable E w0 w \<Longrightarrow> world_ok E w"
  using reachable_ok booted_world_ok by blast

section \<open>Running worlds\<close>

text \<open>Two processes that have registered and then made any calls in any order.\<close>

definition running :: "('m, 'l, 'k) ext \<Rightarrow> ('m, 'l, 'k) world \<Rightarrow> bool" where
  "running E w \<longleftrightarrow> (\<exists>w0. booted E w0 \<and> reachable E w0 w)"

lemma running_ok:
  assumes "running E w"
  shows "owned E (w md) (fds (w (peer md)))" and "own_ok (w md)" and "shared_ok w"
    and "mem_wf E (w md)"
  using assms reachable_world_ok ownedD(1) unfolding running_def world_ok_def by blast+

lemma running_start: "booted E w \<Longrightarrow> running E w"
  unfolding running_def by (blast intro: reachable.start)

lemma running_step:
  "running E w \<Longrightarrow> exec E md c (w md) = Some (r, s') \<Longrightarrow> running E (commit md s' w)"
  unfolding running_def by (blast intro: reachable.step wstep.call)

end
