(* ===== verification/Streams.thy ===== *)
theory Streams
  imports World
begin

text \<open>
  What the calls of both processes do to the packets in flight: only \<open>send\<close>, \<open>sendmsg\<close> and
  \<open>recv\<close> touch the queues of a connection.  With the bytes each process has sent and received
  as history variables, the bytes sent are the bytes received and the bytes still queued, in
  every reachable state.
\<close>

section \<open>Calls that leave the queues alone\<close>

text \<open>The state of a connection and its two lists.\<close>

definition queue_fields ::
  "'l connection \<Rightarrow> connectionState \<times> 'l llist option \<times> 'l llist option" where
  "queue_fields c = (connState c, buf1 c, buf2 c)"

definition queues_same :: "('m, 'l, 'k) st \<Rightarrow> ('m, 'l, 'k) st \<Rightarrow> bool" where
  "queues_same s s' \<longleftrightarrow> bufs s' = bufs s
     \<and> (\<forall>p. map_option queue_fields (conns s' p) = map_option queue_fields (conns s p))"

lemma queues_same_eq: "conns s' = conns s \<Longrightarrow> bufs s' = bufs s \<Longrightarrow> queues_same s s'"
  by (simp add: queues_same_def)

lemma queues_same_refl [simp]: "queues_same s s"
  by (simp add: queues_same_def)

lemma queues_same_trans: "queues_same s t \<Longrightarrow> queues_same t u \<Longrightarrow> queues_same s u"
  by (simp add: queues_same_def)

lemma queues_same_put_conn:
  "get_conn p s = Some c \<Longrightarrow> queue_fields c' = queue_fields c \<Longrightarrow> queues_same s (put_conn p c' s)"
  by (auto simp: queues_same_def get_conn_def put_conn_def split: if_splits)

lemma queue_fields_masks [simp]:
  "queue_fields (set_own_events md v c) = queue_fields c"
  "queue_fields (set_own_lt_events md v c) = queue_fields c"
  "queue_fields (set_remote_events md v c) = queue_fields c"
  by (simp_all add: queue_fields_def)

lemma queues_same_frame [simp]:
  "queues_same s (t\<lparr>errno := e\<rparr>) = queues_same s t"
  "queues_same s (t\<lparr>currentMaxFd := n\<rparr>) = queues_same s t"
  "queues_same s (t\<lparr>randomPollFd := n\<rparr>) = queues_same s t"
  "queues_same s (t\<lparr>poll_epollfd := n\<rparr>) = queues_same s t"
  "queues_same s (t\<lparr>kern := k\<rparr>) = queues_same s t"
  "queues_same s (set_fd i f t) = queues_same s t"
  "queues_same s (set_pfd i g t) = queues_same s t"
  "queues_same s (set_lfd i j h t) = queues_same s t"
  by (simp_all add: queues_same_def set_lfd_def)

lemma recv_queue_same:
  assumes "queues_same s s'"
  shows "recv_queue E md p s' = recv_queue E md p s"
proof -
  have pay: "payload_at s' = payload_at s"
    using assms by (auto simp: queues_same_def payload_at_def fun_eq_iff)
  have "map_option queue_fields (conns s' p) = map_option queue_fields (conns s p)"
    using assms by (simp add: queues_same_def)
  then show ?thesis
    by (cases "conns s p"; cases "conns s' p"; cases md)
      (auto simp: recv_queue_def pay queue_fields_def view_defs)
qed

lemma queues_same_left [simp]:
  "queues_same (set_fd i f s) u = queues_same s u"
  "queues_same (set_pfd i g s) u = queues_same s u"
  "queues_same (s\<lparr>currentMaxFd := n\<rparr>) u = queues_same s u"
  by (simp_all add: queues_same_def)

lemma queues_same_put_conn_left:
  "queues_same (put_conn p c' s) u \<Longrightarrow> get_conn p s = Some c \<Longrightarrow> queue_fields c' = queue_fields c
   \<Longrightarrow> queues_same s u"
  by (rule queues_same_trans [OF queues_same_put_conn])

text \<open>A call that also creates or removes one connection.\<close>

definition quiet :: "('m, 'l, 'k) ext \<Rightarrow> ('m, 'l, 'k) st \<Rightarrow> ('m, 'l, 'k) st \<Rightarrow> bool" where
  "quiet E s s' \<longleftrightarrow> (\<forall>p md. p \<in> dom (conns s') \<longrightarrow>
     recv_queue E md p s' = (if p \<in> dom (conns s) then recv_queue E md p s else []))"

lemma quiet_same:
  assumes "queues_same s s'"
  shows "quiet E s s'"
proof -
  have "map_option queue_fields (conns s' p) = map_option queue_fields (conns s p)" for p
    using assms by (simp add: queues_same_def)
  then have "p \<in> dom (conns s') \<longleftrightarrow> p \<in> dom (conns s)" for p
    by (metis domIff map_option_is_None)
  then show ?thesis
    using recv_queue_same [OF assms] by (simp add: quiet_def)
qed

text \<open>What a call that moves no data may do to one connection.\<close>

inductive life ::
  "('m, 'l, 'k) ext \<Rightarrow> (connectionState \<times> 'l llist option \<times> 'l llist option) option
    \<Rightarrow> (connectionState \<times> 'l llist option \<times> 'l llist option) option \<Rightarrow> bool"
  for E :: "('m, 'l, 'k) ext" where
  life_stay: "life E x x"
| life_new: "st = c_create \<or> st = c_listen \<Longrightarrow> opt_elems E a = [] \<Longrightarrow> opt_elems E b = []
    \<Longrightarrow> life E None (Some (st, a, b))"
| life_accept: "life E (Some (c_create, b)) (Some (c_open, b))"
| life_withdraw: "life E (Some (c_create, b)) None"
| life_hangup: "st = c_open \<or> st = c_listen \<Longrightarrow> life E (Some (st, b)) (Some (c_close, b))"
| life_free: "life E (Some (c_close, b)) None"

definition conn_fields ::
  "('m, 'l, 'k) st \<Rightarrow> ptr \<Rightarrow> (connectionState \<times> 'l llist option \<times> 'l llist option) option" where
  "conn_fields s p = map_option queue_fields (conns s p)"

definition changes :: "('m, 'l, 'k) ext \<Rightarrow> ('m, 'l, 'k) st \<Rightarrow> ('m, 'l, 'k) st \<Rightarrow> bool" where
  "changes E s s' \<longleftrightarrow> bufs s' = bufs s \<and> (\<exists>p. (\<forall>q. q \<noteq> p \<longrightarrow> conn_fields s' q = conn_fields s q)
     \<and> life E (conn_fields s p) (conn_fields s' p))"

lemma queues_same_fields: "queues_same s t \<longleftrightarrow> bufs t = bufs s \<and> conn_fields t = conn_fields s"
  by (auto simp: queues_same_def conn_fields_def fun_eq_iff)

lemma changes_same: "queues_same s t \<Longrightarrow> changes E s t"
  by (auto simp: queues_same_fields changes_def intro: life_stay)

lemma changes_after: "changes E s t \<Longrightarrow> queues_same t u \<Longrightarrow> changes E s u"
  by (simp add: queues_same_fields changes_def)

lemma changes_conn:
  assumes "bufs s' = bufs s" and "\<And>q. q \<noteq> p \<Longrightarrow> conns s' q = conns s q"
    and "life E (conn_fields s p) (conn_fields s' p)"
  shows "changes E s s'"
proof -
  have "conn_fields s' q = conn_fields s q" if "q \<noteq> p" for q
    using assms(2) [OF that] by (simp add: conn_fields_def)
  with assms(1,3) show ?thesis by (auto simp: changes_def)
qed

text \<open>The queue of one end, from the fields of the connection.\<close>

lemma recv_queue_fields:
  "recv_queue E md p s = (case conn_fields s p of
     None \<Rightarrow> []
   | Some (_, b1, b2) \<Rightarrow> map (payload_at s) (opt_elems E (case md of Server \<Rightarrow> b1 | Client \<Rightarrow> b2)))"
  by (auto simp: recv_queue_def conn_fields_def queue_fields_def view_defs split: option.splits mode.splits)

lemma dom_conns: "p \<in> dom (conns s) \<longleftrightarrow> conn_fields s p \<noteq> None"
  by (auto simp: conn_fields_def)

lemma changes_quiet:
  assumes "changes E s s'"
  shows "quiet E s s'"
proof -
  obtain p where pay: "payload_at s' = payload_at s"
    and other: "\<And>q. q \<noteq> p \<Longrightarrow> conn_fields s' q = conn_fields s q"
    and step: "life E (conn_fields s p) (conn_fields s' p)"
    using assms by (auto simp: changes_def payload_at_def fun_eq_iff)
  have "recv_queue E md q s' = (if conn_fields s q \<noteq> None then recv_queue E md q s else [])"
    if "conn_fields s' q \<noteq> None" for q md
  proof (cases "q = p")
    case False
    with other that show ?thesis
      by (cases "conn_fields s q") (auto simp: recv_queue_fields pay)
  next
    case True
    with step that show ?thesis
      by cases (auto simp: recv_queue_fields pay split: mode.splits)
  qed
  then show ?thesis
    by (simp add: quiet_def dom_conns)
qed

lemma syscall_same: "syscall E q s = (r, t) \<Longrightarrow> queues_same s t"
  using syscall_frame [of E q s r t] by auto

lemma only_pollfds_same: "only_pollfds s t \<Longrightarrow> queues_same s t"
  by (auto simp: only_pollfds_def intro: queues_same_eq)

subsection \<open>Descriptors\<close>

lemma getEmptyFd_same: "getEmptyFd s = (r, t) \<Longrightarrow> queues_same s t"
  by (auto simp: getEmptyFd_def split: option.splits)

lemma socket_same: "socket domain type protocol s = Some (r, s') \<Longrightarrow> queues_same s s'"
  by (auto simp: socket_def fail_def Let_def dest: getEmptyFd_same split: if_splits prod.splits option.splits)

lemma bind_same: "bind fd addr s = Some (r, s') \<Longrightarrow> queues_same s s'"
  by (auto simp: bind_def fail_def split: if_splits option.splits Option.bind_splits)

lemma shutdown_same: "shutdown fd how s = Some (r, s') \<Longrightarrow> queues_same s s'"
  by (auto simp: shutdown_def fail_def split: if_splits option.splits)

lemma fcntl_same: "fcntl E fd cmd arg s = Some (r, s') \<Longrightarrow> queues_same s s'"
  by (auto simp: fcntl_def fail_def dest: syscall_same split: if_splits option.splits prod.splits)

lemma getsockname_same: "getsockname md fd addr s = Some (r, a, s') \<Longrightarrow> queues_same s s'"
  by (auto simp: getsockname_def Let_def split: if_splits option.splits Option.bind_splits)

lemma getpeername_same: "getpeername md fd addr s = Some (r, a, s') \<Longrightarrow> queues_same s s'"
  by (auto simp: getpeername_def Let_def split: if_splits option.splits Option.bind_splits)

lemma epoll_create1_same: "epoll_create1 flags s = Some (r, s') \<Longrightarrow> queues_same s s'"
  by (auto simp: epoll_create1_def getEmptyPollfd_def fail_def Let_def split: if_splits option.splits)

lemma epoll_ctl_real_same: "epoll_ctl_real E i op fd event s = (r, s') \<Longrightarrow> queues_same s s'"
  by (auto simp: epoll_ctl_real_def Let_def dest!: syscall_same intro: queues_same_trans
      split: if_splits prod.splits)

lemma epoll_ctl_same:
  assumes "epoll_ctl E epfd op fd event s = Some (r, s')"
  shows "queues_same s s'"
proof (cases "getPollfdByNum epfd s")
  case None
  with assms show ?thesis by (auto simp: epoll_ctl_def fail_def)
next
  case (Some i)
  obtain l s1 where l: "getListenerForFd i fd s = (l, s1)" by fastforce
  have s1: "queues_same s s1"
    by (rule only_pollfds_same [OF getListenerForFd_only [OF l]])
  obtain e s2 where e: "getEmptyListener i s1 = (e, s2)" by fastforce
  have s2: "queues_same s s2"
    by (rule queues_same_trans [OF s1 only_pollfds_same [OF getEmptyListener_only [OF e]]])
  show ?thesis
    using assms Some l e s1 s2
    by (auto simp: epoll_ctl_def fail_def deleteListener_def dest: epoll_ctl_real_same
        split: if_splits option.splits Option.bind_splits)
qed

subsection \<open>Waiting for events\<close>

lemma checkAndSetEvents_same:
  "checkAndSetEvents E md i j em evs s = Some (evs', s') \<Longrightarrow> queues_same s s'"
  by (auto simp: checkAndSetEvents_def setLevelTriggeredEvents_def Let_def
      intro: queues_same_put_conn split: if_splits Option.bind_splits)

lemma wait_for_accept_same:
  "wait_for_accept 1 (\<lambda>_ t. t) i s = Some (r, s') \<Longrightarrow> queues_same s s'"
  by (auto simp: wait_for_accept_def connect_round_def split: if_splits Option.bind_splits
      option.splits sum.splits)

lemma connectEx_again_same:
  "connectEx 1 (\<lambda>_ t. t) E md n None s = Some (r, s') \<Longrightarrow> queues_same s s'"
  by (auto simp: connectEx_def start_connect_def simp del: One_nat_def dest: wait_for_accept_same
      split: if_splits option.splits)

lemma scan_listener_same:
  assumes "scan_listener E md i j evs s = Some (evs', s')"
  shows "queues_same s s'"
  using assms unfolding scan_listener_def Let_def
  by (auto simp: handleFdCloseInEvents_def deleteListener_def simp del: One_nat_def
      split: if_splits Option.bind_splits
      dest!: checkAndSetEvents_same connectEx_again_same
      intro: queues_same_put_conn queues_same_put_conn_left
        queues_same_put_conn_left [OF queues_same_trans])

lemma scan_listeners_same:
  "scan_listeners E md i n js evs s = Some (evs', s') \<Longrightarrow> queues_same s s'"
proof (induction js arbitrary: evs s)
  case (Cons j js)
  then show ?case
    by (auto split: if_splits Option.bind_splits dest!: scan_listener_same intro: queues_same_trans)
qed simp

lemma epoll_pwait_same:
  assumes "epoll_pwait 1 (\<lambda>_ t. t) E md epfd n timeout s = Some (r, s')"
  shows "queues_same s s'"
proof -
  have "queues_same s t" if "epoll_round E md i n timeout k s = Some (x, t)" for i k x t
  proof -
    from that obtain evs s1 where s1: "scan_listeners E md i n [0..<MAX_FDS_LISTEN] [] s = Some (evs, s1)"
      and t: "t = snd (real_events E i n evs s1)"
      by (auto simp: epoll_round_def Let_def split: Option.bind_splits prod.splits if_splits)
    have "queues_same s1 t"
      by (auto simp: t real_events_def dest: syscall_same split: prod.splits)
    with scan_listeners_same [OF s1] show ?thesis
      by (rule queues_same_trans)
  qed
  with assms show ?thesis
    by (auto simp: epoll_pwait_def split: option.splits)
qed

lemma poll_add_same:
  "poll_add E epfd k ps s = Some (r, s') \<Longrightarrow> queues_same s s'"
proof (induction ps arbitrary: k s)
  case (Cons p ps)
  then show ?case
    by (auto split: Option.bind_splits if_splits dest!: epoll_ctl_same intro: queues_same_trans)
qed simp

lemma poll_del_same:
  "poll_del E epfd ps s = Some (r, s') \<Longrightarrow> queues_same s s'"
proof (induction ps arbitrary: s)
  case (Cons p ps)
  then show ?case
    by (auto split: Option.bind_splits if_splits dest!: epoll_ctl_same intro: queues_same_trans)
qed simp

lemma poll_wait_same:
  assumes "poll_wait 1 (\<lambda>_ t. t) E md epfd ps timeout s = Some (r, s')"
  shows "queues_same s s'"
proof -
  obtain w s1 where w: "epoll_pwait 1 (\<lambda>_ t. t) E md epfd (int (length ps)) timeout s = Some (w, s1)"
    and rest: "s' = s1 \<or> (\<exists>d. poll_del E epfd ps s1 = Some (d, s'))"
    using assms by (auto simp: poll_wait_def epoll_wait_def simp del: One_nat_def
        split: Option.bind_splits option.splits)
  have "queues_same s1 s'"
    using rest poll_del_same by auto
  with epoll_pwait_same [OF w] show ?thesis by (rule queues_same_trans)
qed

lemma poll_descriptor_same: "poll_descriptor s = Some (r, s') \<Longrightarrow> queues_same s s'"
  by (auto simp: poll_descriptor_def dest: epoll_create1_same split: if_splits Option.bind_splits)

lemma poll_same:
  assumes "poll 1 (\<lambda>_ t. t) E md ps timeout s = Some (r, s')"
  shows "queues_same s s'"
proof -
  obtain epfd s1 where d: "poll_descriptor s = Some (epfd, s1)"
    using assms by (auto simp: poll_def split: Option.bind_splits)
  have "queues_same s1 s'"
    using assms d by (auto simp: poll_def simp del: One_nat_def
        dest: poll_add_same poll_wait_same intro: queues_same_trans [OF poll_add_same poll_wait_same]
        split: if_splits Option.bind_splits)
  with poll_descriptor_same [OF d] show ?thesis by (rule queues_same_trans)
qed

lemma ppoll_same: "ppoll 1 (\<lambda>_ t. t) E md ps tmo s = Some (r, s') \<Longrightarrow> queues_same s s'"
  by (auto simp: ppoll_def simp del: One_nat_def dest: poll_same split: Option.bind_splits)

lemma ioctl_same: "ioctl E fd request argp s = (r, s') \<Longrightarrow> queues_same s s'"
  by (auto simp: ioctl_def dest: syscall_same split: if_splits prod.splits)

lemma stub_same:
  "recvmsg fd s = (r, s') \<Longrightarrow> queues_same s s'"
  "getsockopt fd s = (r, s') \<Longrightarrow> queues_same s s'"
  "setsockopt fd s = (r, s') \<Longrightarrow> queues_same s s'"
  by (auto simp: recvmsg_def getsockopt_def setsockopt_def)

subsection \<open>Connections\<close>

lemma listen_changes:
  assumes own: "owned E s gs" and ok: "own_ok s" and op: "listen E md fd backlog s = Some (r, s')"
  shows "changes E s s'"
proof (cases "\<exists>i. getFdByNum fd s = Some i \<and> fstate (fds s ! i) = s_bound")
  case False
  then have "queues_same s s'"
    using op by (auto simp: listen_def fail_def split: option.splits)
  then show ?thesis by (rule changes_same)
next
  case True
  then obtain i p s1 where c: "createNewListenerConnection E md s = Some (p, s1)"
    and s': "s' = set_fd i (\<lambda>f. f\<lparr>fd_pConn := p, fstate := s_listen\<rparr>) s1"
    using op by (auto simp: listen_def split: Option.bind_splits)
  obtain c m' where s1: "s1 = s\<lparr>heap := m', conns := (conns s)(p \<mapsto> c)\<rparr>" and wf: "mem_wf E s1"
    and p: "conns s p = None" and st: "connState c = c_listen" and n: "pAssociatedIface c = NULL"
    using createNewListenerConnection_wf [OF ownedD(1) [OF own] own_okD(2) [OF ok] c] by blast
  have "conn_ok E s1 p c"
    by (rule mem_wf_conn(1) [OF wf]) (simp add: s1)
  then have "opt_elems E (buf1 c) = []" "opt_elems E (buf2 c) = []"
    using n by (simp_all add: conn_ok_def opt_elems_def)
  then show ?thesis
    by (intro changes_conn [where p = p])
      (simp_all add: s' s1 p st conn_fields_def queue_fields_def life_new)
qed

lemma handleSockfdClose_changes:
  assumes own: "owned E s gs" and op: "handleSockfdClose E md fd s = Some (r, s')"
  shows "changes E s s'"
proof (cases "getFdByNum fd s = None \<or> (\<exists>i. getFdByNum fd s = Some i \<and> fd_pConn (fds s ! i) = NULL)")
  case True
  with op have "queues_same s s'" by (auto simp: handleSockfdClose_def deleteFd_def)
  then show ?thesis by (rule changes_same)
next
  case False
  then obtain i where i: "getFdByNum fd s = Some i" and p: "fd_pConn (fds s ! i) \<noteq> NULL" by auto
  let ?p = "fd_pConn (fds s ! i)"
  have "fd_ok s (fds s ! i)"
    using own getFdByNumD(1) [OF i] by (rule nth_fd_ok)
  with p getFdByNumD(2) [OF i] obtain c where c: "conns s ?p = Some c"
    and fit: "fits (fstate (fds s ! i)) c"
    by (auto simp: fd_ok_def split: if_splits)
  have l: "pAssociatedIface c = NULL \<longrightarrow> connState c = c_listen"
    using fit by (cases "fstate (fds s ! i)") auto
  obtain s1 where s1: "closeConnection E md ?p s = Some s1"
    "\<forall>q. q \<noteq> ?p \<longrightarrow> conns s1 q = conns s q"
    "bufs s1 = bufs s \<and> (\<forall>c'. conns s1 ?p = Some c' \<longrightarrow> buf1 c' = buf1 c \<and> buf2 c' = buf2 c)"
    and mark: "connState c \<in> {c_open, c_listen} \<longrightarrow>
      (\<exists>c'. conns s1 ?p = Some c' \<and> connState c' = c_close)"
    and gone: "connState c \<in> {c_create, c_close} \<longrightarrow> conns s1 ?p = None"
    by (rule closeConnection_cases [OF ownedD(1) [OF own] c l, of md]) blast
  have "life E (conn_fields s ?p) (conn_fields s1 ?p)"
    using c s1(3) mark gone
    by (cases "connState c") (auto simp: conn_fields_def queue_fields_def intro: life.intros)
  moreover have "conns s' = conns s1" "bufs s' = bufs s1"
    using op i p s1(1) by (auto simp: handleSockfdClose_def deleteFd_def)
  ultimately show ?thesis
    using s1 by (intro changes_conn [where p = ?p]) (auto simp: conn_fields_def)
qed

lemma close_changes:
  assumes own: "owned E s gs" and ok: "own_ok s" and op: "close E md fd s = Some (r, s')"
  shows "changes E s s'"
proof -
  consider "fd < FD_START" | "\<not> fd < POLLFD_START" | "\<not> fd < FD_START" "fd < POLLFD_START" by blast
  then show ?thesis
  proof cases
    case 1
    with op have "queues_same s s'"
      by (auto simp: close_def dest: syscall_same split: prod.splits)
    then show ?thesis by (rule changes_same)
  next
    case 2
    with op have "s' = snd (handleEpfdClose fd s)"
      by (auto simp: close_def limit_defs)
    then have "queues_same s s'"
      using queues_same_trans [OF _ only_pollfds_same [OF deleteAllListeners_only], of s]
      by (auto simp: handleEpfdClose_def split: option.splits)
    then show ?thesis by (rule changes_same)
  next
    case 3
    with op have "handleSockfdClose E md fd s = Some (r, s')"
      by (simp add: close_def)
    then show ?thesis by (rule handleSockfdClose_changes [OF own])
  qed
qed

lemma accept4_changes:
  assumes own: "owned E s gs" and ok: "own_ok s"
    and op: "accept4 1 (\<lambda>_ t. t) E md fd addr flags s = Some (r, s')"
  shows "changes E s s'"
proof (cases "\<exists>i. getFdByNum fd s = Some i \<and> fstate (fds s ! i) = s_listen")
  case False
  then have "queues_same s s'"
    using op by (auto simp: accept4_def split: option.splits)
  then show ?thesis by (rule changes_same)
next
  case True
  then obtain i where i: "getFdByNum fd s = Some i" "fstate (fds s ! i) = s_listen" by blast
  show ?thesis
  proof (cases rule: accept_round_cases [OF ownedD(1) [OF own] own_okD(1) [OF ok], of md i 0])
    case (1 r')
    then have "queues_same s s'"
      using op i by (auto simp: accept4_def split: option.splits sum.splits)
    then show ?thesis by (rule changes_same)
  next
    case (2 p c)
    have opened: "changes E s (opened p s)"
      by (rule changes_conn [where p = p])
        (use 2(3,4) in \<open>auto simp: opened_def conn_fields_def queue_fields_def intro: life_accept\<close>)
    from op i 2(1) obtain v where v: "accept_finish md p addr flags (opened p s) = Some (v, s')"
      by (auto simp: accept4_def split: Option.bind_splits)
    have "queues_same (opened p s) s'"
      using v unfolding accept_finish_def Let_def
      by (auto dest!: getEmptyFd_same getpeername_same split: prod.splits option.splits Option.bind_splits
          intro: queues_same_trans)
    with opened show ?thesis by (rule changes_after)
  qed
qed

lemma start_connect_changes:
  assumes own: "owned E s gs" and ok: "own_ok s" and op: "start_connect E md i addr s = Some (e, s')"
  shows "changes E s s'"
proof -
  note wf = ownedD(1) [OF own]
  from op obtain a where a: "addr = Some a" by (cases addr) (auto simp: start_connect_def)
  obtain pI where pI: "getInterfaceBySockaddr md (SOCKADDR a) s = Some pI"
    and hit: "pI \<noteq> NULL \<longrightarrow> pI \<in> dom (ifaces s)"
    by (rule getInterfaceBySockaddr_hit [OF own_okD(1) [OF ok]]) blast
  show ?thesis
  proof (cases "pI = NULL")
    case True
    with op a pI have "queues_same s s'" by (auto simp: start_connect_def)
    then show ?thesis by (rule changes_same)
  next
    case False
    with hit obtain r where r: "ifaces s pI = Some r" by auto
    let ?s0 = "s\<lparr>randomPort := randomPort s + 1\<rparr>"
    from op a pI False obtain p s1 b s3 where
      new: "createNewConnection E md pI (randomPort s) (PORT a) ?s0 = Some (p, s1)"
      and ini: "initiateNewConnection E p (set_fd i (\<lambda>f. f\<lparr>fd_pConn := p\<rparr>) s1) = Some (b, s3)"
      and s': "s' = set_fd i (\<lambda>f. f\<lparr>fstate := s_connecting\<rparr>) s3"
      by (auto simp: start_connect_def Let_def split: Option.bind_splits)
    obtain c m' where s1: "s1 = ?s0\<lparr>heap := m', conns := (conns ?s0)(p \<mapsto> c), cur_ctx := NULL\<rparr>"
      and c: "created E md pI (randomPort s) (PORT a) c" and p: "conns ?s0 p = None"
      by (rule createNewConnection_wf [OF _ _ new, of r]) (use wf r in simp_all)
    have "opt_elems E (buf1 c) = []" "opt_elems E (buf2 c) = []" "connState c = c_create"
      using c by (auto simp: created_def opt_elems_def)
    moreover have "conns s' = (conns s)(p \<mapsto> c)" "bufs s' = bufs s"
      using ini by (auto simp: s' initiateNewConnection_def put_iface_def setMallocContext_def s1
          split: Option.bind_splits prod.splits)
    ultimately show ?thesis
      by (intro changes_conn [where p = p])
        (use p in \<open>simp_all add: conn_fields_def queue_fields_def life_new\<close>)
  qed
qed

lemma connectEx_changes:
  assumes own: "owned E s gs" and ok: "own_ok s"
    and op: "connectEx 1 (\<lambda>_ t. t) E md fd addr s = Some (r, s')"
  shows "changes E s s'"
proof (cases "getFdByNum fd s")
  case None
  with op show ?thesis by (auto simp: connectEx_def intro!: changes_same)
next
  case (Some i)
  show ?thesis
  proof (cases "fstate (fds s ! i) = s_created")
    case False
    with op Some show ?thesis
      by (auto simp: connectEx_def simp del: One_nat_def dest: wait_for_accept_same
          intro!: changes_same split: if_splits)
  next
    case True
    with op Some obtain e s1 where e: "start_connect E md i addr s = Some (e, s1)"
      and rest: "(case e of Some e \<Rightarrow> Some (Some (-1), s1\<lparr>errno := e\<rparr>)
            | None \<Rightarrow> wait_for_accept 1 (\<lambda>_ t. t) i s1) = Some (r, s')"
      by (auto simp: connectEx_def simp del: One_nat_def split: Option.bind_splits)
    have "queues_same s1 s'"
      using rest by (auto simp del: One_nat_def dest: wait_for_accept_same split: option.splits)
    with start_connect_changes [OF own ok e] show ?thesis by (rule changes_after)
  qed
qed

lemma connect_changes:
  assumes own: "owned E s gs" and ok: "own_ok s"
    and op: "connect 1 (\<lambda>_ t. t) E md fd addr s = Some (r, s')"
  shows "changes E s s'"
  using op connectEx_changes [OF assms(1,2), of md fd addr r s']
  by (auto simp: connect_def simp del: One_nat_def intro!: changes_same split: option.splits if_splits)

section \<open>Calls that move packets\<close>

text \<open>The connection a descriptor sends and receives on.\<close>

definition conn_of :: "int \<Rightarrow> ('m, 'l, 'k) st \<Rightarrow> ptr option" where
  "conn_of sockfd s = (case getFdByNum sockfd s of
     None \<Rightarrow> None
   | Some i \<Rightarrow> if fstate (fds s ! i) = s_open then Some (fd_pConn (fds s ! i)) else None)"

text \<open>The bytes a call has put into the stream of a connection, and the ones it delivered.\<close>

definition iov_bytes :: "(byte list \<times> 64 word) list \<Rightarrow> byte list list" where
  "iov_bytes iov = map (\<lambda>(buf, len). take (nat (size_to_int len)) buf) iov"

fun sent_by :: "('m, 'l, 'k) st \<Rightarrow> call \<Rightarrow> int option \<Rightarrow> ptr \<Rightarrow> byte list" where
  "sent_by s (C_send fd buf len flags) (Some r) p =
     (if conn_of fd s = Some p \<and> 0 \<le> r then take (nat r) buf else [])"
| "sent_by s (C_sendmsg fd iov flags) (Some r) p =
     (if conn_of fd s = Some p \<and> 0 \<le> r then concat (iov_bytes iov) else [])"
| "sent_by s (C_write fd buf count) (Some r) p =
     (if FD_START \<le> fd \<and> conn_of fd s = Some p \<and> 0 \<le> r then take (nat r) buf else [])"
| "sent_by s _ _ p = []"

fun received_by :: "('m, 'l, 'k) st \<Rightarrow> call \<Rightarrow> byte list \<Rightarrow> ptr \<Rightarrow> byte list" where
  "received_by s (C_recv fd len flags) out p = (if conn_of fd s = Some p then out else [])"
| "received_by s (C_read fd count) out p =
     (if FD_START \<le> fd \<and> conn_of fd s = Some p then out else [])"
| "received_by s _ out p = []"

text \<open>
  The streams of every connection over a call of \<open>md\<close> that appends \<open>S p\<close> to what its peer will
  read and takes \<open>R p\<close> from what it reads itself.
\<close>

definition flow ::
  "('m, 'l, 'k) ext \<Rightarrow> mode \<Rightarrow> ('m, 'l, 'k) st \<Rightarrow> (ptr \<Rightarrow> byte list) \<Rightarrow> (ptr \<Rightarrow> byte list)
    \<Rightarrow> ('m, 'l, 'k) st \<Rightarrow> bool" where
  "flow E md s S R s' \<longleftrightarrow> (\<forall>p. p \<in> dom (conns s') \<longrightarrow>
     (if p \<in> dom (conns s)
      then concat (recv_queue E (peer md) p s') = concat (recv_queue E (peer md) p s) @ S p
         \<and> concat (recv_queue E md p s) = R p @ concat (recv_queue E md p s')
      else recv_queue E (peer md) p s' = [] \<and> recv_queue E md p s' = []))"

lemma flow_quiet: "quiet E s s' \<Longrightarrow> flow E md s (\<lambda>_. []) (\<lambda>_. []) s'"
  by (auto simp: flow_def quiet_def)

lemma flow_none:
  assumes "quiet E s s'" and "\<And>p. S p = []" and "\<And>p. R p = []"
  shows "flow E md s S R s'"
  using assms by (auto simp: flow_def quiet_def)

lemma flow_eq:
  assumes "flow E md s S R s'" and "\<And>p. S' p = S p" and "\<And>p. R' p = R p"
  shows "flow E md s S' R' s'"
  using assms by (simp add: flow_def)

lemma conn_ofD:
  assumes "getFdByNum fd s = Some i"
  shows "conn_of fd s = Some p \<longleftrightarrow> fstate (fds s ! i) = s_open \<and> fd_pConn (fds s ! i) = p"
  using assms by (simp add: conn_of_def)

text \<open>A successful \<open>send\<close> appends one packet; the descriptors and the connection states stay.\<close>

lemma send_open:
  assumes own: "owned E s gs" and i: "getFdByNum fd s = Some i" "fstate (fds s ! i) = s_open"
    and c: "conns s (fd_pConn (fds s ! i)) = Some c" "connState c = c_open"
    and op: "send E md fd buf len flags s = Some (r, s')"
  shows "r = size_to_int len" and "0 \<le> r" and "fds s' = fds s"
    and "\<exists>c'. conns s' = (conns s)(fd_pConn (fds s ! i) \<mapsto> c') \<and> connState c' = c_open"
    and "recv_queue E (peer md) (fd_pConn (fds s ! i)) s' =
         recv_queue E (peer md) (fd_pConn (fds s ! i)) s @ [take (nat (size_to_int len)) buf]"
    and "recv_queue E md (fd_pConn (fds s ! i)) s' = recv_queue E md (fd_pConn (fds s ! i)) s"
    and "p \<noteq> fd_pConn (fds s ! i) \<Longrightarrow> recv_queue E m p s' = recv_queue E m p s"
proof -
  let ?p = "fd_pConn (fds s ! i)"
  note wf = ownedD(1) [OF own]
  have n: "pAssociatedIface c \<noteq> NULL"
    using open_conn [OF own i] c(1) by force
  have send: "sendConnection E md ?p buf (size_to_int len) s = Some (r, s')"
    using op i c by (simp add: send_def mem_wf_get_conn [OF wf])
  obtain q b c' m' sb sb' where r: "r = size_to_int len" "0 \<le> size_to_int len"
    and s': "s' = s\<lparr>heap := m', bufs := (bufs s)(q \<mapsto> b), conns := (conns s)(?p \<mapsto> c'), cur_ctx := NULL\<rparr>"
    and c': "c' = set_remote_events md (SET_EVENT (remote_events md c) EPOLLIN)
                (set_sendBuffer md (Some sb') c)"
    using sendConnection_wf [OF wf c(1) n send] by metis
  show "r = size_to_int len" "0 \<le> r" "fds s' = fds s"
    using r by (simp_all add: s')
  show "\<exists>c'. conns s' = (conns s)(?p \<mapsto> c') \<and> connState c' = c_open"
    using c(2) by (intro exI [of _ c']) (simp add: s' c')
  show "recv_queue E (peer md) ?p s' =
         recv_queue E (peer md) ?p s @ [take (nat (size_to_int len)) buf]"
    and "recv_queue E md ?p s' = recv_queue E md ?p s"
    and "p \<noteq> ?p \<Longrightarrow> recv_queue E m p s' = recv_queue E m p s"
    using sendConnection_queues [OF wf c(1) n send] by simp_all
qed

lemma send_flow:
  assumes own: "owned E s gs" and ok: "own_ok s" and op: "send E md fd buf len flags s = Some (r, s')"
  shows "flow E md s (sent_by s (C_send fd buf len flags) (Some r)) (\<lambda>_. []) s'"
proof (cases "\<exists>i. getFdByNum fd s = Some i \<and> fstate (fds s ! i) = s_open")
  case False
  then have "queues_same s s'" and "conn_of fd s = None"
    using op by (auto simp: send_def fail_def conn_of_def split: option.splits)
  then show ?thesis
    using flow_quiet [OF quiet_same, of s s' E md] by (simp add: flow_def)
next
  case True
  then obtain i where i: "getFdByNum fd s = Some i" "fstate (fds s ! i) = s_open" by blast
  obtain c where c: "conns s (fd_pConn (fds s ! i)) = Some c" "pAssociatedIface c \<noteq> NULL"
    "connState c = c_open \<or> connState c = c_close" "get_conn (fd_pConn (fds s ! i)) s = Some c"
    by (rule open_conn [OF own i]) blast
  from c(3) show ?thesis
  proof
    assume "connState c = c_open"
    note send = send_open [OF own i c(1) this op]
    then show ?thesis
      using c(1) conn_ofD [OF i(1)] i(2)
      by (auto simp: flow_def)
  next
    assume "connState c = c_close"
    with op i c have "r = -1" "queues_same s s'"
      by (auto simp: send_def fail_def handleCloseWhileIO_def)
    then show ?thesis
      using flow_quiet [OF quiet_same, of s s' E md] by (simp add: flow_def)
  qed
qed

lemma send_iov_open:
  assumes "owned E s gs" and "own_ok s" and "getFdByNum fd s = Some i" and "fstate (fds s ! i) = s_open"
    and "conns s (fd_pConn (fds s ! i)) = Some c" and "connState c = c_open" and "0 \<le> n"
    and "send_iov E md fd iov flags n s = Some (r, s')"
  shows "0 \<le> r \<and> dom (conns s') = dom (conns s)
    \<and> (\<exists>c'. conns s' (fd_pConn (fds s ! i)) = Some c' \<and> connState c' = c_open)
    \<and> (\<forall>q. q \<noteq> fd_pConn (fds s ! i) \<longrightarrow> conns s' q = conns s q)
    \<and> recv_queue E (peer md) (fd_pConn (fds s ! i)) s' =
         recv_queue E (peer md) (fd_pConn (fds s ! i)) s @ iov_bytes iov
    \<and> recv_queue E md (fd_pConn (fds s ! i)) s' = recv_queue E md (fd_pConn (fds s ! i)) s
    \<and> (\<forall>p m. p \<noteq> fd_pConn (fds s ! i) \<longrightarrow> recv_queue E m p s' = recv_queue E m p s)"
  using assms
proof (induction iov arbitrary: n s c)
  case Nil
  then show ?case by (simp add: iov_bytes_def)
next
  case (Cons x iov)
  obtain buf len where x: "x = (buf, len)" by fastforce
  let ?p = "fd_pConn (fds s ! i)"
  from Cons.prems(8) obtain ret s1 where send: "send E md fd buf len flags s = Some (ret, s1)"
    and rest: "(if ret < 0 then Some (-1, s1) else send_iov E md fd iov flags (n + ret) s1) = Some (r, s')"
    by (auto simp: x split: Option.bind_splits)
  note 1 = send_open [OF Cons.prems(1,3-6) send]
  obtain c' where c': "conns s1 = (conns s)(?p \<mapsto> c')" "connState c' = c_open"
    using 1(4) by blast
  have k: "kept E s gs s1"
    using outcome_result [OF send_outcome [OF Cons.prems(1,2)] send] by simp
  have f: "getFdByNum fd s1 = Some i"
    using Cons.prems(3) by (simp add: getFdByNum_def 1(3))
  have rest': "send_iov E md fd iov flags (n + ret) s1 = Some (r, s')"
    using rest 1(2) by simp
  have st: "fstate (fds s1 ! i) = s_open" "conns s1 (fd_pConn (fds s1 ! i)) = Some c'" "0 \<le> n + ret"
    using Cons.prems(4,7) 1(2,3) c'(1) by simp_all
  note 2 = Cons.IH [OF keptD(1,2) [OF k] f st(1,2) c'(2) st(3) rest']
  have "dom (conns s1) = dom (conns s)"
    using c'(1) Cons.prems(5) by auto
  moreover have other: "\<forall>q. q \<noteq> ?p \<longrightarrow> conns s1 q = conns s q"
    using c'(1) by simp
  ultimately show ?case
    using 2 1(3,5-7) other by (simp add: x iov_bytes_def)
qed

lemma sendmsg_flow:
  assumes own: "owned E s gs" and ok: "own_ok s" and op: "sendmsg E md fd iov flags s = Some (r, s')"
  shows "flow E md s (sent_by s (C_sendmsg fd iov flags) (Some r)) (\<lambda>_. []) s'"
proof (cases "\<exists>i. getFdByNum fd s = Some i \<and> fstate (fds s ! i) = s_open")
  case False
  then have "queues_same s s'" and "conn_of fd s = None"
    using op by (auto simp: sendmsg_def fail_def conn_of_def split: option.splits)
  then show ?thesis
    using flow_quiet [OF quiet_same, of s s' E md] by (simp add: flow_def)
next
  case True
  then obtain i where i: "getFdByNum fd s = Some i" "fstate (fds s ! i) = s_open" by blast
  obtain c where c: "conns s (fd_pConn (fds s ! i)) = Some c" "pAssociatedIface c \<noteq> NULL"
    "connState c = c_open \<or> connState c = c_close" "get_conn (fd_pConn (fds s ! i)) s = Some c"
    by (rule open_conn [OF own i]) blast
  from c(3) show ?thesis
  proof
    assume st: "connState c = c_open"
    have "send_iov E md fd iov flags 0 s = Some (r, s')"
      using op i c st by (simp add: sendmsg_def)
    note iov = send_iov_open [OF own ok i c(1) st order.refl this]
    then show ?thesis
      using c(1) conn_ofD [OF i(1)] i(2)
      by (auto simp: flow_def)
  next
    assume "connState c = c_close"
    with op i c have "r = -1" "queues_same s s'"
      by (auto simp: sendmsg_def fail_def handleCloseWhileIO_def)
    then show ?thesis
      using flow_quiet [OF quiet_same, of s s' E md] by (simp add: flow_def)
  qed
qed

lemma recvConnection_flow:
  assumes own: "owned E s gs" and c: "conns s p = Some c" and i: "pAssociatedIface c \<noteq> NULL"
    and op: "recvConnection E md p len s = Some (r, out, s')"
  shows "concat (recv_queue E md p s) = out @ concat (recv_queue E md p s')"
    and "\<forall>p' md'. p' \<noteq> p \<or> md' \<noteq> md \<longrightarrow> recv_queue E md' p' s' = recv_queue E md' p' s"
    and "dom (conns s') = dom (conns s)"
proof -
  note wf = ownedD(1) [OF own]
  have "concat (recv_queue E md p s) = out @ concat (recv_queue E md p s')
    \<and> (\<forall>p' md'. p' \<noteq> p \<or> md' \<noteq> md \<longrightarrow> recv_queue E md' p' s' = recv_queue E md' p' s)
    \<and> dom (conns s') = dom (conns s)"
  proof (cases "recv_queue E md p s")
    case Nil
    with op recvConnection_empty [OF wf c i Nil] show ?thesis by auto
  next
    case (Cons x xs)
    consider "int (length x) \<le> len" | "0 \<le> len" "len < int (length x)" | "len < 0" by linarith
    then show ?thesis
    proof cases
      case 1
      obtain t where t: "recvConnection E md p len s = Some (int (length x), x, t)"
        "recv_queue E md p t = xs"
        "\<And>p' md'. p' \<noteq> p \<or> md' \<noteq> md \<Longrightarrow> recv_queue E md' p' t = recv_queue E md' p' s"
        "\<exists>c'. conns t = (conns s)(p \<mapsto> c')"
        by (rule recvConnection_whole_queues [OF wf c i Cons 1]) blast
      have "dom (conns t) = dom (conns s)"
        using t(4) c by (auto split: if_splits)
      with op Cons t(1-3) show ?thesis by simp
    next
      case 2
      obtain t where "recvConnection E md p len s = Some (len, take (nat len) x, t)"
        and "recv_queue E md p t = drop (nat len) x # xs"
        and "\<And>p' md'. p' \<noteq> p \<or> md' \<noteq> md \<Longrightarrow> recv_queue E md' p' t = recv_queue E md' p' s"
        and "conns t = conns s"
        by (rule recvConnection_part_queues [OF wf c i Cons 2]) blast
      with op Cons show ?thesis
        by (auto simp: append_assoc [symmetric] simp del: append_assoc)
    next
      case 3
      with op recvConnection_negative [OF wf c i Cons] show ?thesis by simp
    qed
  qed
  then show "concat (recv_queue E md p s) = out @ concat (recv_queue E md p s')"
    and "\<forall>p' md'. p' \<noteq> p \<or> md' \<noteq> md \<longrightarrow> recv_queue E md' p' s' = recv_queue E md' p' s"
    and "dom (conns s') = dom (conns s)"
    by blast+
qed

lemma recv_flow:
  assumes own: "owned E s gs" and ok: "own_ok s"
    and op: "recv 1 (\<lambda>_ t. t) E md fd len flags s = Some (v, s')"
    and out: "out = bytes_of v"
  shows "flow E md s (\<lambda>_. []) (received_by s (C_recv fd len flags) out) s'"
proof (cases "\<exists>i. getFdByNum fd s = Some i \<and> fstate (fds s ! i) = s_open")
  case False
  then have "queues_same s s'" and "conn_of fd s = None"
    using op by (auto simp: recv_def conn_of_def split: option.splits)
  then show ?thesis
    using flow_quiet [OF quiet_same, of s s' E md] by (simp add: flow_def)
next
  case True
  then obtain i where i: "getFdByNum fd s = Some i" "fstate (fds s ! i) = s_open" by blast
  let ?p = "fd_pConn (fds s ! i)"
  obtain c where c: "conns s ?p = Some c" "pAssociatedIface c \<noteq> NULL"
    by (rule open_conn [OF own i])
  have here: "conn_of fd s = Some p \<longleftrightarrow> p = ?p" for p
    using conn_ofD [OF i(1)] i(2) by auto
  from op i obtain x t where round: "recv_round E md i len flags 0 s = Some (x, t)"
    and t: "queues_same t s'" and v: "out = (case x of Some (Inr y) \<Rightarrow> snd y | _ \<Rightarrow> [])"
    by (auto simp: recv_def out bytes_of_def split: Option.bind_splits option.splits sum.splits)
  from round obtain ret bytes s1 where rc: "recvConnection E md ?p (size_to_int len) s = Some (ret, bytes, s1)"
    by (auto simp: recv_round_def split: Option.bind_splits)
  have s1: "queues_same s1 t" and b: "ret \<noteq> 0 \<Longrightarrow> out = bytes" "ret = 0 \<Longrightarrow> out = []"
    using round rc v
    by (auto simp: recv_round_def handleCloseWhileIO_def split: Option.bind_splits if_splits)
  have "ret = int (length bytes)"
    using outcome_result [OF recvConnection_cases [OF own ok c] rc] by simp
  with b have ob: "out = bytes" by (cases "ret = 0") auto
  note fl = recvConnection_flow [OF own c rc]
  have same: "queues_same s1 s'"
    by (rule queues_same_trans [OF s1 t])
  have "p \<in> dom (conns s') \<longleftrightarrow> p \<in> dom (conns s)" for p
    using same fl(3) unfolding queues_same_def by (metis domIff map_option_is_None)
  then show ?thesis
    using fl(1,2) recv_queue_same [OF same, of E] here ob by (auto simp: flow_def)
qed

text \<open>Every call is such a step.\<close>

fun moves_data :: "call \<Rightarrow> bool" where
  "moves_data (C_send fd buf len flags) \<longleftrightarrow> True"
| "moves_data (C_sendmsg fd iov flags) \<longleftrightarrow> True"
| "moves_data (C_recv fd len flags) \<longleftrightarrow> True"
| "moves_data (C_write fd buf count) \<longleftrightarrow> FD_START \<le> fd"
| "moves_data (C_read fd count) \<longleftrightarrow> FD_START \<le> fd"
| "moves_data _ \<longleftrightarrow> False"

lemma no_data: "\<not> moves_data c \<Longrightarrow> sent_by s c ret p = [] \<and> received_by s c out p = []"
  by (cases c; cases ret) auto

lemmas quiet_calls = socket_same bind_same shutdown_same fcntl_same getsockname_same
  getpeername_same epoll_create1_same epoll_ctl_same epoll_pwait_same poll_same ppoll_same
  poll_wait_same ioctl_same stub_same

lemma read_real: "\<not> FD_START \<le> fd \<Longrightarrow> read 1 (\<lambda>_ t. t) E md fd count s = Some (r, s') \<Longrightarrow> queues_same s s'"
  by (auto simp: read_def dest: syscall_same split: prod.splits)

lemma write_real: "\<not> FD_START \<le> fd \<Longrightarrow> write_api E md fd buf count s = Some (r, s') \<Longrightarrow> queues_same s s'"
  by (auto simp: write_api_def dest: syscall_same split: prod.splits)

lemma exec_changes:
  assumes own: "owned E s gs" and ok: "own_ok s" and op: "exec E md c s = Some ((ret, out), s')"
    and "\<not> moves_data c"
  shows "changes E s s'"
  using assms(3,4) listen_changes [OF own ok] close_changes [OF own ok] accept4_changes [OF own ok]
    connect_changes [OF own ok] connectEx_changes [OF own ok]
    accept4_changes [OF own ok, where flags = 0, folded accept_def]
  by (cases c)
    (auto simp: plain_def fcntl64_def epoll_wait_def simp del: One_nat_def split: prod.splits
      dest: quiet_calls [THEN changes_same] read_real [THEN changes_same] write_real [THEN changes_same])

lemma exec_flow:
  assumes own: "owned E s gs" and ok: "own_ok s" and op: "exec E md c s = Some ((ret, out), s')"
  shows "flow E md s (sent_by s c ret) (received_by s c out) s'"
proof (cases "moves_data c")
  case False
  show ?thesis
    by (rule flow_none [OF changes_quiet [OF exec_changes [OF assms False]]]) (simp_all add: no_data [OF False])
next
  case True
  then consider fd buf len flags where "c = C_send fd buf len flags"
    | fd iov flags where "c = C_sendmsg fd iov flags"
    | fd len flags where "c = C_recv fd len flags"
    | fd buf count where "c = C_write fd buf count" "FD_START \<le> fd"
    | fd count where "c = C_read fd count" "FD_START \<le> fd"
    by (cases c) auto
  then show ?thesis
  proof cases
    case (1 fd buf len flags)
    with op obtain r where "send E md fd buf len flags s = Some (r, s')" and "ret = Some r"
      by (auto simp: plain_def)
    from send_flow [OF own ok this(1)] this(2) show ?thesis
      by (elim flow_eq) (simp_all add: 1)
  next
    case (2 fd iov flags)
    with op obtain r where "sendmsg E md fd iov flags s = Some (r, s')" and "ret = Some r"
      by (auto simp: plain_def)
    from sendmsg_flow [OF own ok this(1)] this(2) show ?thesis
      by (elim flow_eq) (simp_all add: 2)
  next
    case (3 fd len flags)
    with op obtain v where "recv 1 (\<lambda>_ t. t) E md fd len flags s = Some (v, s')"
      and "out = bytes_of v"
      by (auto simp del: One_nat_def)
    from recv_flow [OF own ok this] show ?thesis
      by (elim flow_eq) (simp_all add: 3)
  next
    case (4 fd buf count)
    with op obtain r where "send E md fd buf count 0 s = Some (r, s')" and "ret = Some r"
      by (auto simp: plain_def write_api_def)
    from send_flow [OF own ok this(1)] this(2) show ?thesis
      by (elim flow_eq) (simp_all add: 4)
  next
    case (5 fd count)
    with op obtain v where "recv 1 (\<lambda>_ t. t) E md fd count 0 s = Some (v, s')"
      and "out = bytes_of v"
      by (auto simp: read_def simp del: One_nat_def)
    from recv_flow [OF own ok this] show ?thesis
      by (elim flow_eq) (simp_all add: 5)
  qed
qed

section \<open>Histories\<close>

text \<open>
  Runs with the bytes each process has sent and received on each connection since it was
  created.  A freed address starts over when it is used for a new connection.
\<close>

type_synonym history = "mode \<Rightarrow> ptr \<Rightarrow> byte list"

definition log ::
  "mode \<Rightarrow> ('m, 'l, 'k) st \<Rightarrow> (ptr \<Rightarrow> byte list) \<Rightarrow> history \<Rightarrow> history" where
  "log md s new H = (\<lambda>m p. if conns s p = None then []
                          else if m = md then H m p @ new p else H m p)"

inductive run ::
  "('m, 'l, 'k) ext \<Rightarrow> ('m, 'l, 'k) world \<Rightarrow> ('m, 'l, 'k) world \<Rightarrow> history \<Rightarrow> history \<Rightarrow> bool"
  for E :: "('m, 'l, 'k) ext" and w0 :: "('m, 'l, 'k) world" where
  run_start: "run E w0 w0 (\<lambda>_ _. []) (\<lambda>_ _. [])"
| run_step: "run E w0 w S R \<Longrightarrow> exec E md c (w md) = Some ((ret, out), s') \<Longrightarrow>
    run E w0 (commit md s' w) (log md (w md) (sent_by (w md) c ret) S)
      (log md (w md) (received_by (w md) c out) R)"

lemma run_reachable: "run E w0 w S R \<Longrightarrow> reachable E w0 w"
proof (induction rule: run.induct)
  case run_start
  show ?case by (rule reachable.start)
next
  case (run_step w S R md c ret out s')
  then show ?case by (blast intro: reachable.step wstep.call)
qed

lemma recv_queue_cong:
  "conns s = conns t \<Longrightarrow> bufs s = bufs t \<Longrightarrow> recv_queue E md p s = recv_queue E md p t"
  by (auto simp: recv_queue_def payload_at_def split: option.splits)

lemma run_streams:
  assumes "run E w0 w S R" and "booted E w0" and "p \<in> dom (conns (w Server))"
  shows "S (peer md) p = R md p @ concat (recv_queue E md p (w md))"
  using assms
proof (induction arbitrary: p md rule: run.induct)
  case run_start
  then show ?case by (simp add: booted_def)
next
  case (run_step w S R m c ret out s')
  have w: "world_ok E w"
    by (rule reachable_world_ok [OF run_step.prems(1) run_reachable [OF run_step.hyps(1)]])
  have fl: "flow E m (w m) (sent_by (w m) c ret) (received_by (w m) c out) s'"
    using exec_flow [OF _ _ run_step.hyps(2)] w unfolding world_ok_def by blast
  have sh: "shared_ok w" using w by (simp add: world_ok_def)
  have p': "p \<in> dom (conns s')"
    using run_step.prems(2) by (simp add: commit_def split: if_splits)
  have q: "recv_queue E md' p (commit m s' w md'') = recv_queue E md' p s'" for md' md''
    by (rule recv_queue_cong) (simp_all add: commit_def)
  have q0: "recv_queue E md' p (w md'') = recv_queue E md' p (w m)" for md' md''
    by (rule recv_queue_cong) (rule shared_okD [OF sh])+
  show ?case
  proof (cases "p \<in> dom (conns (w m))")
    case False
    then have "log m (w m) new H m' p = []" for new H m' by (auto simp: log_def)
    moreover have "recv_queue E md p s' = []"
    proof -
      have "recv_queue E (peer m) p s' = [] \<and> recv_queue E m p s' = []"
        using fl [unfolded flow_def, rule_format, OF p'] False by simp
      then show ?thesis by (cases m; cases md) simp_all
    qed
    ultimately show ?thesis by (simp add: q)
  next
    case True
    then have "p \<in> dom (conns (w Server))"
      using shared_okD(3) [OF sh, of m Server] by simp
    then have IH: "S (peer md) p = R md p @ concat (recv_queue E md p (w m))"
      using run_step.IH [OF run_step.prems(1), of p md] q0 [of md md] by simp
    have F: "concat (recv_queue E (peer m) p s') = concat (recv_queue E (peer m) p (w m)) @ sent_by (w m) c ret p"
      "concat (recv_queue E m p (w m)) = received_by (w m) c out p @ concat (recv_queue E m p s')"
      using fl True p' by (simp_all add: flow_def)
    have log: "log m (w m) new H m' p = (if m' = m then H m' p @ new p else H m' p)" for new H m'
      using True by (auto simp: log_def)
    show ?thesis
    proof (cases "md = m")
      case True
      with IH F log show ?thesis by (simp add: q)
    next
      case False
      then have "md = peer m" by (cases m; cases md) simp_all
      with IH F log show ?thesis by (simp add: q)
    qed
  qed
qed

end
