(* ===== verification/Boot.thy ===== *)
theory Boot
  imports Streams
begin

text \<open>
  The start of the system: the static initialisation of a process, the registration of an
  interface by the server and then by the client, and the proof that this leads to a world in
  which the API is safe to use.
\<close>

section \<open>Static initialisation\<close>

definition blank_fd :: fd where
  "blank_fd = \<lparr>num = 0, fstate = s_created, listenPort = 0, listenAddress = 0, flagNonblock = 0,
     fd_pConn = NULL, fd_active = False\<rparr>"

definition blank_lfd :: eventListenFd where
  "blank_lfd = \<lparr>lfd_active = False, isLevelTriggered = False,
     lfd_event = \<lparr>ev_events = 0, ev_data = 0\<rparr>, lfd_fd = 0\<rparr>"

definition blank_pfd :: epollfd where
  "blank_pfd = \<lparr>pfd_active = False, pfd_num = 0, allFlags = 0, isMixed = False, realPollfd = 0,
     lfds = replicate MAX_FDS_LISTEN blank_lfd\<rparr>"

text \<open>A process before its first call, with empty shared memory.\<close>

definition init_process :: "'m \<Rightarrow> 'k \<Rightarrow> (string \<rightharpoonup> string) \<Rightarrow> ('m, 'l, 'k) st" where
  "init_process h k fs = \<lparr>heap = h, ifaces = Map.empty, conns = Map.empty, bufs = Map.empty,
     kern = k, files = fs, interfaces = replicate MAX_INTERFACES NULL,
     fds = replicate MAX_FDS blank_fd, currentMaxFd = FD_START, randomPort = 10000,
     pollfds = replicate MAX_POLLFDS blank_pfd, randomPollFd = POLLFD_START, poll_epollfd = -1,
     errno = E_NONE, cur_ctx = NULL\<rparr>"

section \<open>Registration\<close>

text \<open>The structure the server puts at the start of the region.\<close>

lemma initInterface_eq:
  assumes "ll_laws E" and "ifaces s = Map.empty" and "conns s = Map.empty" and "bufs s = Map.empty"
  obtains i where "initInterface E md region n remote own s =
      s\<lparr>heap := createMallocContext E region (region + sizeof_interface E)
          (n - int (sizeof_interface E)) (heap s),
        ifaces := [region \<mapsto> i]\<rparr>"
    and "own_address md i = own" and "remote_address md i = remote"
    and "\<exists>l. connectionList i = Some l \<and> llist_ok E l \<and> malloc_ctx l = region \<and> llist_elems E l = []"
    and "magic i = IFACE_MAGIC"
proof -
  obtain l where l: "\<And>cur. llist_new E region cur = (l, cur)" "llist_ok E l" "llist_elems E l = []"
    "malloc_ctx l = region"
    using llist_new_ok [OF assms(1), of region NULL] by (auto simp: llist_new_def Let_def)
  let ?i = "(set_own_address md own (set_remote_address md remote
      \<lparr>magic = IFACE_MAGIC, connectionList = None, addr1 = 0, addr2 = 0, shmemSize = n,
       shmemStart = region, shmemEnd = nat (int region + n)\<rparr>))\<lparr>connectionList := Some l\<rparr>"
  have empty: "(\<lambda>p. if in_region region n p then None else f p) = Map.empty"
    if "f = Map.empty" for f :: "ptr \<rightharpoonup> 'x"
    using that by (simp add: fun_eq_iff)
  have "initInterface E md region n remote own s =
      s\<lparr>heap := createMallocContext E region (region + sizeof_interface E)
          (n - int (sizeof_interface E)) (heap s),
        ifaces := [region \<mapsto> ?i]\<rparr>"
    using assms(2-4)
    by (cases s) (simp add: initInterface_def Let_def l(1) put_iface_def setMallocContext_def empty)
  moreover have "own_address md ?i = own" "remote_address md ?i = remote" "magic ?i = IFACE_MAGIC"
    by (cases md; simp add: view_defs)+
  ultimately show thesis
    using l(2-4) by (intro that [of ?i]) simp_all
qed

text \<open>
  The kernel as the registration needs it: the keys and segments exist, a segment is attached
  at some address below \<open>2 ^ 64\<close>, and at the address asked for when one is given.
\<close>

definition shm_ok :: "('m, 'l, 'k) ext \<Rightarrow> string \<Rightarrow> int \<Rightarrow> bool" where
  "shm_ok E name n \<longleftrightarrow>
     (\<forall>k. sys_ret (fst (kernel_call E (Ftok name CHR ''r'') k)) \<noteq> -1)
     \<and> (\<forall>key k. sys_ret (fst (kernel_call E (Shmget key n) k)) \<noteq> -1)
     \<and> (\<forall>shmid addr k. addr < 2 ^ 64 \<longrightarrow> (let r = sys_ret (fst (kernel_call E (Shmat shmid addr) k)) in
          0 < r \<and> r < 2 ^ 64 \<and> (addr \<noteq> NULL \<longrightarrow> r = int addr)))"

lemma createSharedRegion_attached:
  assumes "shm_ok E name n" and "addr < 2 ^ 64"
  obtains region k e where "createSharedRegion E name n addr s = (region, s\<lparr>kern := k, errno := e\<rparr>)"
    and "0 < region" and "region < 2 ^ 64" and "addr \<noteq> NULL \<longrightarrow> region = addr"
proof -
  obtain r1 s1 where 1: "syscall E (Ftok name CHR ''r'') s = (r1, s1)" by fastforce
  obtain r2 s2 where 2: "syscall E (Shmget (sys_ret r1) n) s1 = (r2, s2)" by fastforce
  obtain r3 s3 where 3: "syscall E (Shmat (sys_ret r2) addr) s2 = (r3, s3)" by fastforce
  have fst_syscall: "fst (syscall E q t) = fst (kernel_call E q (kern t))" for q and t :: "('a, 'b, 'c) st"
    by (simp add: syscall_def split: prod.splits)
  have r1: "sys_ret r1 \<noteq> -1"
    using assms(1) fst_syscall [of "Ftok name CHR ''r''" s] by (simp add: shm_ok_def 1)
  have r2: "sys_ret r2 \<noteq> -1"
    using assms(1) fst_syscall [of "Shmget (sys_ret r1) n" s1] by (simp add: shm_ok_def 2)
  have r3: "0 < sys_ret r3 \<and> sys_ret r3 < 2 ^ 64 \<and> (addr \<noteq> NULL \<longrightarrow> sys_ret r3 = int addr)"
    using assms fst_syscall [of "Shmat (sys_ret r2) addr" s2] by (simp add: shm_ok_def Let_def 3)
  then have at: "createSharedRegion E name n addr s = (nat (sys_ret r3), s3)"
    using r1 r2 by (simp add: createSharedRegion_def 1 2 3)
  obtain k e where "s3 = s\<lparr>kern := k, errno := e\<rparr>"
    using createSharedRegion_frame [OF at] by blast
  with at r3 show thesis
    by (intro that [of "nat (sys_ret r3)" e k]) auto
qed

lemma ref_shm_ok: "shm_ok ref_lib name n"
  by (simp add: shm_ok_def ref_lib_def ref_kernel_def Let_def)

lemma getFreeInterface_init [simp]:
  "interfaces s = replicate MAX_INTERFACES NULL \<Longrightarrow> getFreeInterface s = Some 0"
  by (simp add: getFreeInterface_def MAX_INTERFACES_def eval_nat_numeral)

definition boot ::
  "('m, 'l, 'k) ext \<Rightarrow> string \<Rightarrow> int \<Rightarrow> sock_address \<Rightarrow> sock_address \<Rightarrow> 'm \<Rightarrow> 'k
    \<Rightarrow> ('m, 'l, 'k) world option" where
  "boot E name n server client h k = do {
     (r1, s1) \<leftarrow> registerInterface E Server False name n client server
                  (init_process h k Map.empty);
     (r2, s2) \<leftarrow> registerInterface E Client False name n server client
                  (share s1 (init_process h k Map.empty));
     if r1 = 1 \<and> r2 = 1 then Some (commit Client s2 (\<lambda>md. s1)) else None
   }"

text \<open>The server: it creates the region, writes its address to the file and sets up the interface.\<close>

definition fresh_process :: "('m, 'l, 'k) st \<Rightarrow> bool" where
  "fresh_process s \<longleftrightarrow> fds s = replicate MAX_FDS blank_fd \<and> pollfds s = replicate MAX_POLLFDS blank_pfd
     \<and> currentMaxFd s = FD_START \<and> randomPort s = 10000 \<and> cur_ctx s = NULL"

lemma getFreeInterface_start:
  "interfaces s = replicate MAX_INTERFACES NULL \<Longrightarrow> getFreeInterface s = Some 0"
  by simp

lemma server_registers:
  assumes lib: "lib_ok E" and shm: "shm_ok E name n" and name: "length name < 251"
  obtains region i s1 where
    "registerInterface E Server False name n client server (init_process h k Map.empty) = Some (1, s1)"
    and "0 < region" and "region < 2 ^ 64" and "files s1 (name @ ''.'' @ ''addr'') = Some (print_llu region)"
    and "ifaces s1 = [region \<mapsto> i]" and "conns s1 = Map.empty" and "bufs s1 = Map.empty"
    and "interfaces s1 = (replicate MAX_INTERFACES NULL)[0 := region]" and "fresh_process s1"
    and "own_address Server i = server" and "remote_address Server i = client"
    and "\<exists>l. connectionList i = Some l \<and> llist_ok E l \<and> malloc_ctx l = region \<and> llist_elems E l = []"
proof -
  let ?s0 = "init_process h k Map.empty :: ('a, 'b, 'c) st"
  let ?f = "name @ ''.'' @ ''addr''"
  have ll: "ll_laws E" using lib by (simp add: lib_ok_def)
  obtain region k1 e1 where
    reg: "createSharedRegion E name n NULL ?s0 = (region, ?s0\<lparr>kern := k1, errno := e1\<rparr>)"
    and r: "0 < region" "region < 2 ^ 64"
    by (rule createSharedRegion_attached [OF shm, of NULL]) simp_all
  let ?t = "(setAddressToFile ?f region (?s0\<lparr>kern := k1, errno := e1\<rparr>))
    \<lparr>interfaces := (replicate MAX_INTERFACES NULL)[0 := region]\<rparr>"
  have t: "ifaces ?t = Map.empty" "conns ?t = Map.empty" "bufs ?t = Map.empty"
    by (simp_all add: setAddressToFile_def init_process_def)
  obtain i where ini: "initInterface E Server region n client server ?t =
      ?t\<lparr>heap := createMallocContext E region (region + sizeof_interface E)
          (n - int (sizeof_interface E)) (heap ?t), ifaces := [region \<mapsto> i]\<rparr>" (is "_ = ?s1")
    and i: "own_address Server i = server" "remote_address Server i = client"
      "\<exists>l. connectionList i = Some l \<and> llist_ok E l \<and> malloc_ctx l = region \<and> llist_elems E l = []"
    by (rule initInterface_eq [OF ll t])
  have "registerInterface E Server False name n client server ?s0 = Some (1, ?s1)"
    using name r(1) reg ini
    by (simp add: registerInterface_def getFreeInterface_start init_process_def mapRegion_def
        setAddressToFile_def Let_def)
  then show thesis
    using r i by (intro that [of ?s1 region i])
      (simp_all add: setAddressToFile_def init_process_def fresh_process_def)
qed

text \<open>The client: it reads the address and attaches the same region.\<close>

lemma client_registers:
  assumes shm: "shm_ok E name n" and name: "length name < 251"
    and r: "0 < region" "region < 2 ^ 64" and addr_file: "files s1 (name @ ''.'' @ ''addr'') = Some (print_llu region)"
  obtains k2 e2 where "registerInterface E Client False name n server client (share s1 (init_process h k Map.empty)) =
    Some (1, (share s1 (init_process h k Map.empty))\<lparr>kern := k2, errno := e2,
      interfaces := (replicate MAX_INTERFACES NULL)[0 := region]\<rparr>)"
proof -
  let ?c0 = "share s1 (init_process h k Map.empty)"
  have addr: "getAddressFromFile (name @ ''.'' @ ''addr'') ?c0 = Some region"
    using r(2) scan_print_llu [of "[]" "[]" region] addr_file by (simp add: getAddressFromFile_def)
  obtain region' k2 e2 where
    reg: "createSharedRegion E name n region ?c0 = (region', ?c0\<lparr>kern := k2, errno := e2\<rparr>)"
    and "region \<noteq> NULL \<longrightarrow> region' = region"
    by (rule createSharedRegion_attached [OF shm r(2)])
  with r(1) have "createSharedRegion E name n region ?c0 = (region, ?c0\<lparr>kern := k2, errno := e2\<rparr>)"
    by simp
  then show thesis
    using name r(1) addr
    by (intro that [of e2 k2])
      (simp add: registerInterface_def getFreeInterface_start init_process_def mapRegion_def)
qed

lemma boot_booted:
  assumes lib: "lib_ok E" and shm: "shm_ok E name n" and name: "length name < 251"
  obtains w region i where "boot E name n server client h k = Some w" and "booted E w"
    and "region \<noteq> NULL"
    and "interfaces (w Server) = (replicate MAX_INTERFACES NULL)[0 := region]"
    and "interfaces (w Client) = (replicate MAX_INTERFACES NULL)[0 := region]"
    and "\<And>md. ifaces (w md) = [region \<mapsto> i]"
    and "own_address Server i = server" and "remote_address Server i = client"
    and "own_address Client i = client" and "remote_address Client i = server"
    and "\<And>md. fds (w md) = replicate MAX_FDS blank_fd"
    and "\<And>md. pollfds (w md) = replicate MAX_POLLFDS blank_pfd"
    and "\<And>md. currentMaxFd (w md) = FD_START" and "\<And>md. randomPort (w md) = 10000"
    and "\<And>md. iface_conns E (w md) region = []"
proof -
  let ?s0 = "init_process h k Map.empty :: ('a, 'b, 'c) st"
  obtain region i s1 where step1: "registerInterface E Server False name n client server ?s0 = Some (1, s1)"
    and r: "0 < region" "region < 2 ^ 64" and addr_file: "files s1 (name @ ''.'' @ ''addr'') = Some (print_llu region)"
    and s1: "ifaces s1 = [region \<mapsto> i]" "conns s1 = Map.empty" "bufs s1 = Map.empty"
      "interfaces s1 = (replicate MAX_INTERFACES NULL)[0 := region]" "fresh_process s1"
    and i: "own_address Server i = server" "remote_address Server i = client"
    and li: "\<exists>l. connectionList i = Some l \<and> llist_ok E l \<and> malloc_ctx l = region \<and> llist_elems E l = []"
    by (rule server_registers [OF assms])
  obtain k2 e2 where step2: "registerInterface E Client False name n server client (share s1 ?s0) =
      Some (1, (share s1 ?s0)\<lparr>kern := k2, errno := e2,
        interfaces := (replicate MAX_INTERFACES NULL)[0 := region]\<rparr>)" (is "_ = Some (1, ?s2)")
    by (rule client_registers [OF shm name r addr_file])
  define w where "w = commit Client ?s2 (\<lambda>md. s1)"
  have boot: "boot E name n server client h k = Some w"
    by (simp add: boot_def step1 step2 w_def)
  have w: "w Client = ?s2" "w Server = share ?s2 s1"
    by (simp_all add: w_def commit_def)
  have sel: "ifaces (w md) = [region \<mapsto> i]" "conns (w md) = Map.empty" "bufs (w md) = Map.empty"
    "fds (w md) = replicate MAX_FDS blank_fd" "pollfds (w md) = replicate MAX_POLLFDS blank_pfd"
    "interfaces (w md) = (replicate MAX_INTERFACES NULL)[0 := region]" "cur_ctx (w md) = NULL"
    "currentMaxFd (w md) = FD_START" "randomPort (w md) = 10000" for md
    by (cases md; simp add: w share_def init_process_def s1(1-4) s1(5) [unfolded fresh_process_def])+
  have wf: "mem_wf E (w md)" for md
    by (rule mem_wfI) (use lib r(1) li in \<open>auto simp: sel list_ok_def split: if_splits\<close>)
  have conns: "iface_conns E (w md) region = []" for md
    using li by (auto simp: iface_conns_def sel opt_elems_def)
  have "set ((replicate MAX_INTERFACES NULL)[0 := region]) \<subseteq> insert region (set (replicate MAX_INTERFACES NULL))"
    by (rule set_update_subset_insert)
  then have "table_ok (w md)" for md
    by (auto simp: table_ok_def sel set_replicate_conv_if split: if_splits)
  then have "booted E w"
    unfolding booted_def w_def [symmetric]
    by (auto simp: wf sel blank_fd_def blank_pfd_def blank_lfd_def) (simp add: w_def shared_ok_commit)
  then show thesis
    using boot r(1) i sel conns by (intro that [of w region i]) (simp_all add: view_defs)
qed

end
