(* ===== verification/Protocol.thy ===== *)
theory Protocol
  imports Streams
begin

text \<open>
  What a connection is to its users, without lists, blocks and masks: a state and the packets
  on the way to each end.  One call of the API is at most one step of this protocol, on at
  most one connection.
\<close>

section \<open>The protocol\<close>

type_synonym aconn = "connectionState \<times> (mode \<Rightarrow> byte list list)"

text \<open>A step of process \<open>md\<close> on one connection; \<open>None\<close> is a connection that does not exist.\<close>

inductive astep :: "mode \<Rightarrow> aconn option \<Rightarrow> aconn option \<Rightarrow> bool" for md :: mode where
  stay: "astep md x x"
| offer: "astep md None (Some (c_create, \<lambda>_. []))"
| listen: "astep md None (Some (c_listen, \<lambda>_. []))"
| accept: "astep md (Some (c_create, q)) (Some (c_open, q))"
| withdraw: "astep md (Some (c_create, q)) None"
| send: "astep md (Some (c_open, q)) (Some (c_open, q(peer md := q (peer md) @ ps)))"
| recv: "q md = p # ps \<Longrightarrow> st = c_open \<or> st = c_close
    \<Longrightarrow> astep md (Some (st, q)) (Some (st, q(md := ps)))"
| recv_part: "q md = p # ps \<Longrightarrow> n \<le> length p \<Longrightarrow> st = c_open \<or> st = c_close
    \<Longrightarrow> astep md (Some (st, q)) (Some (st, q(md := drop n p # ps)))"
| hangup: "st = c_open \<or> st = c_listen \<Longrightarrow> astep md (Some (st, q)) (Some (c_close, q))"
| free: "astep md (Some (c_close, q)) None"

inductive_cases astep_NoneE: "astep md None y"
inductive_cases astep_SomeE: "astep md (Some (st, q)) y"

text \<open>A closed connection never comes back: its state only grows, until it is gone.\<close>

definition rank :: "aconn option \<Rightarrow> nat" where
  "rank x = (case x of
     None \<Rightarrow> 0
   | Some (st, q) \<Rightarrow> (case st of c_create \<Rightarrow> 1 | c_listen \<Rightarrow> 1 | c_open \<Rightarrow> 2 | c_close \<Rightarrow> 3))"

lemma astep_rank: "astep md x (Some y) \<Longrightarrow> rank x \<le> rank (Some y)"
  by (induction x "Some y" rule: astep.induct) (auto simp: rank_def split: connectionState.splits)

text \<open>Only \<open>send\<close> makes the stream to the peer longer, and only on an open connection.\<close>

lemma astep_no_send_after_close:
  "astep md (Some (c_close, q)) (Some (st, q')) \<Longrightarrow> st = c_close \<and> q' (peer md) = q (peer md)"
  by (cases md; erule astep_SomeE) auto

section \<open>The abstraction\<close>

definition aview :: "('m, 'l, 'k) ext \<Rightarrow> ('m, 'l, 'k) st \<Rightarrow> ptr \<Rightarrow> aconn option" where
  "aview E s p = map_option (\<lambda>c. (connState c, \<lambda>md. recv_queue E md p s)) (conns s p)"

text \<open>One call: one step on one connection.\<close>

definition protocol_step ::
  "('m, 'l, 'k) ext \<Rightarrow> mode \<Rightarrow> ('m, 'l, 'k) st \<Rightarrow> ('m, 'l, 'k) st \<Rightarrow> bool" where
  "protocol_step E md s s' \<longleftrightarrow> (\<exists>p. (\<forall>q. q \<noteq> p \<longrightarrow> aview E s' q = aview E s q)
     \<and> astep md (aview E s p) (aview E s' p))"

lemma protocol_step_none: "(\<And>q. aview E s' q = aview E s q) \<Longrightarrow> protocol_step E md s s'"
  by (auto simp: protocol_step_def intro: astep.stay)

lemma aview_fields:
  "aview E s p = (case conn_fields s p of
     None \<Rightarrow> None
   | Some (st, b1, b2) \<Rightarrow> Some (st, \<lambda>md. map (payload_at s)
       (opt_elems E (case md of Server \<Rightarrow> b1 | Client \<Rightarrow> b2))))"
proof (cases "conns s p")
  case None
  then show ?thesis by (simp add: aview_def conn_fields_def)
next
  case (Some c)
  then have "recv_queue E md p s = map (payload_at s)
      (opt_elems E (case md of Server \<Rightarrow> buf1 c | Client \<Rightarrow> buf2 c))" for md
    by (cases md) (simp_all add: recv_queue_def view_defs)
  with Some show ?thesis
    by (simp add: aview_def conn_fields_def queue_fields_def)
qed

lemma aview_cong:
  assumes "bufs s' = bufs s" and "conn_fields s' p = conn_fields s p"
  shows "aview E s' p = aview E s p"
proof -
  have "payload_at s' = payload_at s"
    using assms(1) by (simp add: payload_at_def fun_eq_iff)
  with assms(2) show ?thesis
    by (cases "conn_fields s p") (auto simp: aview_fields)
qed

lemma aview_same: "queues_same s t \<Longrightarrow> aview E t p = aview E s p"
  by (rule aview_cong) (simp_all add: queues_same_fields)

lemma changes_protocol:
  assumes "changes E s s'"
  shows "protocol_step E md s s'"
proof -
  obtain p where b: "bufs s' = bufs s"
    and other: "\<forall>q. q \<noteq> p \<longrightarrow> conn_fields s' q = conn_fields s q"
    and step: "life E (conn_fields s p) (conn_fields s' p)"
    using assms by (auto simp: changes_def)
  have pay: "payload_at s' = payload_at s"
    using b by (simp add: payload_at_def fun_eq_iff)
  have nil: "map f (opt_elems E (case m of Server \<Rightarrow> x | Client \<Rightarrow> y)) = []"
    if "opt_elems E x = []" "opt_elems E y = []" for f :: "ptr \<Rightarrow> byte list" and m x y
    using that by (cases m) simp_all
  have new: "aview E s' p = (case conn_fields s' p of
     None \<Rightarrow> None
   | Some (st, b1, b2) \<Rightarrow> Some (st, \<lambda>md. map (payload_at s)
       (opt_elems E (case md of Server \<Rightarrow> b1 | Client \<Rightarrow> b2))))"
    by (simp only: aview_fields pay)
  have "astep md (aview E s p) (aview E s' p)"
    unfolding new aview_fields [of E s p] using step
    by cases (auto simp: nil intro: astep.intros)
  moreover have "\<forall>q. q \<noteq> p \<longrightarrow> aview E s' q = aview E s q"
    using other aview_cong [OF b] by blast
  ultimately show ?thesis
    unfolding protocol_step_def by blast
qed

section \<open>Calls that move packets\<close>

lemma protocol_step_at:
  assumes "\<And>q. q \<noteq> p \<Longrightarrow> conns s' q = conns s q" and "\<And>m q. q \<noteq> p \<Longrightarrow> recv_queue E m q s' = recv_queue E m q s"
    and "astep md (aview E s p) (aview E s' p)"
  shows "protocol_step E md s s'"
proof -
  have "aview E s' q = aview E s q" if "q \<noteq> p" for q
    using assms(1,2) [OF that] by (simp add: aview_def)
  with assms(3) show ?thesis by (auto simp: protocol_step_def)
qed

lemma send_step_view:
  assumes "conns s p = Some c" and "connState c = c_open"
    and "conns s' p = Some c'" and "connState c' = c_open"
    and "recv_queue E (peer md) p s' = recv_queue E (peer md) p s @ ps"
    and "recv_queue E md p s' = recv_queue E md p s"
  shows "astep md (aview E s p) (aview E s' p)"
proof -
  let ?q = "\<lambda>m. recv_queue E m p s"
  have "(\<lambda>m. recv_queue E m p s') = ?q(peer md := ?q (peer md) @ ps)"
  proof
    fix m show "recv_queue E m p s' = (?q(peer md := ?q (peer md) @ ps)) m"
      using assms(5,6) by (cases md; cases m) simp_all
  qed
  with assms(1-4) show ?thesis
    using astep.send [of md ?q ps] by (simp add: aview_def)
qed

lemma send_protocol:
  assumes own: "owned E s gs" and ok: "own_ok s" and op: "send E md fd buf len flags s = Some (r, s')"
  shows "protocol_step E md s s'"
proof (cases "\<exists>i. getFdByNum fd s = Some i \<and> fstate (fds s ! i) = s_open")
  case False
  then have "queues_same s s'"
    using op by (auto simp: send_def fail_def split: option.splits)
  then show ?thesis by (intro protocol_step_none aview_same)
next
  case True
  then obtain i where i: "getFdByNum fd s = Some i" "fstate (fds s ! i) = s_open" by blast
  obtain c where c: "conns s (fd_pConn (fds s ! i)) = Some c"
    "connState c = c_open \<or> connState c = c_close" "get_conn (fd_pConn (fds s ! i)) s = Some c"
    by (rule open_conn [OF own i]) blast
  from c(2) show ?thesis
  proof
    assume st: "connState c = c_open"
    note send = send_open [OF own i c(1) st op]
    obtain c' where c': "conns s' = (conns s)(fd_pConn (fds s ! i) \<mapsto> c')" "connState c' = c_open"
      using send(4) by blast
    show ?thesis
      by (rule protocol_step_at [OF _ _ send_step_view [OF c(1) st _ c'(2) send(5,6)]])
        (use c'(1) send(7) in simp_all)
  next
    assume "connState c = c_close"
    with op i c have "queues_same s s'"
      by (auto simp: send_def fail_def handleCloseWhileIO_def)
    then show ?thesis by (intro protocol_step_none aview_same)
  qed
qed

lemma sendmsg_protocol:
  assumes own: "owned E s gs" and ok: "own_ok s" and op: "sendmsg E md fd iov flags s = Some (r, s')"
  shows "protocol_step E md s s'"
proof (cases "\<exists>i. getFdByNum fd s = Some i \<and> fstate (fds s ! i) = s_open")
  case False
  then have "queues_same s s'"
    using op by (auto simp: sendmsg_def fail_def split: option.splits)
  then show ?thesis by (intro protocol_step_none aview_same)
next
  case True
  then obtain i where i: "getFdByNum fd s = Some i" "fstate (fds s ! i) = s_open" by blast
  obtain c where c: "conns s (fd_pConn (fds s ! i)) = Some c"
    "connState c = c_open \<or> connState c = c_close" "get_conn (fd_pConn (fds s ! i)) s = Some c"
    by (rule open_conn [OF own i]) blast
  from c(2) show ?thesis
  proof
    assume st: "connState c = c_open"
    have "send_iov E md fd iov flags 0 s = Some (r, s')"
      using op i c st by (simp add: sendmsg_def)
    note iov = send_iov_open [OF own ok i c(1) st order.refl this]
    obtain c' where c': "conns s' (fd_pConn (fds s ! i)) = Some c'" "connState c' = c_open"
      "\<forall>q. q \<noteq> fd_pConn (fds s ! i) \<longrightarrow> conns s' q = conns s q"
      using iov by blast
    show ?thesis
      by (rule protocol_step_at [OF _ _ send_step_view [OF c(1) st c'(1,2)]]) (use c'(3) iov in blast)+
  next
    assume "connState c = c_close"
    with op i c have "queues_same s s'"
      by (auto simp: sendmsg_def fail_def handleCloseWhileIO_def)
    then show ?thesis by (intro protocol_step_none aview_same)
  qed
qed

lemma recvConnection_protocol:
  assumes own: "owned E s gs" and c: "conns s p = Some c" and i: "pAssociatedIface c \<noteq> NULL"
    and st: "connState c = c_open \<or> connState c = c_close"
    and op: "recvConnection E md p len s = Some (r, out, s')"
  shows "protocol_step E md s s'"
proof -
  note wf = ownedD(1) [OF own]
  show ?thesis
  proof (cases "recv_queue E md p s")
    case Nil
    with op recvConnection_empty [OF wf c i Nil] show ?thesis
      by (auto intro: protocol_step_none)
  next
    case (Cons x xs)
    have upd: "(\<lambda>m. recv_queue E m p t) = (\<lambda>m. recv_queue E m p s)(md := ys)"
      if "recv_queue E md p t = ys" "\<And>p' md'. p' \<noteq> p \<or> md' \<noteq> md \<Longrightarrow> recv_queue E md' p' t = recv_queue E md' p' s"
      for t ys
      using that by (auto simp: fun_eq_iff)
    have view: "aview E s p = Some (connState c, \<lambda>m. recv_queue E m p s)"
      using c by (simp add: aview_def)
    consider "int (length x) \<le> len" | "0 \<le> len" "len < int (length x)" | "len < 0" by linarith
    then show ?thesis
    proof cases
      case 1
      obtain t c' where t: "recvConnection E md p len s = Some (int (length x), x, t)"
        "recv_queue E md p t = xs"
        "\<And>p' md'. p' \<noteq> p \<or> md' \<noteq> md \<Longrightarrow> recv_queue E md' p' t = recv_queue E md' p' s"
        "conns t = (conns s)(p \<mapsto> c')" "connState c' = connState c"
        by (rule recvConnection_whole_queues [OF wf c i Cons 1]) blast
      have "aview E t p = Some (connState c, (\<lambda>m. recv_queue E m p s)(md := xs))"
        using t(4,5) upd [OF t(2,3)] by (simp add: aview_def)
      then have "astep md (aview E s p) (aview E t p)"
        using astep.recv [of "\<lambda>m. recv_queue E m p s" md x xs "connState c"] Cons st
        by (simp add: view)
      then have "protocol_step E md s t"
        by (rule protocol_step_at [rotated 2]) (use t(3,4) in simp_all)
      with op t(1) show ?thesis by simp
    next
      case 2
      obtain t where t: "recvConnection E md p len s = Some (len, take (nat len) x, t)"
        "recv_queue E md p t = drop (nat len) x # xs"
        "\<And>p' md'. p' \<noteq> p \<or> md' \<noteq> md \<Longrightarrow> recv_queue E md' p' t = recv_queue E md' p' s"
        "conns t = conns s"
        by (rule recvConnection_part_queues [OF wf c i Cons 2]) blast
      have "aview E t p = Some (connState c, (\<lambda>m. recv_queue E m p s)(md := drop (nat len) x # xs))"
        using t(4) c upd [OF t(2,3)] by (simp add: aview_def)
      then have "astep md (aview E s p) (aview E t p)"
        using astep.recv_part [of "\<lambda>m. recv_queue E m p s" md x xs "nat len" "connState c"]
          Cons st 2 by (simp add: view)
      then have "protocol_step E md s t"
        by (rule protocol_step_at [rotated 2]) (use t(3,4) in simp_all)
      with op t(1) show ?thesis by simp
    next
      case 3
      with op recvConnection_negative [OF wf c i Cons] show ?thesis by simp
    qed
  qed
qed

lemma protocol_step_after: "protocol_step E md s t \<Longrightarrow> queues_same t u \<Longrightarrow> protocol_step E md s u"
  by (simp add: protocol_step_def aview_same)

lemma recv_protocol:
  assumes own: "owned E s gs" and ok: "own_ok s"
    and op: "recv 1 (\<lambda>_ t. t) E md fd len flags s = Some (v, s')"
  shows "protocol_step E md s s'"
proof (cases "\<exists>i. getFdByNum fd s = Some i \<and> fstate (fds s ! i) = s_open")
  case False
  then have "queues_same s s'"
    using op by (auto simp: recv_def split: option.splits)
  then show ?thesis by (intro protocol_step_none aview_same)
next
  case True
  then obtain i where i: "getFdByNum fd s = Some i" "fstate (fds s ! i) = s_open" by blast
  obtain c where c: "conns s (fd_pConn (fds s ! i)) = Some c" "pAssociatedIface c \<noteq> NULL"
    "connState c = c_open \<or> connState c = c_close"
    by (rule open_conn [OF own i]) blast
  from op i obtain x t where round: "recv_round E md i len flags 0 s = Some (x, t)"
    and t: "queues_same t s'"
    by (auto simp: recv_def split: Option.bind_splits option.splits sum.splits)
  from round obtain ret bytes s1
    where rc: "recvConnection E md (fd_pConn (fds s ! i)) (size_to_int len) s = Some (ret, bytes, s1)"
    by (auto simp: recv_round_def split: Option.bind_splits)
  have "queues_same s1 t"
    using round rc
    by (auto simp: recv_round_def handleCloseWhileIO_def split: Option.bind_splits if_splits)
  then show ?thesis
    using recvConnection_protocol [OF own c rc] t by (blast intro: protocol_step_after)
qed

text \<open>Every call of the API.\<close>

lemma exec_protocol:
  assumes own: "owned E s gs" and ok: "own_ok s" and op: "exec E md c s = Some ((ret, out), s')"
  shows "protocol_step E md s s'"
proof (cases "moves_data c")
  case False
  show ?thesis by (rule changes_protocol [OF exec_changes [OF assms False]])
next
  case True
  with op send_protocol [OF own ok] sendmsg_protocol [OF own ok] recv_protocol [OF own ok]
  show ?thesis
    by (cases c) (auto simp: plain_def read_def write_api_def simp del: One_nat_def)
qed

lemma running_protocol:
  "running E w \<Longrightarrow> exec E md c (w md) = Some (r, s') \<Longrightarrow> protocol_step E md (w md) s'"
  using exec_protocol running_ok(1,2) by (cases r) blast

section \<open>Networks\<close>

text \<open>All connections together, changed by one step on one of them at a time.\<close>

inductive areach :: "(ptr \<Rightarrow> aconn option) \<Rightarrow> bool" where
  empty: "areach (\<lambda>_. None)"
| move: "areach N \<Longrightarrow> \<forall>q. q \<noteq> p \<longrightarrow> N' q = N q \<Longrightarrow> astep md (N p) (N' p) \<Longrightarrow> areach N'"

lemma aview_shared:
  assumes "conns s = conns t" and "bufs s = bufs t"
  shows "aview E s = aview E t"
  using assms by (intro ext aview_cong) (simp_all add: conn_fields_def)

lemma reachable_areach:
  assumes "reachable E w0 w" and "booted E w0"
  shows "areach (aview E (w md))"
  using assms
proof (induction arbitrary: md rule: reachable.induct)
  case start
  have "aview E (w0 md) = (\<lambda>_. None)"
    using start shared_okD(3) [of w0 md Server] by (auto simp: booted_def aview_def)
  then show ?case by (simp add: areach.empty)
next
  case (step w w')
  obtain m c r out s' where ex: "exec E m c (w m) = Some ((r, out), s')" and w': "w' = commit m s' w"
    using step.hyps(2) by (rule wstepE) (auto split: prod.splits)
  have w: "world_ok E w"
    by (rule reachable_world_ok [OF step.prems step.hyps(1)])
  then have "protocol_step E m (w m) s'"
    using exec_protocol [OF _ _ ex] unfolding world_ok_def by blast
  then have "areach (aview E s')"
    using areach.move [OF step.IH [OF step.prems, of m]] unfolding protocol_step_def by blast
  moreover have "aview E (w' md) = aview E s'"
    by (rule aview_shared) (simp_all add: w' commit_def)
  ultimately show ?case by simp
qed

text \<open>
  Facts of the protocol alone: in a reachable network an offered connection has no packets, so
  an accepted one starts empty; and a listener never has any.
\<close>

lemma areach_offered:
  assumes "areach N"
  shows "N p = Some (st, q) \<Longrightarrow> st = c_create \<or> st = c_listen \<Longrightarrow> q = (\<lambda>_. [])"
  using assms
proof (induction arbitrary: st q rule: areach.induct)
  case empty
  then show ?case by simp
next
  case (move N p' N' md)
  show ?case
  proof (cases "p = p'")
    case False
    with move show ?thesis by auto
  next
    case True
    from move.hyps(3) show ?thesis
      using move.IH move.prems True
      by (cases rule: astep.cases) auto
  qed
qed

end
