(* ===== verification/Behaviour.thy ===== *)
theory Behaviour
  imports Boot Protocol
begin

text \<open>
  What single calls do, as equations: closing at either end, the names of the two ends of a
  connection, receiving with data, at the end of the stream and on an idle connection, event
  masks.  The root theory draws the properties of the API from them.
\<close>

section \<open>Connected descriptors\<close>

lemma open_has_iface:
  assumes "mem_wf E s" and "conns s p = Some c" and "connState c = c_open \<or> connState c = c_create"
  shows "pAssociatedIface c \<noteq> NULL"
  using mem_wf_conn(1) [OF assms(1,2)] assms(3) by (fastforce simp: conn_ok_def split: if_splits)

lemma conn_of_obtain:
  assumes own: "owned E s gs" and p: "conn_of n s = Some p"
  obtains i c where "getFdByNum n s = Some i" and "fstate (fds s ! i) = s_open"
    and "fd_pConn (fds s ! i) = p" and "conns s p = Some c" and "pAssociatedIface c \<noteq> NULL"
    and "connState c = c_open \<or> connState c = c_close" and "i < length (fds s)"
proof -
  obtain i where i: "getFdByNum n s = Some i" "fstate (fds s ! i) = s_open" "fd_pConn (fds s ! i) = p"
    using p by (auto simp: conn_of_def split: option.splits if_splits)
  obtain c where "conns s p = Some c" "pAssociatedIface c \<noteq> NULL"
    "connState c = c_open \<or> connState c = c_close"
    by (rule open_conn [OF own i(1,2)]) (auto simp: i(3))
  with i getFdByNumD(1) [OF i(1)] show thesis by (intro that)
qed

section \<open>Closing\<close>

text \<open>The number of a closed descriptor is free again.\<close>

lemma closed_number:
  assumes ok: "own_ok s" and i: "getFdByNum n s = Some i"
    and fds: "fds s' = (fds s)[i := (fds s ! i)\<lparr>fstate := s_close, fd_active := False\<rparr>]"
  shows "getFdByNum n s' = None"
proof (rule ccontr)
  assume "getFdByNum n s' \<noteq> None"
  then obtain k where k: "getFdByNum n s' = Some k" by blast
  with getFdByNumD [OF k] getFdByNumD(1) [OF i]
  have "k \<noteq> i" "k < length (fds s)" "fd_active (fds s ! k)" "num (fds s ! k) = n"
    by (auto simp: fds nth_list_update split: if_splits)
  with getFdByNum_iff [OF ok, of n k] i show False by simp
qed

text \<open>
  The first close: a mark and a hang-up event for the peer; every packet stays.  A listener's
  connection is marked, too.
\<close>

lemma close_mark:
  assumes own: "owned E s gs" and fd: "FD_START \<le> n" "n < POLLFD_START" "getFdByNum n s = Some i"
    and c: "conns s (fd_pConn (fds s ! i)) = Some c" "connState c \<in> {c_open, c_listen}"
  obtains s' c' where "close E md n s = Some (0, s')"
    and "conns s' = (conns s)(fd_pConn (fds s ! i) \<mapsto> c')"
    and "connState c' = c_close" and "own_events (peer md) c' = own_events (peer md) c OR EPOLLHUP"
    and "buf1 c' = buf1 c" and "buf2 c' = buf2 c" and "bufs s' = bufs s" and "heap s' = heap s"
    and "fds s' = (fds s)[i := (fds s ! i)\<lparr>fstate := s_close, fd_active := False\<rparr>]"
proof -
  let ?p = "fd_pConn (fds s ! i)"
  let ?c = "set_remote_events md (SET_EVENT (remote_events md c) EPOLLHUP) (c\<lparr>connState := c_close\<rparr>)"
  let ?s' = "deleteFd i (set_fd i (\<lambda>f. f\<lparr>fstate := s_close\<rparr>) (put_conn ?p ?c s))"
  have "?p \<noteq> NULL"
    by (rule mem_wf_conn(3) [OF ownedD(1) [OF own] c(1)])
  then have "close E md n s = Some (0, ?s')"
    using fd closeConnection_mark(1) [OF ownedD(1) [OF own] c, of md]
    by (simp add: close_def handleSockfdClose_def)
  moreover have "own_events (peer md) ?c = own_events (peer md) c OR EPOLLHUP"
    by (simp add: events.peer_own SET_EVENT_def)
  ultimately show thesis
    using getFdByNumD(1) [OF fd(3)]
    by (intro that [of ?s' ?c]) (simp_all add: deleteFd_def put_conn_def set_fd_def)
qed

lemma close_mark_call:
  assumes own: "owned E s gs" and ok: "own_ok s"
    and fd: "FD_START \<le> n" "n < POLLFD_START" "getFdByNum n s = Some i" and p: "p = fd_pConn (fds s ! i)"
    and c: "conns s p = Some c" "connState c \<in> {c_open, c_listen}"
  obtains s' c' where "close E md n s = Some (0, s')" and "getFdByNum n s' = None"
    and "conns s' = (conns s)(p \<mapsto> c')" and "connState c' = c_close"
    and "own_events (peer md) c' = own_events (peer md) c OR EPOLLHUP"
    and "\<forall>m q. recv_queue E m q s' = recv_queue E m q s" and "heap s' = heap s"
    and "connState c = c_listen \<Longrightarrow> refs p (fds s') = 0 \<and> refs p gs = 0"
proof -
  obtain s' c' where op: "close E md n s = Some (0, s')" "conns s' = (conns s)(p \<mapsto> c')"
    "connState c' = c_close" "own_events (peer md) c' = own_events (peer md) c OR EPOLLHUP"
    and same: "buf1 c' = buf1 c" "buf2 c' = buf2 c" "bufs s' = bufs s" "heap s' = heap s"
    and fds: "fds s' = (fds s)[i := (fds s ! i)\<lparr>fstate := s_close, fd_active := False\<rparr>]"
    by (rule close_mark [OF own fd, folded p, OF c]) blast
  note i = getFdByNumD [OF fd(3)]
  have "payload_at s' = payload_at s"
    using same(3) by (simp add: payload_at_def fun_eq_iff)
  then have q: "recv_queue E m q s' = recv_queue E m q s" for m q
    using c(1) same by (cases m) (auto simp: recv_queue_def op(2) view_defs split: option.splits)
  have "p \<noteq> NULL"
    by (rule mem_wf_conn(3) [OF ownedD(1) [OF own] c(1)])
  then have "refs p (fds s) + refs p gs = expected (conns s p)"
    by (rule ownedD(4) [OF own])
  moreover have "hits p (fds s ! i)"
    using i(2) by (simp add: p hits_def)
  ultimately have "connState c = c_listen \<Longrightarrow> refs p (fds s') = 0 \<and> refs p gs = 0"
    using refs_update [OF i(1), of p "(fds s ! i)\<lparr>fstate := s_close, fd_active := False\<rparr>"] c(1)
    by (simp add: fds hits_def expected_def)
  with op q same(4) closed_number [OF ok fd(3) fds] show thesis
    by (intro that [of s' c']) simp_all
qed

text \<open>The last close gives the block of the connection back to the allocator.\<close>

lemma close_last:
  assumes own: "owned E s gs" and ok: "own_ok s" and fd: "FD_START \<le> n" "n < POLLFD_START" "getFdByNum n s = Some i"
    and p: "p = fd_pConn (fds s ! i)" and c: "conns s p = Some c"
    and st: "connState c = c_close \<or> connState c = c_create"
  obtains s' where "close E md n s = Some (0, s')" and "conns s' = (conns s)(p := None)"
    and "(pAssociatedIface c, p) \<in> live E (heap s)"
    and "live E (heap s') = live E (heap s) - {(pAssociatedIface c, p)}" and "bufs s' = bufs s"
    and "refs p (fds s') = 0" and "refs p gs = 0" and "getFdByNum n s' = None"
proof -
  note wf = ownedD(1) [OF own]
  have pnn: "p \<noteq> NULL"
    by (rule mem_wf_conn(3) [OF wf c])
  note i = getFdByNumD [OF fd(3)]
  have hit: "hits p (fds s ! i)"
    using i(2) by (simp add: p hits_def)
  have iface: "pAssociatedIface c \<noteq> NULL"
  proof
    assume z: "pAssociatedIface c = NULL"
    then have "connState c = c_close"
      using st mem_wf_conn(1) [OF wf c] by (auto simp: conn_ok_def)
    with z have "refs p (fds s) = 0"
      using ownedD(4) [OF own pnn] c by simp
    with hit i(1) show False
      by (auto simp: refs_zero)
  qed
  have one: "refs p (fds s) + refs p gs = 1"
    using ownedD(4) [OF own pnn] c st iface by auto
  obtain r' where rm: "removeConnection E md p s = Some (True,
      s\<lparr>ifaces := (ifaces s)(pAssociatedIface c \<mapsto> r'),
        heap := free E (pAssociatedIface c) p (heap s),
        conns := (conns s)(p := None), cur_ctx := NULL\<rparr>)"
    by (rule removeConnection_wf [OF wf c iface])
  let ?t = "s\<lparr>ifaces := (ifaces s)(pAssociatedIface c \<mapsto> r'),
        heap := free E (pAssociatedIface c) p (heap s),
        conns := (conns s)(p := None), cur_ctx := NULL\<rparr>"
  let ?f = "(fds s ! i)\<lparr>fstate := s_close, fd_active := False\<rparr>"
  let ?s' = "deleteFd i (set_fd i (\<lambda>f. f\<lparr>fstate := s_close\<rparr>) ?t)"
  have fds': "fds ?s' = (fds s)[i := ?f]"
    using i(1) by (simp add: deleteFd_def)
  have closed: "close E md n s = Some (0, ?s')"
    using fd rm pnn closeConnection_remove [OF wf c, of md] st
    by (auto simp: close_def handleSockfdClose_def p [symmetric])
  have lv: "(pAssociatedIface c, p) \<in> live E (heap s)"
    using mem_wf_conn(1) [OF wf c] iface by (simp add: conn_ok_def)
  have "refs p (fds ?s') = 0" "refs p gs = 0"
    using refs_update [OF i(1), of p ?f] hit one by (simp_all add: fds' hits_def)
  then show thesis
    using closed lv free_live [OF mem_wfD(3) [OF wf] lv] closed_number [OF ok fd(3) fds']
    by (intro that [of ?s']) (simp_all add: deleteFd_def)
qed

section \<open>Names\<close>

lemma getpeername_open:
  assumes own: "owned E s gs" and i: "getFdByNum n s = Some i"
    and c: "conns s (fd_pConn (fds s ! i)) = Some c" "connState c = c_open"
  obtains iface where "ifaces s (pAssociatedIface c) = Some iface"
    and "getpeername md n (Some a) s = Some (0, Some (a\<lparr>sin_family := ucast AF_INET,
      sin_port := TO_PORT (remote_port md c), sin_addr := TO_SOCKADDR (remote_address md iface)\<rparr>), s)"
proof -
  note wf = ownedD(1) [OF own]
  obtain iface where f: "ifaces s (pAssociatedIface c) = Some iface"
    using mem_wf_conn(1) [OF wf c(1)] c(2) by (auto simp: conn_ok_def split: if_splits)
  then show thesis
    using i c mem_wf_conn(3) [OF wf c(1)]
    by (intro that [of iface])
      (simp_all add: getpeername_def Let_def mem_wf_get_conn [OF wf] mem_wf_get_iface [OF wf])
qed

lemma getsockname_open:
  assumes own: "owned E s gs" and i: "getFdByNum n s = Some i" and st: "fstate (fds s ! i) \<noteq> s_listen"
    and c: "conns s (fd_pConn (fds s ! i)) = Some c" "connState c = c_open"
  obtains iface where "ifaces s (pAssociatedIface c) = Some iface"
    and "getsockname md n (Some a) s = Some (0, Some (a\<lparr>
      sin_port := TO_PORT (own_port md c), sin_addr := TO_SOCKADDR (own_address md iface)\<rparr>), s)"
proof -
  note wf = ownedD(1) [OF own]
  obtain iface where f: "ifaces s (pAssociatedIface c) = Some iface"
    using mem_wf_conn(1) [OF wf c(1)] c(2) by (auto simp: conn_ok_def split: if_splits)
  then show thesis
    using i c st mem_wf_conn(3) [OF wf c(1)]
    by (intro that [of iface])
      (simp_all add: getsockname_def Let_def mem_wf_get_conn [OF wf] mem_wf_get_iface [OF wf])
qed

section \<open>Sending\<close>

lemma send_open_call:
  assumes own: "owned E s gs" and ok: "own_ok s" and p: "conn_of n s = Some p"
    and c: "conns s p = Some c" "connState c = c_open"
    and full: "never_full E" and args: "send_args buf len"
  obtains s' c' where "send E md n buf len flags s = Some (size_to_int len, s')"
    and "recv_queue E (peer md) p s' = recv_queue E (peer md) p s @ [take (nat (size_to_int len)) buf]"
    and "recv_queue E md p s' = recv_queue E md p s"
    and "\<forall>m q. q \<noteq> p \<longrightarrow> recv_queue E m q s' = recv_queue E m q s"
    and "conns s' = (conns s)(p \<mapsto> c')" and "connState c' = c_open"
    and "own_events (peer md) c' = own_events (peer md) c OR EPOLLIN"
proof -
  note wf = ownedD(1) [OF own]
  obtain i where i: "getFdByNum n s = Some i" "fstate (fds s ! i) = s_open" "fd_pConn (fds s ! i) = p"
    by (rule conn_of_obtain [OF own p])
  have n: "pAssociatedIface c \<noteq> NULL"
    using open_has_iface [OF wf c(1)] c(2) by blast
  obtain r s' where op: "send E md n buf len flags s = Some (r, s')"
    using outcome_returns [OF send_outcome [OF own ok], of buf len md n flags] full args by fastforce
  note eff = send_open [OF own i(1,2), unfolded i(3), OF c op]
  have "sendConnection E md p buf (size_to_int len) s = Some (r, s')"
    using op i c by (simp add: send_def mem_wf_get_conn [OF wf])
  then obtain q b c' m' sb' where s': "s' = s\<lparr>heap := m', bufs := (bufs s)(q \<mapsto> b),
      conns := (conns s)(p \<mapsto> c'), cur_ctx := NULL\<rparr>"
    and c': "c' = set_remote_events md (SET_EVENT (remote_events md c) EPOLLIN)
                (set_sendBuffer md (Some sb') c)"
    by (rule sendConnection_wf [OF wf c(1) n]) blast
  have "own_events (peer md) c' = own_events (peer md) c OR EPOLLIN"
    by (simp add: c' events.peer_own SET_EVENT_def)
  moreover have "conns s' = (conns s)(p \<mapsto> c')" "connState c' = c_open"
    using c(2) by (simp_all add: s' c')
  ultimately show thesis
    using op eff by (intro that [of s' c']) simp_all
qed

lemma send_closed_call:
  assumes own: "owned E s gs" and i: "getFdByNum n s = Some i" "fstate (fds s ! i) = s_open"
    and c: "conns s (fd_pConn (fds s ! i)) = Some c" "connState c = c_close"
  shows "send E md n buf len flags s =
    Some (-1, (set_fd i (\<lambda>f. f\<lparr>fstate := s_close\<rparr>) s)\<lparr>errno := ENOTCONN\<rparr>)"
  using i c by (simp add: send_def mem_wf_get_conn [OF ownedD(1) [OF own]] fail_def
      handleCloseWhileIO_def)

section \<open>Receiving\<close>

lemma recv_round_data:
  assumes own: "owned E s gs" and i: "getFdByNum n s = Some i" "fstate (fds s ! i) = s_open"
    and queue: "recv_queue E md (fd_pConn (fds s ! i)) s = x # xs" and "x \<noteq> []"
    and len: "0 < size_to_int len"
  obtains s' where "recv_round E md i len flags k s = Some (Some (Inr
      (int (length (take (nat (size_to_int len)) x)), take (nat (size_to_int len)) x)), s')"
    and "recv_queue E md (fd_pConn (fds s ! i)) s' =
      (if int (length x) \<le> size_to_int len then xs else drop (nat (size_to_int len)) x # xs)"
    and "mem_wf E s'" and "fds s' = fds s"
proof -
  let ?p = "fd_pConn (fds s ! i)"
  note wf = ownedD(1) [OF own]
  obtain c where c: "conns s ?p = Some c" "pAssociatedIface c \<noteq> NULL"
    by (rule open_conn [OF own i])
  show thesis
  proof (cases "int (length x) \<le> size_to_int len")
    case True
    obtain t where t: "recvConnection E md ?p (size_to_int len) s = Some (int (length x), x, t)"
      "mem_wf E t" "recv_queue E md ?p t = xs" "fds t = fds s"
      by (rule recvConnection_whole_queues [OF wf c queue True]) blast
    from True have "take (nat (size_to_int len)) x = x" by simp
    with t True \<open>x \<noteq> []\<close> show thesis
      by (intro that [of t]) (simp_all add: recv_round_def)
  next
    case False
    then obtain t where t: "recvConnection E md ?p (size_to_int len) s =
        Some (size_to_int len, take (nat (size_to_int len)) x, t)"
      "mem_wf E t" "recv_queue E md ?p t = drop (nat (size_to_int len)) x # xs" "fds t = fds s"
      using recvConnection_part_queues [OF wf c queue, of "size_to_int len"] len
      by (metis less_imp_le not_le)
    from False len have "int (length (take (nat (size_to_int len)) x)) = size_to_int len" by simp
    with t False len show thesis
      by (intro that [of t]) (simp_all add: recv_round_def)
  qed
qed

lemma recv_round_idle:
  assumes own: "owned E s gs" and i: "getFdByNum n s = Some i" "fstate (fds s ! i) = s_open"
    and queue: "recv_queue E md (fd_pConn (fds s ! i)) s = []"
    and c: "conns s (fd_pConn (fds s ! i)) = Some c"
  shows "recv_round E md i len flags k s = Some (
    if connState c = c_close then (Some (Inr (0, [])), handleCloseWhileIO i s)
    else if flagNonblock (fds s ! i) \<noteq> 0 \<or> flags AND MSG_DONTWAIT \<noteq> 0 then (Some (Inl EAGAIN), s)
    else (None, s))"
proof -
  note wf = ownedD(1) [OF own]
  have "pAssociatedIface c \<noteq> NULL"
    using open_conn [OF own i] c by force
  then show ?thesis
    using recvConnection_empty [OF wf c _ queue] c
    by (simp add: recv_round_def mem_wf_get_conn [OF wf])
qed

text \<open>
  The same with a packet without bytes at the head of the queue: it is consumed, and the round
  goes on as if the queue were empty.
\<close>

lemma recv_round_no_data:
  assumes own: "owned E s gs" and i: "getFdByNum n s = Some i" "fstate (fds s ! i) = s_open"
    "fd_pConn (fds s ! i) = p"
    and queue: "recv_queue E md p s = q" and none: "q = [] \<or> hd q = []"
    and c: "conns s p = Some c" and len: "q \<noteq> [] \<longrightarrow> 0 \<le> size_to_int len"
  obtains t where "recv_round E md i len flags k s = Some (
      if connState c = c_close then (Some (Inr (0, [])), handleCloseWhileIO i t)
      else if flagNonblock (fds s ! i) \<noteq> 0 \<or> flags AND MSG_DONTWAIT \<noteq> 0 then (Some (Inl EAGAIN), t)
      else (None, t))"
    and "recv_queue E md p t = tl q" and "fds t = fds s" and "q = [] \<Longrightarrow> t = s"
proof (cases q)
  case Nil
  with recv_round_idle [OF own i(1,2), unfolded i(3), OF queue [unfolded Nil] c] queue show thesis
    by (intro that [of s]) simp_all
next
  case (Cons x xs)
  then have queue': "recv_queue E md p s = [] # xs" using queue none by simp
  note wf = ownedD(1) [OF own]
  have "pAssociatedIface c \<noteq> NULL"
    using open_conn [OF own i(1,2)] c i(3) by force
  then obtain t where t: "recvConnection E md p (size_to_int len) s = Some (0, [], t)"
    "mem_wf E t" "recv_queue E md p t = xs" "fds t = fds s" "map_option connState (conns t p) = Some (connState c)"
    by (rule recvConnection_whole_queues [OF wf c _ queue', of "size_to_int len"]) (use len Cons in auto)
  then obtain d where d: "conns t p = Some d" "connState d = connState c"
    by auto
  have "get_conn p t = Some d"
    using d(1) by (simp add: mem_wf_get_conn [OF t(2)])
  with t d(2) i(3) Cons show thesis
    by (intro that [of t]) (simp_all add: recv_round_def)
qed

lemma handleCloseWhileIO_queue [simp]:
  "recv_queue E md p (handleCloseWhileIO i s) = recv_queue E md p s"
  by (rule recv_queue_cong) (simp_all add: handleCloseWhileIO_def)

text \<open>What \<open>recv\<close> stores is as long as it says and fits the buffer, whatever happens while it sleeps.\<close>

lemma recvConnection_bounds:
  assumes "recvConnection E md p len s = Some (r, bs, s')"
  shows "r = int (length bs) \<and> r \<le> max 0 len"
proof -
  have read: "n = int (length xs) \<and> 0 \<le> n" if "mem_read ys off n = Some xs" for ys off n xs
    using that by (auto simp: mem_read_def split: if_splits)
  show ?thesis
    using assms by (auto simp: recvConnection_def Let_def dest!: read
        split: Option.bind_splits if_splits prod.splits)
qed

lemma wait_loop_round:
  "wait_loop n env k try s = Some (Some v, s') \<Longrightarrow> \<exists>j t. try j t = Some (Some v, s')"
  by (induction n arbitrary: k s) (auto split: option.splits prod.splits)

lemma recv_within:
  assumes "recv rounds env E md n len flags s = Some (Some (r, bs), s')"
  shows "(r = -1 \<and> bs = []) \<or> (r = int (length bs) \<and> r \<le> max 0 (size_to_int len))"
proof -
  have "r = int (length bs) \<and> r \<le> max 0 (size_to_int len)"
    if "recv_round E md i len flags j t = Some (Some (Inr (r, bs)), u)" for i j t u
    using that recvConnection_bounds
    by (fastforce simp: recv_round_def split: Option.bind_splits if_splits prod.splits)
  then show ?thesis
    using assms by (auto simp: recv_def split: option.splits if_splits Option.bind_splits sum.splits
        dest!: wait_loop_round) blast+
qed

section \<open>Event masks\<close>

lemma hasDataList_queue:
  assumes wf: "mem_wf E s" and c: "conns s p = Some c" and i: "pAssociatedIface c \<noteq> NULL"
    and rb: "recvBuffer md c = Some rb"
  shows "hasDataList E rb \<longleftrightarrow> recv_queue E md p s \<noteq> []"
proof -
  have "llist_ok E rb"
    using chan_buffers [OF wf c i, of md] rb by force
  from ll.has_data [OF this] show ?thesis
    using c rb by (simp add: hasDataList_def recv_queue_def opt_elems_def)
qed

lemma checkAndSetEvents_level:
  assumes own: "owned E s gs" and l: "l = lfd_at s i j" "isLevelTriggered l"
    and f: "f = fds s ! lfd_fd l" "fstate f = s_open \<or> fstate f = s_close"
    and c: "conns s (fd_pConn f) = Some c" "pAssociatedIface c \<noteq> NULL"
    and m: "m = (if recv_queue E md (fd_pConn f) s \<noteq> [] then EPOLLIN else 0) OR EPOLLOUT
      OR (if connState c = c_close then EPOLLHUP else 0)"
  shows "checkAndSetEvents E md i j em evs s = Some (
      if m AND em \<noteq> 0 then evs @ [\<lparr>ev_events = m AND em, ev_data = ev_data (lfd_event l)\<rparr>] else evs,
      put_conn (fd_pConn f) (set_own_lt_events md m c) s)"
proof -
  note wf = ownedD(1) [OF own]
  have get: "get_conn (fd_pConn f) s = Some c"
    using c(1) by (simp add: mem_wf_get_conn [OF wf])
  obtain rb where rb: "recvBuffer md c = Some rb"
    using chan_buffers [OF wf c, of md] by metis
  have set: "setLevelTriggeredEvents E md (fd_pConn f) s =
      Some (put_conn (fd_pConn f) (set_own_lt_events md m c) s)"
    using setLevelTriggeredEvents_eq [OF get rb, of E] hasDataList_queue [OF wf c rb] by (simp add: m)
  have "get_conn (fd_pConn f) (put_conn (fd_pConn f) (set_own_lt_events md m c) s) =
      Some (set_own_lt_events md m c)"
    using mem_wf_conn(3) [OF wf c(1)] by (simp add: get_conn_def put_conn_def)
  with l(2) f set show ?thesis
    by (auto simp: checkAndSetEvents_def l(1) [symmetric] f(1) [symmetric] Let_def IS_EVENT_SET_def)
qed

lemma checkAndSetEvents_edge:
  assumes "l = lfd_at s i j" and "\<not> isLevelTriggered l" and "p = fd_pConn (fds s ! lfd_fd l)"
    and "get_conn p s = Some c"
  shows "checkAndSetEvents E md i j em evs s = Some (
    if own_events md c AND em \<noteq> 0
    then (evs @ [\<lparr>ev_events = own_events md c AND em, ev_data = ev_data (lfd_event l)\<rparr>],
          put_conn p (set_own_events md (own_events md c AND NOT em) c) s)
    else (evs, s))"
  using assms by (simp add: checkAndSetEvents_def Let_def IS_EVENT_SET_def CLEAR_EVENT_def)

end
