(* ===== verification/Establish.thy ===== *)
theory Establish
  imports Behaviour
begin

text \<open>
  How a connection comes about: binding and listening, offering a connection with \<open>connect\<close>,
  taking it with \<open>accept\<close>, and the answers a process gets while it waits.
\<close>

section \<open>Addresses and ports\<close>

lemma TO_PORT_PORT [simp]: "TO_PORT (PORT a) = sin_port a"
  by (simp add: TO_PORT_def PORT_def)

lemma TO_SOCKADDR_SOCKADDR [simp]: "TO_SOCKADDR (SOCKADDR a) = sin_addr a"
  by (simp add: TO_SOCKADDR_def SOCKADDR_def)

section \<open>Listening\<close>

lemma listen_call:
  assumes own: "owned E s gs" and ok: "own_ok s" and full: "never_full E"
    and i: "getFdByNum n s = Some i" "fstate (fds s ! i) = s_bound"
  obtains s' p where "listen E md n backlog s = Some (0, s')" and "p \<noteq> NULL" and "conns s p = None"
    and "fds s' = (fds s)[i := (fds s ! i)\<lparr>fd_pConn := p, fstate := s_listen\<rparr>]"
    and "map_option connState (conns s' p) = Some c_listen" and "bufs s' = bufs s"
proof -
  obtain p s1 where op: "createNewListenerConnection E md s = Some (p, s1)"
    using createNewListenerConnection_defined [OF full, of md s] by auto
  obtain c m' where s1: "s1 = s\<lparr>heap := m', conns := (conns s)(p \<mapsto> c)\<rparr>" and p: "p \<noteq> NULL" "conns s p = None"
    and c: "connState c = c_listen"
    by (rule createNewListenerConnection_wf [OF ownedD(1) [OF own] own_okD(2) [OF ok] op]) blast
  show thesis
    by (rule that [of "set_fd i (\<lambda>f. f\<lparr>fd_pConn := p, fstate := s_listen\<rparr>) s1" p])
      (use i op p c in \<open>simp_all add: listen_def s1\<close>)
qed

text \<open>The name of a listening socket is the address it was bound to.\<close>

lemma bind_listen_name:
  assumes own: "owned E s gs" and ok: "own_ok s" and full: "never_full E"
    and i: "getFdByNum n s = Some i" "fstate (fds s ! i) = s_created"
  obtains s1 s2 where "bind n (Some a) s = Some (0, s1)" and "listen E md n backlog s1 = Some (0, s2)"
    and "getsockname md n (Some b) s2 =
      Some (0, Some (b\<lparr>sin_port := sin_port a, sin_addr := sin_addr a\<rparr>), s2)"
proof -
  let ?g = "\<lambda>f. f\<lparr>listenPort := PORT a, listenAddress := SOCKADDR a, fstate := s_bound\<rparr>"
  let ?s1 = "set_fd i ?g s"
  have lt: "i < length (fds s)"
    by (rule getFdByNumD(1) [OF i(1)])
  have bind: "bind n (Some a) s = Some (0, ?s1)"
    using i by (simp add: bind_def)
  have k: "kept E s gs ?s1"
    using outcome_result [OF bind_outcome [OF own ok] bind] by simp
  have i1: "getFdByNum n ?s1 = Some i" "fstate (fds ?s1 ! i) = s_bound"
    using i(1) lt by (simp_all add: getFdByNum_def first_slot_update)
  obtain s2 p where l: "listen E md n backlog ?s1 = Some (0, s2)"
    and f: "fds s2 = (fds ?s1)[i := (fds ?s1 ! i)\<lparr>fd_pConn := p, fstate := s_listen\<rparr>]"
    by (rule listen_call [OF keptD(1,2) [OF k] full i1])
  have "getFdByNum n s2 = Some i"
    using i1(1) lt by (simp add: getFdByNum_def f first_slot_update)
  moreover have "fds s2 ! i = (?g (fds s ! i))\<lparr>fd_pConn := p, fstate := s_listen\<rparr>"
    using lt by (simp add: f)
  ultimately have "getsockname md n (Some b) s2 =
      Some (0, Some (b\<lparr>sin_port := sin_port a, sin_addr := sin_addr a\<rparr>), s2)"
    by (simp add: getsockname_def Let_def)
  with bind l show thesis by (rule that)
qed

section \<open>Accepting\<close>

text \<open>The connection the next \<open>accept\<close> on descriptor \<open>i\<close> takes; \<open>NULL\<close> when none is waiting.\<close>

definition next_waiting ::
  "('m, 'l, 'k) ext \<Rightarrow> mode \<Rightarrow> fd \<Rightarrow> ('m, 'l, 'k) st \<Rightarrow> ptr" where
  "next_waiting E md f s = first_or_NULL (waiting md (listenPort f) s)
     (table_conns E s (\<lambda>x. listenAddress f = 0 \<or> own_address md x = listenAddress f) (interfaces s))"

lemma accept_round_next:
  assumes "mem_wf E s" and "table_ok s"
  shows "accept_round E md i k s = Some (
    let p = next_waiting E md (fds s ! i) s
    in if p \<noteq> NULL then (Some (Inr p), opened p s)
       else (if flagNonblock (fds s ! i) \<noteq> 0 then Some (Inl EAGAIN)
             else if fstate (fds s ! i) = s_close then Some (Inl EBADF) else None, s))"
  using acceptNewConnectionOnAnyIface_eq [OF assms, of md "listenAddress (fds s ! i)"
      "listenPort (fds s ! i)"]
  by (simp add: accept_round_def Let_def next_waiting_def)

lemma next_waiting_conn:
  assumes wf: "mem_wf E s" and tab: "table_ok s" and p: "next_waiting E md f s = p" "p \<noteq> NULL"
  obtains c where "conns s p = Some c" and "connState c = c_create" and "own_port md c = listenPort f"
    and "pAssociatedIface c \<noteq> NULL" and "pAssociatedIface c \<in> set (interfaces s)"
    and "listenAddress f = 0 \<or> own_address md (the (ifaces s (pAssociatedIface c))) = listenAddress f"
proof -
  note props = table_conns_props [OF wf tab [unfolded table_ok_def]]
  have "p \<in> set (table_conns E s (\<lambda>x. listenAddress f = 0 \<or> own_address md x = listenAddress f)
      (interfaces s))" and w: "waiting md (listenPort f) s p"
    using first_or_NULL_hit [OF props(1)] p unfolding next_waiting_def by blast+
  from props(2) [OF this(1)] w that show thesis
    by (auto simp: waiting_def split: option.splits)
qed

lemma accept_call:
  assumes own: "owned E s gs" and ok: "own_ok s"
    and i: "getFdByNum n s = Some i" "fstate (fds s ! i) = s_listen"
    and p: "next_waiting E md (fds s ! i) s = p" "p \<noteq> NULL"
    and free: "\<exists>f \<in> set (fds s). \<not> fd_active f" and rounds: "0 < rounds"
  obtains c iface s' where "conns s p = Some c" and "connState c = c_create"
    and "own_port md c = listenPort (fds s ! i)" and "ifaces s (pAssociatedIface c) = Some iface"
    and "accept4 rounds env E md n (Some a) flags s = Some (Some (currentMaxFd s,
      Some (a\<lparr>sin_family := ucast AF_INET, sin_port := TO_PORT (remote_port md c),
        sin_addr := TO_SOCKADDR (remote_address md iface)\<rparr>)), s')"
    and "conn_of (currentMaxFd s) s' = Some p"
    and "conns s' = (conns s)(p \<mapsto> c\<lparr>connState := c_open\<rparr>)" and "bufs s' = bufs s"
proof -
  note wf = ownedD(1) [OF own]
  obtain r where r: "rounds = Suc r" using rounds by (cases rounds) auto
  obtain c where c: "conns s p = Some c" "connState c = c_create" "own_port md c = listenPort (fds s ! i)"
    "pAssociatedIface c \<noteq> NULL"
    by (rule next_waiting_conn [OF wf own_okD(1) [OF ok] p])
  obtain iface where iface: "ifaces s (pAssociatedIface c) = Some iface"
    using mem_wf_conn(1) [OF wf c(1)] c(4) by (auto simp: conn_ok_def)
  have round: "accept_round E md i 0 s = Some (Some (Inr p), opened p s)"
    using accept_round_next [OF wf own_okD(1) [OF ok]] p by (simp add: Let_def)
  show thesis
  proof (cases rule: accept_finish_eq [OF ok, of md p "Some a" flags])
    case 1
    with free show thesis by blast
  next
    case (2 j)
    let ?u = "accepted j p flags s"
    note u = accepted_sel [OF c(1), of j flags]
    have f: "fds ?u ! j = (fds s ! j)\<lparr>fd_active := True, num := currentMaxFd s, fstate := s_open,
        fd_pConn := p, flagNonblock := flags AND SOCK_NONBLOCK\<rparr>"
      using 2(1) by (simp add: u)
    have get: "get_conn p ?u = Some (c\<lparr>connState := c_open\<rparr>)"
      "get_iface (pAssociatedIface c) ?u = Some iface"
      using p(2) iface c(4) by (simp_all add: get_conn_def get_iface_def u)
    let ?a = "a\<lparr>sin_family := ucast AF_INET, sin_port := TO_PORT (remote_port md c),
        sin_addr := TO_SOCKADDR (remote_address md iface)\<rparr>"
    have "getpeername md (currentMaxFd s) (Some a) ?u = Some (0, Some ?a, ?u)"
      using 2(3) f get p(2) by (simp add: getpeername_def Let_def)
    with 2(5) have "accept_finish md p (Some a) flags (opened p s) = Some ((currentMaxFd s, Some ?a), ?u)"
      by simp
    then have "accept4 rounds env E md n (Some a) flags s = Some (Some (currentMaxFd s, Some ?a), ?u)"
      using i round by (simp add: accept4_def r)
    moreover have "conn_of (currentMaxFd s) ?u = Some p"
      using 2(3) f by (simp add: conn_of_def)
    ultimately show thesis
      using c(1-3) iface u by (intro that [of c iface ?u]) simp_all
  qed
qed

text \<open>
  A blocking call that has slept in all rounds so far goes on as one that is called now, if the
  listener is still there.
\<close>

lemma accept4_after:
  assumes i: "getFdByNum n s = Some i" "fstate (fds s ! i) = s_listen"
    and after: "after_sleeps k env 0 (accept_round E md i) s = Some t" and k: "k < rounds"
    and j: "getFdByNum n t = Some i" "fstate (fds t ! i) = s_listen"
    and round: "accept_round E md i 0 t = Some (Some v, u)"
  shows "accept4 rounds env E md n addr flags s = accept4 1 env E md n addr flags t"
proof -
  have "accept_round E md i (0 + k) t = Some (Some v, u)"
    using round by (simp add: accept_round_def)
  from wait_loop_returns_after [OF after this k]
  have "wait_loop rounds env 0 (accept_round E md i) s = Some (Some v, u)" .
  moreover have "wait_loop 1 env 0 (accept_round E md i) t = Some (Some v, u)"
    using round by simp
  ultimately show ?thesis
    using i j by (simp add: accept4_def del: One_nat_def)
qed

text \<open>No connection is waiting.\<close>

lemma accept_none:
  assumes own: "owned E s gs" and ok: "own_ok s"
    and i: "getFdByNum n s = Some i" "fstate (fds s ! i) = s_listen"
    and p: "next_waiting E md (fds s ! i) s = NULL" and "flagNonblock (fds s ! i) \<noteq> 0" and "0 < rounds"
  shows "accept4 rounds env E md n addr flags s = Some (Some (-1, addr), s\<lparr>errno := EAGAIN\<rparr>)"
proof -
  obtain r where r: "rounds = Suc r" using assms(7) by (cases rounds) auto
  have "accept_round E md i 0 s = Some (Some (Inl EAGAIN), s)"
    using accept_round_next [OF ownedD(1) [OF own] own_okD(1) [OF ok]] p assms(6) by (simp add: Let_def)
  with i show ?thesis by (simp add: accept4_def r)
qed

text \<open>A full descriptor table: the new descriptor is \<open>NULL\<close>, and the code writes through it.\<close>

lemma accept_table_full:
  assumes own: "owned E s gs" and ok: "own_ok s"
    and i: "getFdByNum n s = Some i" "fstate (fds s ! i) = s_listen"
    and p: "next_waiting E md (fds s ! i) s \<noteq> NULL" and full: "\<forall>f \<in> set (fds s). fd_active f"
    and rounds: "0 < rounds"
  shows "accept4 rounds env E md n addr flags s = None"
proof -
  obtain r where r: "rounds = Suc r" using rounds by (cases rounds) auto
  let ?p = "next_waiting E md (fds s ! i) s"
  have round: "accept_round E md i 0 s = Some (Some (Inr ?p), opened ?p s)"
    using accept_round_next [OF ownedD(1) [OF own] own_okD(1) [OF ok]] p by (simp add: Let_def)
  have "accept_finish md ?p addr flags (opened ?p s) = None"
    using full by (cases rule: accept_finish_eq [OF ok, of md ?p addr flags]) auto
  with i round show ?thesis by (simp add: accept4_def r)
qed

text \<open>Such a table is reachable: a process only has to open sockets until none is left.\<close>

lemma next_waiting_cong:
  "conns s = conns t \<Longrightarrow> ifaces s = ifaces t \<Longrightarrow> interfaces s = interfaces t
   \<Longrightarrow> next_waiting E md f s = next_waiting E md f t"
  by (simp add: next_waiting_def waiting_def [abs_def] table_conns_def iface_conns_def [abs_def])

lemma socket_new:
  assumes free: "\<exists>f \<in> set (fds s). \<not> fd_active f" and n: "currentMaxFd s < POLLFD_START"
  obtains i g s' where "socket AF_INET SOCK_STREAM protocol s = Some (currentMaxFd s, s')"
    and "i < length (fds s)" and "\<not> fd_active (fds s ! i)" and "fd_active g"
    and "fds s' = (fds s)[i := g]" and "currentMaxFd s' = currentMaxFd s + 1"
    and "conns s' = conns s" and "ifaces s' = ifaces s" and "interfaces s' = interfaces s"
proof (cases rule: getEmptyFd_cases [of s])
  case 1
  with free show thesis by blast
next
  case (2 i)
  have "SOCK_STREAM AND NOT (SOCK_NONBLOCK OR SOCK_CLOEXEC) = SOCK_STREAM"
    by (simp add: flag_defs)
  then have "socket AF_INET SOCK_STREAM protocol s = Some (currentMaxFd s,
      set_fd i (\<lambda>f. f\<lparr>num := currentMaxFd s, fstate := s_created, fd_pConn := NULL,
        flagNonblock := SOCK_STREAM AND SOCK_NONBLOCK\<rparr>)
        ((set_fd i (\<lambda>f. f\<lparr>fd_active := True\<rparr>) s)\<lparr>currentMaxFd := currentMaxFd s + 1\<rparr>))"
    using 2(1) n by (simp add: socket_def Let_def)
  then show thesis
    by (rule that) (use 2 in simp_all)
qed

lemma sockets_fill_table:
  assumes "running E w" and "length (filter (\<lambda>f. \<not> fd_active f) (fds (w md))) = k"
    and "currentMaxFd (w md) + int k \<le> POLLFD_START"
  shows "\<exists>w'. running E w' \<and> (\<forall>f \<in> set (fds (w' md)). fd_active f)
    \<and> length (fds (w' md)) = length (fds (w md))
    \<and> (\<forall>i < length (fds (w md)). fd_active (fds (w md) ! i) \<longrightarrow> fds (w' md) ! i = fds (w md) ! i)
    \<and> conns (w' md) = conns (w md) \<and> ifaces (w' md) = ifaces (w md)
    \<and> interfaces (w' md) = interfaces (w md)"
  using assms
proof (induction k arbitrary: w)
  case 0
  then have "\<forall>f \<in> set (fds (w md)). fd_active f"
    by (simp add: filter_empty_conv)
  with 0 show ?case by blast
next
  case (Suc k)
  from Suc.prems(2) have "filter (\<lambda>f. \<not> fd_active f) (fds (w md)) \<noteq> []" by auto
  then have free: "\<exists>f \<in> set (fds (w md)). \<not> fd_active f"
    by (auto simp: filter_empty_conv)
  have room: "currentMaxFd (w md) < POLLFD_START"
    using Suc.prems(3) by simp
  obtain i g s' where op: "socket AF_INET SOCK_STREAM 0 (w md) = Some (currentMaxFd (w md), s')"
    and i: "i < length (fds (w md))" "\<not> fd_active (fds (w md) ! i)" "fd_active g"
    and s': "fds s' = (fds (w md))[i := g]" "currentMaxFd s' = currentMaxFd (w md) + 1"
      "conns s' = conns (w md)" "ifaces s' = ifaces (w md)" "interfaces s' = interfaces (w md)"
    by (rule socket_new [OF free room])
  let ?w = "commit md s' w"
  have "exec E md (C_socket AF_INET SOCK_STREAM 0) (w md) = Some ((Some (currentMaxFd (w md)), []), s')"
    by (simp add: op plain_def)
  then have run: "running E ?w"
    by (rule running_step [OF Suc.prems(1)])
  have w: "?w md = s'"
    by (simp add: commit_def)
  have "length (filter (\<lambda>f. \<not> fd_active f) ((fds (w md))[i := g])) + 1 =
      length (filter (\<lambda>f. \<not> fd_active f) (fds (w md)))"
    using count_update [OF i(1), of "\<lambda>f. \<not> fd_active f" g] i(2,3) by simp
  then have cnt: "length (filter (\<lambda>f. \<not> fd_active f) (fds (?w md))) = k"
    using Suc.prems(2) by (simp add: w s')
  have max: "currentMaxFd (?w md) + int k \<le> POLLFD_START"
    using Suc.prems(3) by (simp add: w s')
  obtain w' where w': "running E w'" "\<forall>f \<in> set (fds (w' md)). fd_active f"
    "length (fds (w' md)) = length (fds s')"
    "\<forall>i < length (fds s'). fd_active (fds s' ! i) \<longrightarrow> fds (w' md) ! i = fds s' ! i"
    "conns (w' md) = conns s'" "ifaces (w' md) = ifaces s'" "interfaces (w' md) = interfaces s'"
    using Suc.IH [OF run cnt max] unfolding w by blast
  have "fds (w' md) ! j = fds (w md) ! j" if "j < length (fds (w md))" "fd_active (fds (w md) ! j)" for j
    using w'(4) that i by (cases "j = i") (auto simp: s')
  with w' s' show ?case
    by (intro exI [of _ w']) simp
qed

section \<open>Connecting\<close>

text \<open>The answer of \<open>connectEx\<close> while it waits, by the state of the connection.\<close>

lemma connect_round_eq:
  assumes wf: "mem_wf E s" and c: "conns s (fd_pConn (fds s ! i)) = Some c"
  shows "connect_round i k s = Some (case connState c of
      c_open \<Rightarrow> Some (Inr ())
    | c_close \<Rightarrow> Some (Inl ECONNREFUSED)
    | _ \<Rightarrow> if flagNonblock (fds s ! i) \<noteq> 0 then Some (Inl EINPROGRESS) else None, s)"
  using c by (simp add: connect_round_def checkIfAcceptedConnection_def checkIfClosedConnection_def
      mem_wf_get_conn [OF wf] split: connectionState.splits)

lemma connectEx_waiting:
  assumes own: "owned E s gs" and i: "getFdByNum n s = Some i" "fstate (fds s ! i) = s_connecting"
    and c: "conns s (fd_pConn (fds s ! i)) = Some c"
  shows "connectEx (Suc r) env E md n addr s = (case connState c of
      c_open \<Rightarrow> Some (Some 0, set_fd i (\<lambda>f. f\<lparr>fstate := s_open\<rparr>) s)
    | c_close \<Rightarrow> Some (Some (-1), s\<lparr>errno := ECONNREFUSED\<rparr>)
    | _ \<Rightarrow> if flagNonblock (fds s ! i) \<noteq> 0 then Some (Some (-1), s\<lparr>errno := EINPROGRESS\<rparr>)
           else wait_loop r env 1 (connect_round i) (env 0 s) \<bind> (\<lambda>(v, s1). case v of
             None \<Rightarrow> Some (None, s1)
           | Some (Inl e) \<Rightarrow> Some (Some (-1), s1\<lparr>errno := e\<rparr>)
           | Some (Inr _) \<Rightarrow> Some (Some 0, set_fd i (\<lambda>f. f\<lparr>fstate := s_open\<rparr>) s1)))"
  using i connect_round_eq [OF ownedD(1) [OF own] c, of 0]
  by (simp add: connectEx_def wait_for_accept_def split: connectionState.splits)

lemma connectEx_after:
  assumes i: "getFdByNum n s = Some i" "fstate (fds s ! i) = s_connecting"
    and after: "after_sleeps k env 0 (connect_round i) s = Some t" and k: "k < rounds"
    and j: "getFdByNum n t = Some i" "fstate (fds t ! i) = s_connecting"
    and round: "connect_round i 0 t = Some (Some v, u)"
  shows "connectEx rounds env E md n addr s = connectEx 1 env E md n addr t"
proof -
  have "connect_round i (0 + k) t = Some (Some v, u)"
    using round by (simp add: connect_round_def)
  from wait_loop_returns_after [OF after this k]
  have "wait_loop rounds env 0 (connect_round i) s = Some (Some v, u)" .
  moreover have "wait_loop 1 env 0 (connect_round i) t = Some (Some v, u)"
    using round by simp
  ultimately show ?thesis
    using i j by (simp add: connectEx_def wait_for_accept_def del: One_nat_def)
qed

text \<open>
  A non-blocking \<open>connect\<close> puts a new connection at the head of the list of the interface and
  returns at once.
\<close>

lemma connect_offers:
  assumes own: "owned E s gs" and ok: "own_ok s" and full: "never_full E"
    and i: "getFdByNum n s = Some i" "fstate (fds s ! i) = s_created" "flagNonblock (fds s ! i) \<noteq> 0"
    and pI: "getInterfaceBySockaddr md (SOCKADDR a) s = Some pI" "pI \<noteq> NULL"
  obtains p c s' where "connect (Suc r) env E md n (Some a) s = Some (Some (-1), s')"
    and "errno s' = EINPROGRESS" and "conns s p = None" and "conns s' = (conns s)(p \<mapsto> c)"
    and "created E md pI (randomPort s) (PORT a) c"
    and "iface_conns E s' pI = p # iface_conns E s pI" and "randomPort s' = randomPort s + 1"
    and "fds s' = (fds s)[i := (fds s ! i)\<lparr>fd_pConn := p, fstate := s_connecting\<rparr>]"
    and "mem_wf E s'" and "dom (ifaces s') = dom (ifaces s)" and "bufs s' = bufs s"
    and "\<forall>q. map_option (own_address (peer md)) (ifaces s' q)
           = map_option (own_address (peer md)) (ifaces s q)"
    and "\<forall>j. j \<noteq> pI \<longrightarrow> iface_conns E s' j = iface_conns E s j"
proof -
  note wf = ownedD(1) [OF own]
  note lt = getFdByNumD(1) [OF i(1)]
  obtain p s1 where new: "createNewConnection E md pI (randomPort s) (PORT a)
      (s\<lparr>randomPort := randomPort s + 1\<rparr>) = Some (p, s1)"
    using createNewConnection_defined [OF mem_wfD(2) [OF wf] full] by fastforce
  obtain c x x' t where op: "start_connect E md i (Some a) s = Some (None, t)"
    and c: "created E md pI (randomPort s) (PORT a) c" and p: "p \<noteq> NULL" "conns s p = None"
    and x: "ifaces s pI = Some x" and wf_t: "mem_wf E t"
    and x': "opt_elems E (connectionList x') = p # iface_conns E s pI" "addr1 x' = addr1 x" "addr2 x' = addr2 x"
    and t: "conns t = (conns s)(p \<mapsto> c)" "ifaces t = (ifaces s)(pI \<mapsto> x')"
      "fds t = (fds s)[i := (fds s ! i)\<lparr>fd_pConn := p, fstate := s_connecting\<rparr>]"
      "randomPort t = randomPort s + 1" "bufs t = bufs s"
    by (rule start_connect_new [OF own ok lt pI new]) blast
  let ?s' = "t\<lparr>errno := EINPROGRESS\<rparr>"
  have ct: "conns t (fd_pConn (fds t ! i)) = Some c" "connState c = c_create" "flagNonblock (fds t ! i) \<noteq> 0"
    using c lt i(3) by (simp_all add: t created_def)
  have "connect (Suc r) env E md n (Some a) s = Some (Some (-1), ?s')"
    using i(1,2) op connect_round_eq [OF wf_t ct(1), of 0] ct(2,3)
    by (simp add: connect_def connectEx_def wait_for_accept_def)
  moreover have "own_address (peer md) x' = own_address (peer md) x"
    using x'(2,3) by (cases md) (simp_all add: view_defs)
  ultimately show thesis
    using c p x x'(1) wf_t t
    by (intro that [of ?s' p c]) (auto simp: iface_conns_def split: option.splits)
qed

section \<open>The three steps of a connection\<close>

lemma table_conns_member:
  "q \<in> set (table_conns E s Q ps) \<longleftrightarrow>
     (\<exists>j \<in> set ps. j \<noteq> NULL \<and> Q (the (ifaces s j)) \<and> q \<in> set (iface_conns E s j))"
  by (auto simp: table_conns_def)

text \<open>
  The other process, whose listener had nothing to accept, finds the connection just offered
  and no other.
\<close>

lemma offered_is_next:
  assumes wf: "mem_wf E t'" and tab: "table_ok t" "table_ok t'" and tabs: "interfaces t' = interfaces t"
    and conns: "conns t' = (conns t)(p \<mapsto> c)" and st: "connState c = c_create" "own_port m c = listenPort f"
    and lists: "iface_conns E t' pI = p # iface_conns E t pI"
      "\<forall>j. j \<noteq> pI \<longrightarrow> iface_conns E t' j = iface_conns E t j"
    and addrs: "\<forall>q. map_option (own_address m) (ifaces t' q) = map_option (own_address m) (ifaces t q)"
    and pI: "pI \<noteq> NULL" "pI \<in> set (interfaces t)"
      "listenAddress f = 0 \<or> own_address m (the (ifaces t pI)) = listenAddress f"
    and none: "next_waiting E m f t = NULL" and wf0: "mem_wf E t"
  shows "next_waiting E m f t' = p"
proof -
  let ?Q = "\<lambda>x. listenAddress f = 0 \<or> own_address m x = listenAddress f"
  have Q: "?Q (the (ifaces t' j)) = ?Q (the (ifaces t j))" if "j \<in> set (interfaces t)" "j \<noteq> NULL" for j
  proof -
    have "j \<in> dom (ifaces t)"
      using tab(1) that unfolding table_ok_def by blast
    then obtain x where "ifaces t j = Some x" by blast
    with addrs [rule_format, of j] show ?thesis by auto
  qed
  have nn: "NULL \<notin> set (table_conns E t' ?Q (interfaces t'))"
    "NULL \<notin> set (table_conns E t ?Q (interfaces t))"
    using table_conns_props(1) [OF wf tab(2) [unfolded table_ok_def]]
      table_conns_props(1) [OF wf0 tab(1) [unfolded table_ok_def]] .
  have "p \<in> set (table_conns E t' ?Q (interfaces t'))"
    using pI lists(1) Q [OF pI(2,1)] by (auto simp: table_conns_member tabs)
  moreover have "waiting m (listenPort f) t' p"
    using st by (simp add: waiting_def conns)
  ultimately have "next_waiting E m f t' \<noteq> NULL"
    using first_or_NULL_nonnull [OF nn(1)] unfolding next_waiting_def by blast
  then have hit: "next_waiting E m f t' \<in> set (table_conns E t' ?Q (interfaces t'))"
    "waiting m (listenPort f) t' (next_waiting E m f t')"
    using first_or_NULL_hit [OF nn(1)] unfolding next_waiting_def by blast+
  show ?thesis
  proof (rule ccontr)
    assume ne: "next_waiting E m f t' \<noteq> p"
    let ?q = "next_waiting E m f t'"
    have "?q \<in> set (table_conns E t ?Q (interfaces t))"
      using hit(1) lists ne Q unfolding table_conns_member tabs
      by (metis set_ConsD)
    moreover have "waiting m (listenPort f) t ?q"
      using hit(2) ne by (simp add: waiting_def conns)
    ultimately have "next_waiting E m f t \<noteq> NULL"
      using first_or_NULL_nonnull [OF nn(2)] unfolding next_waiting_def by blast
    with none show False by simp
  qed
qed

end
