(* ===== verification/Handshake.thy ===== *)
theory Handshake
  imports Establish
begin

text \<open>
  The three steps that establish a connection, taken by the two processes one after the
  other: \<open>connect\<close> offers it, \<open>accept\<close> of the peer takes it, and the next \<open>connectEx\<close> of the
  first process sees that.
\<close>

lemma commit_sel [simp]:
  "commit md s' w md = s'" "commit md s' w (peer md) = share s' (w (peer md))"
  by (simp_all add: commit_def)

lemma recv_queue_share [simp]: "recv_queue E m p (share s t) = recv_queue E m p s"
  by (rule recv_queue_cong) simp_all

text \<open>A connection that has just been offered is the next one the peer's listener takes.\<close>

lemma offered_to_listener:
  assumes run: "running E w" and run1: "running E (commit md s1 w)"
    and pI: "getInterfaceBySockaddr md (SOCKADDR a) (w md) = Some pI" "pI \<noteq> NULL"
      "pI \<in> set (interfaces (w (peer md)))"
    and j: "listenPort f = PORT a" "listenAddress f = 0 \<or> listenAddress f = SOCKADDR a"
    and none: "next_waiting E (peer md) f (w (peer md)) = NULL"
    and new: "conns s1 = (conns (w md))(p \<mapsto> c)" "connState c = c_create" "own_port (peer md) c = PORT a"
      "pAssociatedIface c = pI"
    and lists: "iface_conns E s1 pI = p # iface_conns E (w md) pI"
      "\<forall>j. j \<noteq> pI \<longrightarrow> iface_conns E s1 j = iface_conns E (w md) j"
    and addrs: "\<forall>q. map_option (own_address (peer md)) (ifaces s1 q)
        = map_option (own_address (peer md)) (ifaces (w md) q)"
  shows "next_waiting E (peer md) f (share s1 (w (peer md))) = p"
proof -
  let ?s = "w md" and ?t = "w (peer md)"
  let ?t1 = "share s1 ?t"
  note own = running_ok(1) [OF run] and ok = running_ok(2) [OF run]
  note own1 = running_ok(1) [OF run1, of "peer md", simplified]
    and ok1 = running_ok(2) [OF run1, of "peer md", simplified]
  have same: "conns ?t = conns ?s" "ifaces ?t = ifaces ?s"
    using shared_okD [OF running_ok(3) [OF run]] by metis+
  have ic: "iface_conns E u q = iface_conns E v q" if "ifaces u = ifaces v" for u v :: "('a, 'b, 'c) st" and q
    using that by (simp add: iface_conns_def)
  show ?thesis
  proof (rule offered_is_next [where t = ?t and c = c and pI = pI])
    show "iface_conns E ?t1 pI = p # iface_conns E ?t pI"
      using lists(1) ic [of ?t1 s1 pI] ic [of ?t ?s pI] same(2) by simp
    show "\<forall>j. j \<noteq> pI \<longrightarrow> iface_conns E ?t1 j = iface_conns E ?t j"
      using lists(2) ic [of ?t1 s1] ic [of ?t ?s] same(2) by simp
    obtain pI' where "getInterfaceBySockaddr md (SOCKADDR a) ?s = Some pI'"
      "pI' \<noteq> NULL \<longrightarrow> remote_address md (the (ifaces ?s pI')) = SOCKADDR a"
      by (rule getInterfaceBySockaddr_hit [OF own_okD(1) [OF ok]]) blast
    with pI have "remote_address md (the (ifaces ?s pI)) = SOCKADDR a" by simp
    then show "listenAddress f = 0 \<or> own_address (peer md) (the (ifaces ?t pI)) = listenAddress f"
      using j(2) same(2) by (auto simp: addresses.peer_own)
    show "table_ok ?t" "table_ok ?t1" "mem_wf E ?t" "mem_wf E ?t1"
      by (rule own_okD(1) [OF ok] own_okD(1) [OF ok1] ownedD(1) [OF own] ownedD(1) [OF own1])+
  qed (use new same j(1) addrs pI none in simp_all)
qed

text \<open>The second \<open>connectEx\<close>, once the peer has accepted.\<close>

lemma connect_completes:
  assumes own: "owned E (share t1 s1) gs" and i: "getFdByNum n s = Some i"
    and fds1: "fds s1 = (fds s)[i := (fds s ! i)\<lparr>fd_pConn := p, fstate := s_connecting\<rparr>]"
    and c: "conns t1 p = Some c" "connState c = c_open"
  obtains s2 where "connectEx (Suc 0) (\<lambda>_ t. t) E md n None (share t1 s1) = Some (Some 0, s2)"
    and "conn_of n s2 = Some p" and "conns s2 = conns t1" and "bufs s2 = bufs t1"
proof -
  let ?s2 = "share t1 s1"
  let ?u = "set_fd i (\<lambda>f. f\<lparr>fstate := s_open\<rparr>) ?s2"
  have lt: "i < length (fds s)"
    by (rule getFdByNumD(1) [OF i])
  have i2: "getFdByNum n ?s2 = Some i" "fstate (fds ?s2 ! i) = s_connecting" "fd_pConn (fds ?s2 ! i) = p"
    using i lt by (simp_all add: getFdByNum_def fds1 first_slot_update)
  have "conns ?s2 p = Some c"
    using c(1) by simp
  then have fin: "connectEx (Suc 0) (\<lambda>_ t. t) E md n None ?s2 = Some (Some 0, ?u)"
    using connectEx_waiting [OF own i2(1,2), unfolded i2(3)] c(2) by simp
  have "getFdByNum n ?u = Some i"
    using i2(1) lt by (simp add: getFdByNum_def first_slot_update fds1)
  then have "conn_of n ?u = Some p"
    using lt i2(3) by (simp add: conn_of_def fds1)
  with fin show thesis
    by (intro that [of ?u]) simp_all
qed

lemma created_no_packets:
  assumes "created E md pI own remote c" and "conns u p = Some (c\<lparr>connState := st\<rparr>)"
  shows "recv_queue E m p u = []"
proof -
  obtain l1 l2 where "buf1 c = Some l1" "llist_elems E l1 = []" "buf2 c = Some l2" "llist_elems E l2 = []"
    using assms(1) by (auto simp: created_def)
  then show ?thesis
    using assms(2) by (cases m) (simp_all add: recv_queue_def view_defs opt_elems_def)
qed

lemma handshake_steps:
  assumes run: "running E w" and full: "never_full E"
    and i: "getFdByNum n (w md) = Some i" "fstate (fds (w md) ! i) = s_created"
      "flagNonblock (fds (w md) ! i) \<noteq> 0"
    and pI: "getInterfaceBySockaddr md (SOCKADDR a) (w md) = Some pI" "pI \<noteq> NULL"
      "pI \<in> set (interfaces (w (peer md)))"
    and j: "getFdByNum k (w (peer md)) = Some j" "fds (w (peer md)) ! j = f" "fstate f = s_listen"
      "listenPort f = PORT a" "listenAddress f = 0 \<or> listenAddress f = SOCKADDR a"
    and none: "next_waiting E (peer md) f (w (peer md)) = NULL"
    and free: "\<exists>g \<in> set (fds (w (peer md))). \<not> fd_active g"
  obtains s1 t1 s2 p b' where "connect (Suc 0) (\<lambda>_ t. t) E md n (Some a) (w md) = Some (Some (-1), s1)"
    and "errno s1 = EINPROGRESS" and "conns (w md) p = None"
    and "accept4 (Suc 0) (\<lambda>_ t. t) E (peer md) k (Some b) flags (share s1 (w (peer md))) =
        Some (Some (currentMaxFd (w (peer md)), Some b'), t1)"
    and "sin_port b' = TO_PORT (randomPort (w md))"
    and "conn_of (currentMaxFd (w (peer md))) t1 = Some p"
    and "connectEx (Suc 0) (\<lambda>_ t. t) E md n None (share t1 s1) = Some (Some 0, s2)"
    and "conn_of n s2 = Some p"
    and "map_option connState (conns s2 p) = Some c_open"
    and "\<forall>m. recv_queue E m p s2 = []"
proof -
  let ?s = "w md" and ?t = "w (peer md)" and ?env = "\<lambda>_ t. t"
  note own = running_ok(1) [OF run] and ok = running_ok(2) [OF run]
  obtain p c s1 where con: "connect (Suc 0) ?env E md n (Some a) ?s = Some (Some (-1), s1)"
    "errno s1 = EINPROGRESS" "conns ?s p = None" "conns s1 = (conns ?s)(p \<mapsto> c)"
    and c: "created E md pI (randomPort ?s) (PORT a) c"
    and lists: "iface_conns E s1 pI = p # iface_conns E ?s pI"
      "\<forall>j. j \<noteq> pI \<longrightarrow> iface_conns E s1 j = iface_conns E ?s j"
    and fds1: "fds s1 = (fds ?s)[i := (fds ?s ! i)\<lparr>fd_pConn := p, fstate := s_connecting\<rparr>]"
    and addrs: "\<forall>q. map_option (own_address (peer md)) (ifaces s1 q)
           = map_option (own_address (peer md)) (ifaces ?s q)"
    by (rule connect_offers [OF own ok full i pI(1,2)]) blast
  have c': "connState c = c_create" "own_port (peer md) c = PORT a" "pAssociatedIface c = pI"
    "remote_port (peer md) c = randomPort ?s"
    using c by (simp_all add: created_def ports.peer_own ports.peer_remote)
  have "exec E md (C_connect n (Some a)) ?s = Some ((Some (-1), []), s1)"
    using con(1) by simp
  then have run1: "running E (commit md s1 w)"
    by (rule running_step [OF run])
  let ?t1 = "share s1 ?t"
  note own1 = running_ok(1) [OF run1, of "peer md", simplified]
    and ok1 = running_ok(2) [OF run1, of "peer md", simplified]
  have next1: "next_waiting E (peer md) f ?t1 = p"
    by (rule offered_to_listener [OF run run1 pI j(4,5) none con(4) c'(1-3) lists addrs])
  have pnn: "p \<noteq> NULL"
    using mem_wf_conn(3) [OF ownedD(1) [OF own1], of p c] con(4) by simp
  have k: "getFdByNum k ?t1 = Some j" "fstate (fds ?t1 ! j) = s_listen"
    "next_waiting E (peer md) (fds ?t1 ! j) ?t1 = p" "\<exists>g \<in> set (fds ?t1). \<not> fd_active g"
    using j next1 free by (simp_all add: getFdByNum_def)
  obtain d iface t1 where d: "conns ?t1 p = Some d" "ifaces ?t1 (pAssociatedIface d) = Some iface"
    and acc: "accept4 (Suc 0) ?env E (peer md) k (Some b) flags ?t1 = Some (Some (currentMaxFd ?t1,
        Some (b\<lparr>sin_family := ucast AF_INET, sin_port := TO_PORT (remote_port (peer md) d),
        sin_addr := TO_SOCKADDR (remote_address (peer md) iface)\<rparr>)), t1)"
    and new: "conn_of (currentMaxFd ?t1) t1 = Some p"
    and conns2: "conns t1 = (conns ?t1)(p \<mapsto> d\<lparr>connState := c_open\<rparr>)"
    by (rule accept_call [OF own1 ok1 k(1-3) pnn k(4) zero_less_Suc [of 0], where a = b and flags = flags
          and env = ?env]) blast
  let ?b = "b\<lparr>sin_family := ucast AF_INET, sin_port := TO_PORT (remote_port (peer md) d),
        sin_addr := TO_SOCKADDR (remote_address (peer md) iface)\<rparr>"
  have d: "d = c" using d(1) con(4) by simp
  have "exec E (peer md) (C_accept4 k (Some b) flags) (commit md s1 w (peer md))
      = Some ((Some (currentMaxFd ?t1), []), t1)"
    using acc by simp
  then have run2: "running E (commit (peer md) t1 (commit md s1 w))"
    by (rule running_step [OF run1])
  have w2: "commit (peer md) t1 (commit md s1 w) md = share t1 s1"
    by (cases md) (simp_all add: commit_def)
  have open2: "conns t1 p = Some (c\<lparr>connState := c_open\<rparr>)"
    by (simp add: conns2 d)
  obtain u where u: "connectEx (Suc 0) ?env E md n None (share t1 s1) = Some (Some 0, u)"
    "conn_of n u = Some p" "conns u = conns t1"
    by (rule connect_completes [OF running_ok(1) [OF run2, of md, unfolded w2] i(1) fds1 open2, where md = md])
      simp
  have "recv_queue E m p u = []" for m
    by (rule created_no_packets [OF c, where st = c_open]) (simp add: u(3) open2)
  with con acc new u c'(4) open2 show thesis
    by (intro that [of s1 p ?b t1 u]) (simp_all add: d)
qed

end
