(* ===== verification/Readiness.thy ===== *)
theory Readiness
  imports Establish
begin

text \<open>
  What \<open>epoll_pwait\<close> reports, as a function of the state of the connections: for level-triggered
  listeners on connected sockets, for a single edge-triggered one, and for a listening socket.
\<close>

section \<open>Level-triggered listeners\<close>

text \<open>The events of an end of a connection, and the entry a listener stores for them.\<close>

definition level_mask :: "('m, 'l, 'k) ext \<Rightarrow> mode \<Rightarrow> ptr \<Rightarrow> ('m, 'l, 'k) st \<Rightarrow> eventmask" where
  "level_mask E md p s = (if recv_queue E md p s \<noteq> [] then EPOLLIN else 0) OR EPOLLOUT
     OR (if map_option connState (conns s p) = Some c_close then EPOLLHUP else 0)"

definition level_report ::
  "('m, 'l, 'k) ext \<Rightarrow> mode \<Rightarrow> ('m, 'l, 'k) st \<Rightarrow> eventListenFd \<Rightarrow> epoll_event list" where
  "level_report E md s l =
     (let m = level_mask E md (fd_pConn (fds s ! lfd_fd l)) s AND ev_events (lfd_event l)
      in if lfd_active l \<and> m \<noteq> 0 then [\<lparr>ev_events = m, ev_data = ev_data (lfd_event l)\<rparr>] else [])"

text \<open>All active listeners of epoll descriptor \<open>i\<close> are level-triggered on connected sockets.\<close>

definition level_watch :: "nat \<Rightarrow> ('m, 'l, 'k) st \<Rightarrow> bool" where
  "level_watch i s \<longleftrightarrow> (\<forall>l \<in> set (lfds (pollfds s ! i)). lfd_active l \<longrightarrow> isLevelTriggered l
     \<and> fd_active (fds s ! lfd_fd l)
     \<and> (fstate (fds s ! lfd_fd l) = s_open \<or> fstate (fds s ! lfd_fd l) = s_close))"

text \<open>A step that changes event masks of connections only.\<close>

definition masks_only :: "('m, 'l, 'k) st \<Rightarrow> ('m, 'l, 'k) st \<Rightarrow> bool" where
  "masks_only s s' \<longleftrightarrow> s' = s\<lparr>conns := conns s'\<rparr>
     \<and> (\<forall>p. map_option (\<lambda>c. (connState c, buf1 c, buf2 c, \<lambda>m. own_port m c)) (conns s' p) =
            map_option (\<lambda>c. (connState c, buf1 c, buf2 c, \<lambda>m. own_port m c)) (conns s p))"

lemma masks_only_refl [simp]: "masks_only s s"
  by (simp add: masks_only_def)

lemma masks_only_eq:
  assumes "masks_only s s'"
  obtains x where "s' = s\<lparr>conns := x\<rparr>"
    and "\<And>p. map_option (\<lambda>c. (connState c, buf1 c, buf2 c, \<lambda>m. own_port m c)) (x p) =
      map_option (\<lambda>c. (connState c, buf1 c, buf2 c, \<lambda>m. own_port m c)) (conns s p)"
  by (rule that [of "conns s'"]) (use assms in \<open>simp_all add: masks_only_def\<close>)

lemma masks_only_trans: "masks_only s t \<Longrightarrow> masks_only t u \<Longrightarrow> masks_only s u"
  by (elim masks_only_eq) (simp add: masks_only_def)

lemma masks_only_put:
  assumes "conns s p = Some c" and "connState c' = connState c" and "buf1 c' = buf1 c" and "buf2 c' = buf2 c"
    and "\<And>m. own_port m c' = own_port m c"
  shows "masks_only s (put_conn p c' s)"
  using assms by (auto simp: masks_only_def put_conn_def)

lemma masks_only_sel:
  assumes "masks_only s s'"
  shows "fds s' = fds s" and "pollfds s' = pollfds s"
    and "recv_queue E m p s' = recv_queue E m p s"
    and "map_option connState (conns s' p) = map_option connState (conns s p)"
proof -
  obtain x where x: "s' = s\<lparr>conns := x\<rparr>"
    "map_option (\<lambda>c. (connState c, buf1 c, buf2 c, \<lambda>m. own_port m c)) (x p) =
      map_option (\<lambda>c. (connState c, buf1 c, buf2 c, \<lambda>m. own_port m c)) (conns s p)"
    by (rule masks_only_eq [OF assms]) blast
  then show "fds s' = fds s" "pollfds s' = pollfds s" by simp_all
  from x show "map_option connState (conns s' p) = map_option connState (conns s p)"
    by (auto simp: map_option_case split: option.splits)
  have "payload_at s' = payload_at s"
    using x(1) by (simp add: payload_at_def fun_eq_iff)
  then show "recv_queue E m p s' = recv_queue E m p s"
    using x by (cases m) (auto simp: recv_queue_def view_defs map_option_case split: option.splits)
qed

lemma next_waiting_masks:
  assumes "masks_only s s'"
  shows "next_waiting E md f s' = next_waiting E md f s"
proof -
  obtain x where x: "s' = s\<lparr>conns := x\<rparr>" "\<And>p. map_option (\<lambda>c. (connState c, buf1 c, buf2 c, \<lambda>m. own_port m c)) (x p) =
      map_option (\<lambda>c. (connState c, buf1 c, buf2 c, \<lambda>m. own_port m c)) (conns s p)"
    by (rule masks_only_eq [OF assms]) blast
  have "waiting md port s' p = waiting md port s p" for port p
  proof (cases "conns s p")
    case None
    with x(1) x(2) [of p] show ?thesis by (simp add: waiting_def)
  next
    case (Some c)
    with x(2) [of p] obtain d where d: "x p = Some d" "connState d = connState c"
      "(\<lambda>m. own_port m d) = (\<lambda>m. own_port m c)"
      by auto
    with Some x(1) show ?thesis
      using fun_cong [OF d(3), of md] by (simp add: waiting_def)
  qed
  then have "waiting md port s' = waiting md port s" for port
    by (rule ext)
  then show ?thesis
    using x(1) by (simp add: next_waiting_def table_conns_def iface_conns_def [abs_def])
qed

lemma level_report_masks: "masks_only s s' \<Longrightarrow> level_report E md s' = level_report E md s"
  by (simp add: level_report_def level_mask_def masks_only_sel fun_eq_iff Let_def)

lemma level_watch_masks: "masks_only s s' \<Longrightarrow> level_watch i s' = level_watch i s"
  by (simp add: level_watch_def masks_only_sel)

lemma scan_listener_level:
  assumes own: "owned E s gs" and ok: "own_ok s" and i: "i < length (pollfds s)"
    and j: "j < MAX_FDS_LISTEN" and watch: "level_watch i s"
  obtains s' where "scan_listener E md i j evs s = Some (evs @ level_report E md s (lfd_at s i j), s')"
    and "masks_only s s'" and "kept E s gs s'"
proof (cases "lfd_active (lfd_at s i j)")
  case False
  then show thesis
    using kept_refl [OF own ok] by (intro that [of s]) (simp_all add: scan_listener_def level_report_def Let_def)
next
  case True
  let ?l = "lfd_at s i j"
  let ?f = "fds s ! lfd_fd ?l"
  let ?p = "fd_pConn ?f"
  have len: "j < length (lfds (pollfds s ! i))"
    using own_okD(6) [OF ok] i j by simp
  have l: "isLevelTriggered ?l" "fd_active ?f" "fstate ?f = s_open \<or> fstate ?f = s_close"
    using watch True nth_mem [OF len] by (auto simp: level_watch_def)
  have "lfd_fd ?l < length (fds s)"
    using own_okD(7) [OF ok nth_mem [OF i] nth_mem [OF len] True] own_okD(3) [OF ok] by simp
  then obtain c where c: "conns s ?p = Some c" "pAssociatedIface c \<noteq> NULL"
    using nth_fd_ok [OF own] l(2,3) by (fastforce simp: fd_ok_def)
  let ?m = "level_mask E md ?p s"
  let ?t = "put_conn ?p (set_own_lt_events md ?m c) s"
  have "checkAndSetEvents E md i j (ev_events (lfd_event ?l)) evs s =
      Some (evs @ level_report E md s ?l, ?t)"
    using checkAndSetEvents_level [OF own refl l(1) refl l(3) c, of ?m md] c(1) True
    by (simp add: level_report_def level_mask_def Let_def)
  moreover have "masks_only s ?t" "kept E s gs ?t"
    using masks_only_put [OF c(1)] kept_put_conn [OF own ok c(1)] by simp_all
  ultimately show thesis
    using True l by (intro that [of ?t]) (auto simp: scan_listener_def Let_def)
qed

lemma level_report_length: "length (level_report E md s l) \<le> 1"
  by (simp add: level_report_def Let_def)

lemma scan_listeners_level:
  assumes "owned E s gs" and "own_ok s" and "i < length (pollfds s)"
    and "\<forall>j \<in> set js. j < MAX_FDS_LISTEN" and "level_watch i s" and "length evs \<le> nat maxevents"
  obtains s' where "scan_listeners E md i maxevents js evs s =
      Some (evs @ take (nat maxevents - length evs)
        (concat (map (level_report E md s) (map (lfd_at s i) js))), s')"
    and "masks_only s s'" and "kept E s gs s'"
  using assms
proof (induction js arbitrary: evs s thesis)
  case Nil
  then show ?case using kept_refl by fastforce
next
  case (Cons j js)
  show ?case
  proof (cases "int (length evs) < maxevents")
    case False
    then show ?thesis
      using Cons.prems kept_refl [OF Cons.prems(2,3)] by (intro Cons.prems(1) [of s]) auto
  next
    case True
    let ?r = "level_report E md s (lfd_at s i j)"
    obtain s1 where s1: "scan_listener E md i j evs s = Some (evs @ ?r, s1)" "masks_only s s1"
      "kept E s gs s1"
      by (rule scan_listener_level [OF Cons.prems(2-4) _ Cons.prems(6), of j md evs]) (use Cons.prems(5) in auto)
    note sel = masks_only_sel(1,2) [OF s1(2)]
    have len: "length (evs @ ?r) \<le> nat maxevents"
      using True level_report_length [of E md s "lfd_at s i j"] by simp
    obtain s2 where s2: "scan_listeners E md i maxevents js (evs @ ?r) s1 =
        Some ((evs @ ?r) @ take (nat maxevents - length (evs @ ?r))
          (concat (map (level_report E md s1) (map (lfd_at s1 i) js))), s2)"
      "masks_only s1 s2" "kept E s1 gs s2"
      by (rule Cons.IH [OF _ keptD(1,2) [OF s1(3)], of "evs @ ?r"])
        (use Cons.prems(4-6) s1 sel len level_watch_masks [OF s1(2)] in auto)
    have "length ?r \<le> nat maxevents - length evs"
      using len by simp
    then have "scan_listeners E md i maxevents (j # js) evs s =
      Some (evs @ take (nat maxevents - length evs)
        (concat (map (level_report E md s) (map (lfd_at s i) (j # js)))), s2)"
      using True s1(1) s2(1) by (simp add: sel level_report_masks [OF s1(2)])
    then show ?thesis
      using masks_only_trans [OF s1(2) s2(2)] kept_trans [OF s1(3) s2(3)]
      by (intro Cons.prems(1) [of s2])
  qed
qed

definition level_reports ::
  "('m, 'l, 'k) ext \<Rightarrow> mode \<Rightarrow> nat \<Rightarrow> ('m, 'l, 'k) st \<Rightarrow> epoll_event list" where
  "level_reports E md i s = concat (map (level_report E md s) (lfds (pollfds s ! i)))"

lemma epoll_round_level:
  assumes own: "owned E s gs" and ok: "own_ok s" and i: "i < length (pollfds s)"
    and watch: "level_watch i s" and plain: "\<not> isMixed (pollfds s ! i)"
    and some: "level_reports E md i s \<noteq> []" "0 < maxevents"
  obtains s' where "epoll_round E md i maxevents timeout k s =
      Some (Some (int (length (take (nat maxevents) (level_reports E md i s))),
        take (nat maxevents) (level_reports E md i s)), s')"
    and "masks_only s s'"
proof -
  obtain s' where s': "scan_listeners E md i maxevents [0..<MAX_FDS_LISTEN] [] s =
      Some ([] @ take (nat maxevents - length ([]::epoll_event list))
        (concat (map (level_report E md s) (map (lfd_at s i) [0..<MAX_FDS_LISTEN]))), s')"
    "masks_only s s'"
    by (rule scan_listeners_level [OF own ok i _ watch, of "[0..<MAX_FDS_LISTEN]" "[]" maxevents md]) auto
  have "length (lfds (pollfds s ! i)) = MAX_FDS_LISTEN"
    using own_okD(6) [OF ok] i by simp
  then have "map (lfd_at s i) [0..<MAX_FDS_LISTEN] = lfds (pollfds s ! i)"
    using map_nth [of "lfds (pollfds s ! i)"] by simp
  then have scan: "scan_listeners E md i maxevents [0..<MAX_FDS_LISTEN] [] s =
      Some (take (nat maxevents) (level_reports E md i s), s')"
    using s'(1) by (simp add: level_reports_def)
  have "\<not> isMixed (pollfds s' ! i)"
    using plain masks_only_sel(2) [OF s'(2)] by simp
  then have "real_events E i maxevents evs s' = (evs, s')" for evs
    by (simp add: real_events_def)
  then show thesis
    using some by (intro that [OF _ s'(2)]) (simp add: epoll_round_def scan)
qed

lemma epoll_pwait_level:
  assumes i: "getPollfdByNum epfd s = Some i"
    and sleeps: "after_sleeps d env 0 (epoll_round E md i maxevents timeout) s = Some t" "d < rounds"
    and t: "owned E t gs" "own_ok t" "i < length (pollfds t)"
    and watch: "level_watch i t" "\<not> isMixed (pollfds t ! i)"
    and some: "level_reports E md i t \<noteq> []" "0 < maxevents"
  obtains s' where "epoll_pwait rounds env E md epfd maxevents timeout s =
      Some (Some (int (length (take (nat maxevents) (level_reports E md i t))),
        take (nat maxevents) (level_reports E md i t)), s')"
    and "level_reports E md i s' = level_reports E md i t"
    and "\<forall>m p. recv_queue E m p s' = recv_queue E m p t"
proof -
  obtain s' where s': "epoll_round E md i maxevents timeout (0 + d) t =
      Some (Some (int (length (take (nat maxevents) (level_reports E md i t))),
        take (nat maxevents) (level_reports E md i t)), s')" "masks_only t s'"
    by (rule epoll_round_level [OF t watch some])
  note wait = wait_loop_returns_after [OF sleeps(1) s'(1) sleeps(2)]
  show thesis
    by (rule that [of s'])
      (simp_all add: epoll_pwait_def i wait level_reports_def level_report_masks [OF s'(2)]
        masks_only_sel [OF s'(2)])
qed

section \<open>A single listener\<close>

lemma scan_listeners_append:
  "scan_listeners E md i maxevents (xs @ ys) evs s = do {
     (evs1, s1) \<leftarrow> scan_listeners E md i maxevents xs evs s;
     scan_listeners E md i maxevents ys evs1 s1 }"
proof (induction xs arbitrary: evs s)
  case (Cons x xs)
  then show ?case
    by (cases "scan_listener E md i x evs s"; cases ys) (auto simp: case_prod_unfold)
qed simp

lemma scan_listeners_idle:
  "\<forall>k \<in> set js. \<not> lfd_active (lfd_at s i k) \<Longrightarrow> scan_listeners E md i maxevents js evs s = Some (evs, s)"
  by (induction js) (simp_all add: scan_listener_def Let_def)

definition sole_listener :: "nat \<Rightarrow> nat \<Rightarrow> ('m, 'l, 'k) st \<Rightarrow> bool" where
  "sole_listener i j s \<longleftrightarrow> j < MAX_FDS_LISTEN
     \<and> (\<forall>k < MAX_FDS_LISTEN. lfd_active (lfd_at s i k) \<longleftrightarrow> k = j)"

lemma sole_slots:
  "sole_listener i j s \<Longrightarrow> [0..<MAX_FDS_LISTEN] = [0..<j] @ j # [Suc j..<MAX_FDS_LISTEN]"
  using upt_add_eq_append [of 0 j "MAX_FDS_LISTEN - j"]
  by (simp add: sole_listener_def upt_conv_Cons)

lemma scan_sole:
  assumes "sole_listener i j s" and scan: "scan_listener E md i j [] s = Some (evs, s')"
    and "pollfds s' = pollfds s" and "0 < maxevents"
  shows "scan_listeners E md i maxevents [0..<MAX_FDS_LISTEN] [] s = Some (evs, s')"
  using assms by (simp only: sole_slots [OF assms(1)])
    (simp add: scan_listeners_append scan_listeners_idle sole_listener_def)

lemma epoll_round_sole:
  assumes "sole_listener i j s" and "scan_listener E md i j [] s = Some (evs, s')"
    and "pollfds s' = pollfds s" and "0 < maxevents" and "\<not> isMixed (pollfds s ! i)"
  shows "evs \<noteq> [] \<Longrightarrow> epoll_round E md i maxevents timeout k s = Some (Some (int (length evs), evs), s')"
    and "evs = [] \<Longrightarrow> epoll_round E md i maxevents (-1) k s = Some (None, s')"
  using scan_sole [OF assms(1-4)] assms(3,5) by (simp_all add: epoll_round_def real_events_def)

lemma epoll_pwait_sole:
  assumes "getPollfdByNum epfd s = Some i" and "sole_listener i j s"
    and "scan_listener E md i j [] s = Some (evs, s')"
    and "pollfds s' = pollfds s" and "0 < maxevents" and "\<not> isMixed (pollfds s ! i)"
  shows "evs \<noteq> [] \<Longrightarrow> epoll_pwait (Suc r) env E md epfd maxevents timeout s =
      Some (Some (int (length evs), evs), s')"
    and "evs = [] \<Longrightarrow> epoll_pwait (Suc 0) (\<lambda>_ t. t) E md epfd maxevents (-1) s = Some (None, s')"
  using epoll_round_sole [OF assms(2-6)] assms(1) by (simp_all add: epoll_pwait_def)

text \<open>Edge-triggered: the events since the last report.\<close>

definition edge_listener :: "nat \<Rightarrow> nat \<Rightarrow> eventmask \<Rightarrow> ptr \<Rightarrow> ('m, 'l, 'k) st \<Rightarrow> bool" where
  "edge_listener i j em p s \<longleftrightarrow> sole_listener i j s \<and> \<not> isMixed (pollfds s ! i)
     \<and> \<not> isLevelTriggered (lfd_at s i j) \<and> ev_events (lfd_event (lfd_at s i j)) = em
     \<and> fd_active (fds s ! lfd_fd (lfd_at s i j)) \<and> fd_pConn (fds s ! lfd_fd (lfd_at s i j)) = p
     \<and> (fstate (fds s ! lfd_fd (lfd_at s i j)) = s_open \<or> fstate (fds s ! lfd_fd (lfd_at s i j)) = s_close)"

lemma scan_listener_edge:
  assumes "edge_listener i j em p s" and "get_conn p s = Some c"
  shows "scan_listener E md i j evs s = Some (
    if own_events md c AND em \<noteq> 0
    then (evs @ [\<lparr>ev_events = own_events md c AND em, ev_data = ev_data (lfd_event (lfd_at s i j))\<rparr>],
          put_conn p (set_own_events md (own_events md c AND NOT em) c) s)
    else (evs, s))"
  using assms checkAndSetEvents_edge [OF refl _ refl, of s i j]
  by (auto simp: scan_listener_def edge_listener_def sole_listener_def Let_def)

lemma edge_listener_cong:
  "fds t = fds s \<Longrightarrow> pollfds t = pollfds s \<Longrightarrow> edge_listener i j em p t = edge_listener i j em p s"
  by (simp add: edge_listener_def sole_listener_def)

lemma epoll_pwait_edge:
  assumes i: "getPollfdByNum epfd s = Some i" and l: "edge_listener i j em p s"
    and c: "get_conn p s = Some c" and m: "own_events md c AND em \<noteq> 0" and "0 < maxevents"
  obtains s' where "epoll_pwait (Suc r) env E md epfd maxevents timeout s =
      Some (Some (1, [\<lparr>ev_events = own_events md c AND em,
        ev_data = ev_data (lfd_event (lfd_at s i j))\<rparr>]), s')"
    and "epoll_pwait (Suc 0) (\<lambda>_ t. t) E md epfd maxevents (-1) s' = Some (None, s')"
    and "s' = put_conn p (set_own_events md (own_events md c AND NOT em) c) s"
proof -
  let ?t = "put_conn p (set_own_events md (own_events md c AND NOT em) c) s"
  have t: "fds ?t = fds s" "pollfds ?t = pollfds s" "getPollfdByNum epfd ?t = Some i"
    using i by (simp_all add: put_conn_def getPollfdByNum_def)
  have l': "edge_listener i j em p ?t"
    using l edge_listener_cong [OF t(1,2)] by simp
  note sole = l [unfolded edge_listener_def] l' [unfolded edge_listener_def]
  have "get_conn p ?t = Some (set_own_events md (own_events md c AND NOT em) c)"
    using c by (auto simp: get_conn_def put_conn_def split: if_splits)
  moreover have "own_events md c AND NOT em AND em = 0"
    by (simp add: bit.conj_cancel_right [symmetric] and.assoc and.commute [of "NOT em"])
  ultimately have idle: "scan_listener E md i j [] ?t = Some ([], ?t)"
    using scan_listener_edge [OF l', of _ E md "[]"] by (simp add: and.assoc)
  have busy: "scan_listener E md i j [] s = Some ([\<lparr>ev_events = own_events md c AND em,
      ev_data = ev_data (lfd_event (lfd_at s i j))\<rparr>], ?t)"
    using scan_listener_edge [OF l c, of E md "[]"] m by simp
  show thesis
  proof (rule that [of ?t])
    show "epoll_pwait (Suc r) env E md epfd maxevents timeout s =
      Some (Some (1, [\<lparr>ev_events = own_events md c AND em,
        ev_data = ev_data (lfd_event (lfd_at s i j))\<rparr>]), ?t)"
      using epoll_pwait_sole(1) [OF i _ busy t(2) assms(5)] sole by simp
    show "epoll_pwait (Suc 0) (\<lambda>_ t. t) E md epfd maxevents (-1) ?t = Some (None, ?t)"
      using epoll_pwait_sole(2) [OF t(3) _ idle refl assms(5)] sole by simp
  qed simp
qed

text \<open>A listening socket: the event is set as long as a connection waits, in both modes.\<close>

definition offer_listener :: "nat \<Rightarrow> nat \<Rightarrow> fd \<Rightarrow> ('m, 'l, 'k) st \<Rightarrow> bool" where
  "offer_listener i j f s \<longleftrightarrow> sole_listener i j s \<and> \<not> isMixed (pollfds s ! i)
     \<and> f = fds s ! lfd_fd (lfd_at s i j) \<and> fd_active f \<and> fstate f = s_listen \<and> listenAddress f \<noteq> 0"

lemma scan_listener_offer:
  assumes "offer_listener i j f s" and "get_conn (fd_pConn f) s = Some c"
    and "searchNewConnectionOnAnyIface E md (listenAddress f) (listenPort f) s = Some q"
  obtains s' where "scan_listener E md i j [] s = Some (
      if q \<noteq> NULL then [\<lparr>ev_events = EPOLLIN, ev_data = ev_data (lfd_event (lfd_at s i j))\<rparr>] else [], s')"
    and "masks_only s s'"
proof -
  let ?l = "lfd_at s i j" and ?p = "fd_pConn f"
  let ?c1 = "set_own_events md (own_events md c OR EPOLLIN) c"
  let ?c2 = "set_own_lt_events md (own_lt_events md ?c1 OR EPOLLIN) ?c1"
  have p: "?p \<noteq> NULL" "conns s ?p = Some c"
    using assms(2) by (auto simp: get_conn_def split: if_splits)
  have l: "lfd_active ?l" "fd_active f" "fstate f = s_listen" "fds s ! lfd_fd ?l = f"
    using assms(1) by (auto simp: offer_listener_def sole_listener_def)
  have in_: "(x OR EPOLLIN) AND EPOLLIN = EPOLLIN" "EPOLLIN \<noteq> 0" for x
    by (simp_all add: EPOLLIN_def bit.conj_disj_distrib2)
  let ?t = "put_conn ?p ?c2 s"
  have sel: "fds ?t = fds s" "pollfds ?t = pollfds s" "get_conn ?p ?t = Some ?c2"
    using p by (simp_all add: put_conn_def get_conn_def)
  show thesis
  proof (cases "q = NULL")
    case True
    let ?c = "set_own_lt_events md (CLEAR_EVENT (own_lt_events md c) EPOLLIN) c"
    show thesis
      by (rule that [of "put_conn ?p ?c s"])
        (use True l assms(2,3) masks_only_put [OF p(2), of ?c] in \<open>simp_all add: scan_listener_def Let_def\<close>)
  next
    case False
    have m: "masks_only s (put_conn ?p (set_own_events md v ?c2) s)" "masks_only s ?t" for v
      by (rule masks_only_put [OF p(2)]; simp)+
    let ?u = "if isLevelTriggered ?l then ?t
      else put_conn ?p (set_own_events md (own_events md ?c2 AND NOT EPOLLIN) ?c2) ?t"
    have "checkAndSetEvents E md i j EPOLLIN [] ?t =
        Some ([\<lparr>ev_events = EPOLLIN, ev_data = ev_data (lfd_event ?l)\<rparr>], ?u)"
      using l sel by (simp add: checkAndSetEvents_def Let_def IS_EVENT_SET_def CLEAR_EVENT_def in_)
    moreover have "masks_only s ?u"
      using m by (simp add: put_conn_def)
    ultimately show thesis
      by (intro that [of ?u])
        (use False l assms(2,3) in \<open>simp_all add: scan_listener_def Let_def SET_EVENT_def\<close>)
  qed
qed

lemma epoll_pwait_offer:
  assumes i: "getPollfdByNum epfd s = Some i" and l: "offer_listener i j f s"
    and c: "get_conn (fd_pConn f) s = Some c"
    and q: "searchNewConnectionOnAnyIface E md (listenAddress f) (listenPort f) s = Some q" "q \<noteq> NULL"
    and "0 < maxevents"
  obtains s' where "epoll_pwait (Suc r) env E md epfd maxevents timeout s =
      Some (Some (1, [\<lparr>ev_events = EPOLLIN, ev_data = ev_data (lfd_event (lfd_at s i j))\<rparr>]), s')"
    and "masks_only s s'"
proof -
  obtain s' where s': "scan_listener E md i j [] s =
      Some ([\<lparr>ev_events = EPOLLIN, ev_data = ev_data (lfd_event (lfd_at s i j))\<rparr>], s')" "masks_only s s'"
    by (rule scan_listener_offer [OF l c q(1)]) (use q(2) in simp)
  show thesis
    by (rule that [OF _ s'(2)])
      (use epoll_pwait_sole(1) [OF i _ s'(1) masks_only_sel(2) [OF s'(2)] assms(6)] l in
        \<open>simp add: offer_listener_def\<close>)
qed

text \<open>A single listener on a socket without a connection.\<close>

lemma scan_not_ready:
  assumes own: "owned E s gs" and ok: "own_ok s" and i: "getPollfdByNum epfd s = Some i"
    and bad: "\<not> listeners_ready i s" and sole: "sole_listener i j s"
  shows "scan_listener E md i j evs s = None"
proof -
  have il: "i < length (pollfds s)"
    by (rule getPollfdByNumD(1) [OF i])
  have len: "length (lfds (pollfds s ! i)) = MAX_FDS_LISTEN"
    using own_okD(6) [OF ok] il by simp
  obtain k where k: "k < MAX_FDS_LISTEN" "\<not> ready s (lfd_at s i k)"
    using bad len by (auto simp: listeners_ready_def in_set_conv_nth)
  then have "k = j"
    using sole by (auto simp: sole_listener_def ready_def)
  with k have l: "lfd_active (lfd_at s i j)" "fd_active (fds s ! lfd_fd (lfd_at s i j))"
    "fstate (fds s ! lfd_fd (lfd_at s i j)) = s_created \<or> fstate (fds s ! lfd_fd (lfd_at s i j)) = s_bound"
    by (auto simp: ready_def)
  have "lfd_fd (lfd_at s i j) < length (fds s)"
    using own_okD(7) [OF ok nth_mem [OF il] nth_mem l(1)] own_okD(3) [OF ok] sole len
    by (simp add: sole_listener_def)
  from nth_fd_ok [OF own this] l(2,3) have "fd_pConn (fds s ! lfd_fd (lfd_at s i j)) = NULL"
    by (auto simp: fd_ok_def)
  then show ?thesis
    using l by (auto simp: scan_listener_def checkAndSetEvents_def setLevelTriggeredEvents_def
        get_conn_def Let_def)
qed

lemma scan_sole_stuck:
  assumes "sole_listener i j s" and scan: "scan_listener E md i j [] s = None" and "0 < maxevents"
  shows "scan_listeners E md i maxevents [0..<MAX_FDS_LISTEN] [] s = None"
  using assms by (simp only: sole_slots [OF assms(1)])
    (simp add: scan_listeners_append scan_listeners_idle sole_listener_def)

end
