(* ===== verification/Watching.thy ===== *)
theory Watching
  imports Handshake
begin

text \<open>
  Registering a descriptor with \<open>epoll_ctl\<close>: what a listener found or missing means for the
  three operations, and a listener's life from \<open>EPOLL_CTL_ADD\<close> to \<open>EPOLL_CTL_DEL\<close>.
\<close>

section \<open>One descriptor and its listener\<close>

text \<open>The listeners of epoll descriptor \<open>i\<close> for the socket descriptor \<open>n\<close>.\<close>

abbreviation listens :: "('m, 'l, 'k) st \<Rightarrow> int \<Rightarrow> eventListenFd \<Rightarrow> bool" where
  "listens s n l \<equiv> lfd_active l \<and> num (fds s ! lfd_fd l) = n"

lemma no_listener:
  "\<forall>l \<in> set (lfds (pollfds s ! i)). \<not> listens s n l \<Longrightarrow> getListenerForFd i n s = (None, s)"
proof -
  assume "\<forall>l \<in> set (lfds (pollfds s ! i)). \<not> listens s n l"
  then have "first_slot (listens s n) (lfds (pollfds s ! i)) = None"
    by (simp only: first_slot_None)
  then show ?thesis by (simp add: getListenerForFd_def)
qed

lemma listener_found:
  assumes "j < length (lfds (pollfds s ! i))" and "listens s n (lfd_at s i j)"
    and "fd_active (fds s ! lfd_fd (lfd_at s i j))"
    and "\<And>k. k < length (lfds (pollfds s ! i)) \<Longrightarrow> k \<noteq> j \<Longrightarrow> \<not> listens s n (lfd_at s i k)"
  shows "getListenerForFd i n s = (Some j, s)"
proof -
  have "first_slot (listens s n) (lfds (pollfds s ! i)) = Some j"
    by (rule first_slot_unique) (use assms in blast)+
  with assms(3) show ?thesis by (simp add: getListenerForFd_def)
qed

lemma epoll_ctl_missing:
  assumes "getPollfdByNum epfd s = Some i" and "FD_START \<le> n" and "getFdByNum n s = Some f"
    and "getListenerForFd i n s = (None, s)"
  shows "epoll_ctl E epfd EPOLL_CTL_MOD n ev s = fail ENOENT s"
    and "epoll_ctl E epfd EPOLL_CTL_DEL n ev s = fail ENOENT s"
  using assms by (simp_all add: epoll_ctl_def ctl_defs)

lemma epoll_ctl_present:
  assumes "getPollfdByNum epfd s = Some i" and "FD_START \<le> n" and "getFdByNum n s = Some f"
    and "getListenerForFd i n s = (Some j, s)"
  shows "epoll_ctl E epfd EPOLL_CTL_ADD n ev s = fail EEXIST s"
    and "epoll_ctl E epfd EPOLL_CTL_MOD n (Some e) s = Some (0, set_lfd i j (set_listener e) s)"
    and "epoll_ctl E epfd EPOLL_CTL_DEL n ev s = Some (0, deleteListener i j s)"
  using assms by (simp_all add: epoll_ctl_def ctl_defs)

lemma epoll_ctl_full:
  assumes "getPollfdByNum epfd s = Some i" and "FD_START \<le> n" and "getFdByNum n s = Some f"
    and "getListenerForFd i n s = (None, s)" and "\<forall>l \<in> set (lfds (pollfds s ! i)). lfd_active l"
  shows "epoll_ctl E epfd EPOLL_CTL_ADD n ev s = fail ENOMEM s"
proof -
  have "first_slot (\<lambda>l. \<not> lfd_active l) (lfds (pollfds s ! i)) = None"
    using assms(5) by (simp only: first_slot_None) simp
  with assms(1-4) show ?thesis
    by (simp add: epoll_ctl_def ctl_defs getEmptyListener_def)
qed

section \<open>The life of a listener\<close>

text \<open>The state with listener \<open>j\<close> of epoll descriptor \<open>i\<close> replaced.\<close>

abbreviation with_listener :: "nat \<Rightarrow> nat \<Rightarrow> eventListenFd \<Rightarrow> ('m, 'l, 'k) st \<Rightarrow> ('m, 'l, 'k) st" where
  "with_listener i j l s \<equiv> set_lfd i j (\<lambda>_. l) s"

lemma with_listener_sel:
  assumes "i < length (pollfds s)" and "j < length (lfds (pollfds s ! i))"
  shows "lfds (pollfds (with_listener i j l s) ! i) = (lfds (pollfds s ! i))[j := l]"
    and "fds (with_listener i j l s) = fds s"
    and "getFdByNum n (with_listener i j l s) = getFdByNum n s"
    and "getPollfdByNum epfd (with_listener i j l s) = getPollfdByNum epfd s"
    and "set_lfd i j g (with_listener i j l s) = with_listener i j (g l) s"
    and "deleteListener i j (with_listener i j l s) = with_listener i j (l\<lparr>lfd_active := False\<rparr>) s"
  using assms
  by (simp_all add: set_lfd_def set_pfd_def getFdByNum_def getPollfdByNum_def deleteListener_def
      first_slot_update)

lemma set_lfd_with: "set_lfd i j g s = with_listener i j (g (lfd_at s i j)) s"
  by (simp add: set_lfd_def set_pfd_def)

lemma epoll_ctl_life:
  assumes ok: "own_ok s" and i: "getPollfdByNum epfd s = Some i" and n: "FD_START \<le> n"
    and f: "getFdByNum n s = Some f"
    and new: "\<forall>l \<in> set (lfds (pollfds s ! i)). \<not> listens s n l"
    and room: "\<exists>l \<in> set (lfds (pollfds s ! i)). \<not> lfd_active l"
  obtains j l s1 s2 s3 where "epoll_ctl E epfd EPOLL_CTL_ADD n (Some e) s = Some (0, s1)"
    and "epoll_ctl E epfd EPOLL_CTL_ADD n x s1 = fail EEXIST s1"
    and "epoll_ctl E epfd EPOLL_CTL_MOD n (Some e') s1 = Some (0, s2)"
    and "epoll_ctl E epfd EPOLL_CTL_DEL n x s2 = Some (0, s3)"
    and "epoll_ctl E epfd EPOLL_CTL_DEL n x s3 = fail ENOENT s3"
    and "j < MAX_FDS_LISTEN" and "lfd_fd l = f" and "lfd_active l"
    and "s1 = with_listener i j (set_listener e l) s"
    and "s2 = with_listener i j (set_listener e' l) s"
    and "map lfd_active (lfds (pollfds s3 ! i)) = map lfd_active (lfds (pollfds s ! i))"
proof -
  note il = getPollfdByNumD(1) [OF i] and fl = getFdByNumD [OF f]
  have len: "length (lfds (pollfds s ! i)) = MAX_FDS_LISTEN"
    using own_okD(6) [OF ok] il by simp
  obtain j where j: "first_slot (\<lambda>l. \<not> lfd_active l) (lfds (pollfds s ! i)) = Some j"
    using room first_slot_None [of "\<lambda>l. \<not> lfd_active l"] by (cases "first_slot (\<lambda>l. \<not> lfd_active l) (lfds (pollfds s ! i))") auto
  have jl: "j < length (lfds (pollfds s ! i))" "\<not> lfd_active (lfd_at s i j)"
    using first_slotD [OF j] by simp_all
  define l where "l = (lfd_at s i j)\<lparr>lfd_active := True, lfd_fd := f\<rparr>"
  note sel = with_listener_sel [OF il jl(1)]
  have found: "getListenerForFd i n (with_listener i j (set_listener ev l) s) =
      (Some j, with_listener i j (set_listener ev l) s)" for ev
    by (rule listener_found)
      (use jl fl new in \<open>simp_all add: sel(1,2) l_def set_listener_def\<close>)
  have gone: "getListenerForFd i n (with_listener i j ((set_listener e' l)\<lparr>lfd_active := False\<rparr>) s) =
      (None, with_listener i j ((set_listener e' l)\<lparr>lfd_active := False\<rparr>) s)"
    by (rule no_listener)
      (use new set_update_subset_insert [of "lfds (pollfds s ! i)" j] in \<open>fastforce simp: sel(1,2)\<close>)
  have add: "epoll_ctl E epfd EPOLL_CTL_ADD n (Some e) s =
      Some (0, with_listener i j (set_listener e l) s)"
    using i n f no_listener [OF new] j set_lfd_twice [OF il jl(1)]
    by (simp add: epoll_ctl_def ctl_defs getEmptyListener_def l_def)
      (subst set_lfd_with, simp)
  have twice: "with_listener i j x (with_listener i j y s) = with_listener i j x s" for x y
    by (rule sel(5))
  have num: "getFdByNum n (with_listener i j x s) = Some f"
    "getPollfdByNum epfd (with_listener i j x s) = Some i" for x
    using f i by (simp_all add: sel(3,4))
  have mod: "epoll_ctl E epfd EPOLL_CTL_MOD n (Some e') (with_listener i j (set_listener e l) s) =
      Some (0, with_listener i j (set_listener e' l) s)"
    using epoll_ctl_present(2) [OF num(2) n num(1) found, of E e']
    by (simp add: sel(5) set_listener_def)
  have del: "epoll_ctl E epfd EPOLL_CTL_DEL n x (with_listener i j (set_listener e' l) s) =
      Some (0, with_listener i j ((set_listener e' l)\<lparr>lfd_active := False\<rparr>) s)"
    using epoll_ctl_present(3) [OF num(2) n num(1) found] by (simp add: sel(6))
  have "map lfd_active ((lfds (pollfds s ! i))[j := (set_listener e' l)\<lparr>lfd_active := False\<rparr>]) =
      map lfd_active (lfds (pollfds s ! i))"
    using jl by (intro nth_equalityI) (auto simp: nth_list_update)
  then show thesis
    using epoll_ctl_present(1) [OF num(2) n num(1) found] epoll_ctl_missing(2) [OF num(2) n num(1) gone] jl(1) len
    by (intro that [of _ _ _ j l, OF add _ mod del]) (simp_all add: sel(1) l_def)
qed

end
