(* ===== verification/PollReports.thy ===== *)
theory PollReports
  imports Readiness Watching
begin

text \<open>
  What \<open>poll\<close> answers: it registers its entries one slot after the other, waits as
  \<open>epoll_pwait\<close> does, stores the events of each entry and removes the listeners again.
\<close>

section \<open>The table of a poll\<close>

definition poll_listener :: "nat \<Rightarrow> nat \<Rightarrow> pollfd \<Rightarrow> eventListenFd" where
  "poll_listener f k p = \<lparr>lfd_active = True,
     isLevelTriggered = (\<not> IS_EVENT_SET (scast (poll_events p)) EPOLLET),
     lfd_event = \<lparr>ev_events = scast (poll_events p), ev_data = word_of_nat k\<rparr>, lfd_fd = f\<rparr>"

fun poll_table :: "('m, 'l, 'k) st \<Rightarrow> nat \<Rightarrow> pollfd list \<Rightarrow> eventListenFd list" where
  "poll_table s k [] = []"
| "poll_table s k (p # ps) =
     poll_listener (the (getFdByNum (poll_fd p) s)) k p # poll_table s (Suc k) ps"

abbreviation with_lfds :: "nat \<Rightarrow> eventListenFd list \<Rightarrow> ('m, 'l, 'k) st \<Rightarrow> ('m, 'l, 'k) st" where
  "with_lfds i ls s \<equiv> set_pfd i (\<lambda>p. p\<lparr>lfds := ls\<rparr>) s"

lemma length_poll_table [simp]: "length (poll_table s k ps) = length ps"
  by (induction ps arbitrary: k) simp_all

lemma poll_table_fds: "fds s' = fds s \<Longrightarrow> poll_table s' k ps = poll_table s k ps"
  by (induction ps arbitrary: k) (simp_all add: getFdByNum_def)

lemma with_lfds_sel:
  assumes "i < length (pollfds s)"
  shows "lfds (pollfds (with_lfds i ls s) ! i) = ls"
    and "with_lfds i ls (with_lfds i ls' s) = with_lfds i ls s"
    and "getPollfdByNum epfd (with_lfds i ls s) = getPollfdByNum epfd s"
    and "isMixed (pollfds (with_lfds i ls s) ! i) = isMixed (pollfds s ! i)"
    and "set_lfd i j g s = with_lfds i ((lfds (pollfds s ! i))[j := g (lfd_at s i j)]) s"
  using assms by (simp_all add: set_pfd_def set_lfd_def getPollfdByNum_def first_slot_update)

lemma with_lfds_same: "lfds (pollfds s ! i) = ls \<Longrightarrow> with_lfds i ls s = s"
proof -
  assume "lfds (pollfds s ! i) = ls"
  then have "(pollfds s ! i)\<lparr>lfds := ls\<rparr> = pollfds s ! i"
    by (cases "pollfds s ! i") simp
  then show ?thesis by (simp add: set_pfd_def)
qed

lemma getFdByNum_with_lfds [simp]: "getFdByNum n (with_lfds i ls s) = getFdByNum n s"
  by (simp add: getFdByNum_def)

text \<open>The listeners of the table belong to the descriptors of the entries.\<close>

definition known :: "('m, 'l, 'k) st \<Rightarrow> pollfd list \<Rightarrow> bool" where
  "known s ps \<longleftrightarrow> distinct (map poll_fd ps)
     \<and> (\<forall>p \<in> set ps. FD_START \<le> poll_fd p \<and> (\<exists>f. getFdByNum (poll_fd p) s = Some f))"

lemma known_Cons:
  assumes "known s (p # ps)"
  obtains f where "getFdByNum (poll_fd p) s = Some f" and "FD_START \<le> poll_fd p"
    and "poll_fd p \<notin> poll_fd ` set ps" and "known s ps"
  using assms by (auto simp: known_def)

lemma known_with_lfds [simp]: "known (with_lfds i ls s) ps = known s ps"
  by (simp add: known_def)

lemma poll_table_nums:
  assumes "known s ps" and "l \<in> set (poll_table s k ps)"
  shows "lfd_active l" and "num (fds s ! lfd_fd l) \<in> poll_fd ` set ps"
  using assms
  by (induction ps arbitrary: k)
    (auto simp: poll_listener_def elim!: known_Cons dest: getFdByNumD(3))

section \<open>Registration and removal\<close>

lemma epoll_ctl_add_next:
  assumes i: "i < length (pollfds s)" "getPollfdByNum epfd s = Some i"
    and f: "getFdByNum (poll_fd p) s = Some f" "FD_START \<le> poll_fd p"
    and ls: "lfds (pollfds s ! i) = before @ old # rest" "\<not> lfd_active old"
    and before: "\<forall>l \<in> set before. lfd_active l \<and> num (fds s ! lfd_fd l) \<noteq> poll_fd p"
    and rest: "\<forall>l \<in> set rest. \<not> lfd_active l"
  shows "epoll_ctl E epfd EPOLL_CTL_ADD (poll_fd p)
      (Some \<lparr>ev_events = scast (poll_events p), ev_data = word_of_nat k\<rparr>) s =
    Some (0, with_lfds i (before @ poll_listener f k p # rest) s)"
proof -
  have none: "getListenerForFd i (poll_fd p) s = (None, s)"
    by (rule no_listener) (use ls before rest in auto)
  have "first_slot (\<lambda>l. \<not> lfd_active l) (lfds (pollfds s ! i)) = Some (length before)"
    using ls before by (auto simp: first_slot_Some nth_append)
  then have "getEmptyListener i s = (Some (length before), set_lfd i (length before) (\<lambda>l. l\<lparr>lfd_active := True\<rparr>) s)"
    by (simp add: getEmptyListener_def)
  with i f none show ?thesis
    by (simp add: epoll_ctl_def ctl_defs with_lfds_sel ls set_lfd_twice)
      (cases old, simp add: set_listener_def poll_listener_def)
qed

lemma poll_add_all:
  assumes "i < length (pollfds s)" and "getPollfdByNum epfd s = Some i" and "known s ps"
    and "lfds (pollfds s ! i) = before @ olds"
    and "\<forall>l \<in> set before. lfd_active l \<and> num (fds s ! lfd_fd l) \<notin> poll_fd ` set ps"
    and "\<forall>l \<in> set olds. \<not> lfd_active l" and "length ps \<le> length olds"
  shows "poll_add E epfd k ps s =
    Some (0, with_lfds i (before @ poll_table s k ps @ drop (length ps) olds) s)"
  using assms
proof (induction ps arbitrary: k s before olds)
  case Nil
  then show ?case by (simp add: with_lfds_same)
next
  case (Cons p ps)
  obtain old rest where olds: "olds = old # rest"
    using Cons.prems(7) by (cases olds) auto
  obtain f where f: "getFdByNum (poll_fd p) s = Some f" "FD_START \<le> poll_fd p"
    "poll_fd p \<notin> poll_fd ` set ps" "known s ps"
    by (rule known_Cons [OF Cons.prems(3)])
  let ?l = "poll_listener f k p"
  let ?s = "with_lfds i (before @ ?l # rest) s"
  have add: "epoll_ctl E epfd EPOLL_CTL_ADD (poll_fd p)
      (Some \<lparr>ev_events = scast (poll_events p), ev_data = word_of_nat k\<rparr>) s = Some (0, ?s)"
    by (rule epoll_ctl_add_next [OF Cons.prems(1,2) f(1,2)]) (use Cons.prems(4-6) olds in auto)
  have "num (fds s ! f) = poll_fd p"
    by (rule getFdByNumD(3) [OF f(1)])
  then have "poll_add E epfd (Suc k) ps ?s =
      Some (0, with_lfds i ((before @ [?l]) @ poll_table ?s (Suc k) ps @ drop (length ps) rest) ?s)"
    by (intro Cons.IH)
      (use Cons.prems f olds in \<open>auto simp: with_lfds_sel poll_listener_def\<close>)
  also have "poll_table ?s (Suc k) ps = poll_table s (Suc k) ps"
    by (rule poll_table_fds) simp
  finally show ?case
    using add f(1) Cons.prems(1) by (simp add: with_lfds_sel olds)
qed

lemma epoll_ctl_del_next:
  assumes i: "i < length (pollfds s)" "getPollfdByNum epfd s = Some i"
    and f: "getFdByNum (poll_fd p) s = Some f" "FD_START \<le> poll_fd p"
    and ls: "lfds (pollfds s ! i) = dead @ poll_listener f k p # rest"
    and dead: "\<forall>l \<in> set dead. \<not> lfd_active l"
    and rest: "\<forall>l \<in> set rest. lfd_active l \<longrightarrow> num (fds s ! lfd_fd l) \<noteq> poll_fd p"
  shows "epoll_ctl E epfd EPOLL_CTL_DEL (poll_fd p) None s =
    Some (0, with_lfds i (dead @ (poll_listener f k p)\<lparr>lfd_active := False\<rparr> # rest) s)"
proof -
  have fl: "fd_active (fds s ! f)" "num (fds s ! f) = poll_fd p"
    using getFdByNumD [OF f(1)] by simp_all
  have "getListenerForFd i (poll_fd p) s = (Some (length dead), s)"
  proof (rule listener_found)
    fix j
    assume j: "j < length (lfds (pollfds s ! i))" "j \<noteq> length dead"
    then have "lfd_at s i j \<in> set dead \<or> lfd_at s i j \<in> set rest"
      using ls by (cases "j < length dead") (auto simp: nth_append nth_Cons split: nat.splits)
    then show "\<not> listens s (poll_fd p) (lfd_at s i j)"
      using dead rest by auto
  qed (use ls fl in \<open>auto simp: poll_listener_def\<close>)
  from epoll_ctl_present(3) [OF i(2) f(2,1) this] i(1) show ?thesis
    by (simp add: deleteListener_def with_lfds_sel ls)
qed

lemma poll_del_all:
  assumes "i < length (pollfds s)" and "getPollfdByNum epfd s = Some i" and "known s ps"
    and "lfds (pollfds s ! i) = dead @ poll_table s k ps @ olds"
    and "\<forall>l \<in> set dead. \<not> lfd_active l" and "\<forall>l \<in> set olds. \<not> lfd_active l"
  shows "\<exists>ls. poll_del E epfd ps s = Some (0, with_lfds i ls s) \<and> (\<forall>l \<in> set ls. \<not> lfd_active l)"
  using assms
proof (induction ps arbitrary: k s dead)
  case Nil
  then have "with_lfds i (dead @ olds) s = s" by (simp add: with_lfds_same)
  with Nil show ?case
    by (intro exI [of _ "dead @ olds"]) auto
next
  case (Cons p ps)
  obtain f where f: "getFdByNum (poll_fd p) s = Some f" "FD_START \<le> poll_fd p"
    "poll_fd p \<notin> poll_fd ` set ps" "known s ps"
    by (rule known_Cons [OF Cons.prems(3)])
  let ?d = "(poll_listener f k p)\<lparr>lfd_active := False\<rparr>"
  let ?s = "with_lfds i (dead @ ?d # poll_table s (Suc k) ps @ olds) s"
  have other: "num (fds s ! lfd_fd l) \<noteq> poll_fd p" if "l \<in> set (poll_table s (Suc k) ps)" for l
    using poll_table_nums(2) [OF f(4) that] f(3) by metis
  have del: "epoll_ctl E epfd EPOLL_CTL_DEL (poll_fd p) None s = Some (0, ?s)"
    by (rule epoll_ctl_del_next [OF Cons.prems(1,2) f(1,2)])
      (use Cons.prems(4-6) f other in auto)
  have t: "poll_table ?s (Suc k) ps = poll_table s (Suc k) ps"
    by (rule poll_table_fds) simp
  have "\<exists>ls. poll_del E epfd ps ?s = Some (0, with_lfds i ls ?s) \<and> (\<forall>l \<in> set ls. \<not> lfd_active l)"
    by (rule Cons.IH [of _ "dead @ [?d]" "Suc k"]) (use Cons.prems f t in \<open>auto simp: with_lfds_sel\<close>)
  with del Cons.prems(1) show ?case by (auto simp: with_lfds_sel)
qed

section \<open>The results\<close>

text \<open>The events entry \<open>p\<close> is waiting for that have occurred.\<close>

definition poll_mask :: "('m, 'l, 'k) ext \<Rightarrow> mode \<Rightarrow> ('m, 'l, 'k) st \<Rightarrow> pollfd \<Rightarrow> eventmask" where
  "poll_mask E md s p =
     level_mask E md (fd_pConn (fds s ! the (getFdByNum (poll_fd p) s))) s AND scast (poll_events p)"

lemma level_report_poll:
  "level_report E md s (poll_listener (the (getFdByNum (poll_fd p) s)) k p) =
     (if poll_mask E md s p \<noteq> 0 then [\<lparr>ev_events = poll_mask E md s p, ev_data = word_of_nat k\<rparr>] else [])"
  by (simp add: level_report_def poll_listener_def poll_mask_def Let_def)

abbreviation poll_reports ::
  "('m, 'l, 'k) ext \<Rightarrow> mode \<Rightarrow> ('m, 'l, 'k) st \<Rightarrow> nat \<Rightarrow> pollfd list \<Rightarrow> epoll_event list" where
  "poll_reports E md s k ps \<equiv> concat (map (level_report E md s) (poll_table s k ps))"

lemma length_poll_reports:
  "length (poll_reports E md s k ps) = length (filter (\<lambda>p. poll_mask E md s p \<noteq> 0) ps)"
  by (induction ps arbitrary: k) (simp_all add: level_report_poll)

lemma poll_index_small: "k < 2 ^ 32 \<Longrightarrow> poll_index \<lparr>ev_events = m, ev_data = word_of_nat k\<rparr> = k"
  by (simp add: poll_index_def unsigned_ucast_eq unsigned_of_nat take_bit_eq_mod)

lemma poll_store_reports:
  assumes "length before + length ps \<le> 2 ^ 32"
  shows "poll_store (poll_reports E md s (length before) ps) (before @ map (\<lambda>p. p\<lparr>poll_revents := 0\<rparr>) ps) =
    Some (before @ map (\<lambda>p. p\<lparr>poll_revents := ucast (poll_mask E md s p)\<rparr>) ps)"
  using assms
proof (induction ps arbitrary: before)
  case (Cons p ps)
  let ?p = "p\<lparr>poll_revents := ucast (poll_mask E md s p)\<rparr>"
  have "poll_index \<lparr>ev_events = poll_mask E md s p, ev_data = word_of_nat (length before)\<rparr> = length before"
    by (rule poll_index_small) (use Cons.prems in simp)
  then have "poll_store (poll_reports E md s (length before) (p # ps))
      (before @ map (\<lambda>p. p\<lparr>poll_revents := 0\<rparr>) (p # ps)) =
    poll_store (poll_reports E md s (Suc (length before)) ps) ((before @ [?p]) @ map (\<lambda>p. p\<lparr>poll_revents := 0\<rparr>) ps)"
    by (auto simp: level_report_poll Let_def)
  then show ?case
    using Cons.IH [of "before @ [?p]"] Cons.prems by simp
qed simp


section \<open>A whole poll\<close>

text \<open>
  The epoll descriptor of \<open>poll\<close> between two polls: \<open>s1\<close> is the state in which it exists, its
  slot \<open>i\<close> has no listeners.
\<close>

definition poll_idle :: "int \<Rightarrow> nat \<Rightarrow> ('m, 'l, 'k) st \<Rightarrow> bool" where
  "poll_idle epfd i s \<longleftrightarrow> poll_epollfd s = epfd \<and> getPollfdByNum epfd s = Some i
     \<and> \<not> isMixed (pollfds s ! i) \<and> (\<forall>l \<in> set (lfds (pollfds s ! i)). \<not> lfd_active l)"

text \<open>An entry for a connected socket, without the bit of \<open>EPOLLET\<close>.\<close>

definition poll_entry :: "('m, 'l, 'k) st \<Rightarrow> pollfd \<Rightarrow> bool" where
  "poll_entry s p \<longleftrightarrow> FD_START \<le> poll_fd p \<and> \<not> IS_EVENT_SET (scast (poll_events p)) EPOLLET
     \<and> (\<exists>f. getFdByNum (poll_fd p) s = Some f
          \<and> (fstate (fds s ! f) = s_open \<or> fstate (fds s ! f) = s_close))"

lemma poll_entries_known: "distinct (map poll_fd ps) \<Longrightarrow> \<forall>p \<in> set ps. poll_entry s p \<Longrightarrow> known s ps"
  by (auto simp: known_def poll_entry_def)

lemma poll_table_watch:
  assumes "\<forall>p \<in> set ps. poll_entry s p" and "l \<in> set (poll_table s k ps)"
  shows "isLevelTriggered l \<and> fd_active (fds s ! lfd_fd l)
    \<and> (fstate (fds s ! lfd_fd l) = s_open \<or> fstate (fds s ! lfd_fd l) = s_close)"
  using assms
  by (induction ps arbitrary: k)
    (auto simp: poll_listener_def poll_entry_def dest: getFdByNumD(2))

lemma recv_queue_pollfds [simp]: "recv_queue E md p (set_pfd i g s) = recv_queue E md p s"
  by (rule recv_queue_cong) simp_all

lemma level_mask_pollfds [simp]: "level_mask E md p (set_pfd i g s) = level_mask E md p s"
  by (simp add: level_mask_def)

text \<open>The wait finds the entries of the table, which come first in the slot.\<close>

lemma poll_waits:
  assumes own: "owned E s gs" and ok: "own_ok s" and i: "getPollfdByNum epfd s = Some i"
    and mixed: "\<not> isMixed (pollfds s ! i)" and lf: "lfds (pollfds s ! i) = poll_table s 0 ps @ olds"
    and olds: "\<forall>l \<in> set olds. \<not> lfd_active l" and ps: "\<forall>p \<in> set ps. poll_entry s p"
    and some: "\<exists>p \<in> set ps. poll_mask E md s p \<noteq> 0"
  obtains s1 where "epoll_wait (Suc r) env E md epfd (int (length ps)) timeout s =
      Some (Some (int (length (filter (\<lambda>p. poll_mask E md s p \<noteq> 0) ps)), poll_reports E md s 0 ps), s1)"
    and "masks_only s s1"
proof -
  have il: "i < length (pollfds s)"
    by (rule getPollfdByNumD(1) [OF i])
  have "concat (map (level_report E md s) olds) = []"
    using olds by (auto simp: level_report_def)
  then have reports: "level_reports E md i s = poll_reports E md s 0 ps"
    unfolding level_reports_def lf by (simp only: map_append concat_append append_Nil2)
  have n: "length (poll_reports E md s 0 ps) = length (filter (\<lambda>p. poll_mask E md s p \<noteq> 0) ps)"
    by (rule length_poll_reports)
  then have "0 < length (poll_reports E md s 0 ps)"
    using some by (auto simp: filter_empty_conv)
  then have ne: "level_reports E md i s \<noteq> []" "0 < int (length ps)"
    using some unfolding reports by auto
  have watch: "level_watch i s"
    using poll_table_watch [OF ps] olds unfolding level_watch_def lf by auto
  obtain s1 where s1: "epoll_round E md i (int (length ps)) timeout 0 s =
      Some (Some (int (length (take (nat (int (length ps))) (level_reports E md i s))),
        take (nat (int (length ps))) (level_reports E md i s)), s1)" "masks_only s s1"
    by (rule epoll_round_level [OF own ok il watch mixed ne])
  have all: "take (nat (int (length ps))) (level_reports E md i s) = poll_reports E md s 0 ps"
    unfolding reports using n by (simp add: length_filter_le)
  have "epoll_wait (Suc r) env E md epfd (int (length ps)) timeout s =
      Some (Some (int (length (filter (\<lambda>p. poll_mask E md s p \<noteq> 0) ps)), poll_reports E md s 0 ps), s1)"
    using s1(1) i unfolding all n by (simp add: epoll_wait_def epoll_pwait_def)
  then show thesis using s1(2) by (rule that)
qed

text \<open>The listeners are removed again.\<close>

lemma poll_cleans_up:
  assumes i: "getPollfdByNum epfd s = Some i" and mixed: "\<not> isMixed (pollfds s ! i)"
    and lf: "lfds (pollfds s ! i) = poll_table s 0 ps @ olds" and olds: "\<forall>l \<in> set olds. \<not> lfd_active l"
    and known: "known s ps" and num: "poll_epollfd s = epfd" and m: "masks_only s s1"
  obtains ls where "poll_del E epfd ps s1 = Some (0, with_lfds i ls s1)"
    and "poll_idle epfd i (with_lfds i ls s1)"
proof -
  note sel = masks_only_sel [OF m]
  have s1: "getPollfdByNum epfd s1 = Some i" "i < length (pollfds s1)" "poll_epollfd s1 = epfd"
    using i getPollfdByNumD(1) [OF i] sel m num by (auto simp: getPollfdByNum_def elim: masks_only_eq)
  have "poll_table s1 0 ps = poll_table s 0 ps"
    by (rule poll_table_fds) (simp add: sel)
  then have "known s1 ps" "lfds (pollfds s1 ! i) = [] @ poll_table s1 0 ps @ olds"
    using known lf sel by (simp_all add: known_def getFdByNum_def)
  then have "\<exists>ls. poll_del E epfd ps s1 = Some (0, with_lfds i ls s1) \<and> (\<forall>l \<in> set ls. \<not> lfd_active l)"
    using s1 olds by (intro poll_del_all [where dead = "[]" and k = 0 and olds = olds]) simp_all
  then obtain ls where ls: "poll_del E epfd ps s1 = Some (0, with_lfds i ls s1)"
    "\<forall>l \<in> set ls. \<not> lfd_active l" by blast
  have "\<not> isMixed (pollfds s1 ! i)"
    using mixed sel by simp
  then have "poll_idle epfd i (with_lfds i ls s1)"
    unfolding poll_idle_def with_lfds_sel(1,3,4) [OF s1(2)] using ls(2) s1 by simp
  with ls(1) show thesis by (rule that)
qed

lemma poll_idle_calls:
  assumes own: "owned E s gs" and ok: "own_ok s" and idle: "poll_idle epfd i s" and epfd: "epfd \<noteq> -1"
    and ps: "distinct (map poll_fd ps)" "length ps \<le> MAX_FDS_LISTEN" "\<forall>p \<in> set ps. poll_entry s p"
    and some: "\<exists>p \<in> set ps. poll_mask E md s p \<noteq> 0"
  obtains s' where "poll (Suc r) env E md ps timeout s =
      Some (Some (int (length (filter (\<lambda>p. poll_mask E md s p \<noteq> 0) ps)),
        map (\<lambda>p. p\<lparr>poll_revents := ucast (poll_mask E md s p)\<rparr>) ps), s')"
    and "poll_idle epfd i s'" and "fds s' = fds s"
    and "\<forall>m p. recv_queue E m p s' = recv_queue E m p s"
    and "\<forall>p. map_option connState (conns s' p) = map_option connState (conns s p)"
proof -
  have i: "getPollfdByNum epfd s = Some i" "i < length (pollfds s)" "\<not> isMixed (pollfds s ! i)"
    and off: "\<forall>l \<in> set (lfds (pollfds s ! i)). \<not> lfd_active l" and num: "poll_epollfd s = epfd"
    using idle getPollfdByNumD(1) by (auto simp: poll_idle_def)
  note known = poll_entries_known [OF ps(1,3)]
  have len: "length (lfds (pollfds s ! i)) = MAX_FDS_LISTEN"
    using own_okD(6) [OF ok] i(2) by simp
  let ?olds = "drop (length ps) (lfds (pollfds s ! i))"
  let ?s = "with_lfds i (poll_table s 0 ps @ ?olds) s"
  note sel = with_lfds_sel [OF i(2)]
  have olds: "\<forall>l \<in> set ?olds. \<not> lfd_active l"
    using off by (meson in_set_dropD)
  have add: "poll_add E epfd 0 ps s = Some (0, ?s)"
    using poll_add_all [OF i(2,1) known, of "[]"] off ps(2) len by simp
  have pt: "poll_table ?s k ps = poll_table s k ps" for k
    by (rule poll_table_fds) simp
  have pm: "poll_mask E md ?s = poll_mask E md s"
    by (simp add: poll_mask_def fun_eq_iff)
  have own2: "owned E ?s gs"
    by (subst owned_cong [of ?s s]) (use own in simp_all)
  have ok2: "own_ok ?s"
    by (rule keptD(2) [OF poll_add_kept [OF own ok add]])
  have gp: "getPollfdByNum epfd ?s = Some i" and mixed: "\<not> isMixed (pollfds ?s ! i)"
    and lf: "lfds (pollfds ?s ! i) = poll_table ?s 0 ps @ ?olds"
    unfolding sel(1,3,4) pt using i by simp_all
  have ps2: "\<forall>p \<in> set ps. poll_entry ?s p" "known ?s ps" "poll_epollfd ?s = epfd"
    using ps(3) known num by (simp_all add: poll_entry_def)
  obtain s1 where wait: "epoll_wait (Suc r) env E md epfd (int (length ps)) timeout ?s =
      Some (Some (int (length (filter (\<lambda>p. poll_mask E md s p \<noteq> 0) ps)), poll_reports E md ?s 0 ps), s1)"
    and m: "masks_only ?s s1"
    by (rule poll_waits [OF own2 ok2 gp mixed lf olds ps2(1), of md, unfolded pm, OF some]) blast
  have store: "poll_store (poll_reports E md ?s 0 ps) (map (\<lambda>p. p\<lparr>poll_revents := 0\<rparr>) ps) =
      Some (map (\<lambda>p. p\<lparr>poll_revents := ucast (poll_mask E md s p)\<rparr>) ps)"
    using poll_store_reports [of "[]" ps E md ?s] ps(2) pt pm by (simp add: MAX_FDS_LISTEN_def)
  obtain ls where del: "poll_del E epfd ps s1 = Some (0, with_lfds i ls s1)"
    and idle': "poll_idle epfd i (with_lfds i ls s1)"
    by (rule poll_cleans_up [OF gp mixed lf olds ps2(2,3) m])
  show thesis
  proof (rule that [OF _ idle'])
    show "poll (Suc r) env E md ps timeout s =
      Some (Some (int (length (filter (\<lambda>p. poll_mask E md s p \<noteq> 0) ps)),
        map (\<lambda>p. p\<lparr>poll_revents := ucast (poll_mask E md s p)\<rparr>) ps), with_lfds i ls s1)"
      using epfd num add wait store del
      by (simp add: poll_def poll_descriptor_def poll_wait_def)
  qed (use masks_only_sel [OF m] in simp_all)
qed


text \<open>The same from a state in which the descriptor may still have to be created.\<close>

lemma poll_descriptor_frame:
  "poll_descriptor s = Some (epfd, s1) \<Longrightarrow> fds s1 = fds s \<and> conns s1 = conns s \<and> bufs s1 = bufs s"
  by (auto simp: poll_descriptor_def epoll_create1_def getEmptyPollfd_def fail_def Let_def
      split: if_splits option.splits Option.bind_splits)

lemma poll_entry_cong: "fds s' = fds s \<Longrightarrow> poll_entry s' p = poll_entry s p"
  by (simp add: poll_entry_def getFdByNum_def)

lemma poll_mask_cong:
  assumes "fds s' = fds s" and "conns s' = conns s" and "bufs s' = bufs s"
  shows "poll_mask E md s' = poll_mask E md s"
  using assms recv_queue_cong [OF assms(2,3)] by (simp add: poll_mask_def level_mask_def getFdByNum_def fun_eq_iff)

lemma poll_calls:
  assumes own: "owned E s gs" and ok: "own_ok s" and d: "poll_descriptor s = Some (epfd, s1)"
    and idle: "poll_idle epfd i s1" and epfd: "epfd \<noteq> -1"
    and ps: "distinct (map poll_fd ps)" "length ps \<le> MAX_FDS_LISTEN" "\<forall>p \<in> set ps. poll_entry s p"
    and some: "\<exists>p \<in> set ps. poll_mask E md s p \<noteq> 0" and rounds: "0 < rounds"
  shows "\<exists>s'. poll rounds env E md ps timeout s =
      Some (Some (int (length (filter (\<lambda>p. poll_mask E md s p \<noteq> 0) ps)),
        map (\<lambda>p. p\<lparr>poll_revents := ucast (poll_mask E md s p)\<rparr>) ps), s')
    \<and> poll_idle epfd i s' \<and> fds s' = fds s
    \<and> (\<forall>m p. recv_queue E m p s' = recv_queue E m p s)
    \<and> (\<forall>p. map_option connState (conns s' p) = map_option connState (conns s p))"
proof -
  note fr = poll_descriptor_frame [OF d]
  have k: "kept E s gs s1"
    by (rule poll_descriptor_kept [OF own ok]) (use d in simp)
  have "poll_descriptor s1 = Some (epfd, s1)"
    using idle epfd by (simp add: poll_descriptor_def poll_idle_def)
  then have same: "poll rounds env E md ps timeout s = poll rounds env E md ps timeout s1"
    using d by (simp add: poll_def)
  have pm: "poll_mask E md s1 = poll_mask E md s"
    by (rule poll_mask_cong) (use fr in simp_all)
  have rq: "recv_queue E m p s1 = recv_queue E m p s" for m p
    by (rule recv_queue_cong) (use fr in simp_all)
  obtain r where r: "rounds = Suc r" using rounds by (cases rounds) auto
  have "\<forall>p \<in> set ps. poll_entry s1 p"
    using ps(3) poll_entry_cong [of s1 s] fr by simp
  moreover have "\<exists>p \<in> set ps. poll_mask E md s1 p \<noteq> 0"
    using some pm by simp
  ultimately obtain s' where s': "poll (Suc r) env E md ps timeout s1 =
      Some (Some (int (length (filter (\<lambda>p. poll_mask E md s p \<noteq> 0) ps)),
        map (\<lambda>p. p\<lparr>poll_revents := ucast (poll_mask E md s p)\<rparr>) ps), s')"
    "poll_idle epfd i s'" "fds s' = fds s1"
    "\<forall>m p. recv_queue E m p s' = recv_queue E m p s1"
    "\<forall>p. map_option connState (conns s' p) = map_option connState (conns s1 p)"
    unfolding pm [symmetric]
    by (rule poll_idle_calls [OF keptD(1,2) [OF k] idle epfd ps(1,2), of md r env timeout]) blast
  then show ?thesis
    unfolding r same [unfolded r] using fr rq by (intro exI [of _ s']) simp
qed

end
