(* ===== verification/Demo.thy ===== *)
theory Demo
  imports Handshake PollReports
begin

text \<open>
  The executable form of a run, and the small scenarios at which the
  properties of the root theory are exercised: a server and a client on one interface, with
  the reference allocator and lists, after a handshake, with data in flight, and with one
  end closed.  Their epoll table has one entry instead of fifty, which keeps the evaluation of
  the scenarios short.
\<close>

section \<open>Executable runs\<close>

text \<open>
  A run as a function of the script: the two processes as a pair, and of the histories the
  part that belongs to one connection \<open>p\<close>.
\<close>

definition both :: "'a \<times> 'a \<Rightarrow> mode \<Rightarrow> 'a" where
  "both x md = (case md of Server \<Rightarrow> fst x | Client \<Rightarrow> snd x)"

definition note_bytes ::
  "mode \<Rightarrow> bool \<Rightarrow> byte list \<Rightarrow> byte list \<times> byte list \<Rightarrow> byte list \<times> byte list" where
  "note_bytes md fresh new H =
     (if fresh then ([], [])
      else case md of Server \<Rightarrow> (fst H @ new, snd H) | Client \<Rightarrow> (fst H, snd H @ new))"

fun run_two ::
  "('m, 'l, 'k) ext \<Rightarrow> ptr \<Rightarrow> (mode \<times> call) list \<Rightarrow> ('m, 'l, 'k) st \<times> ('m, 'l, 'k) st
    \<Rightarrow> byte list \<times> byte list \<Rightarrow> byte list \<times> byte list
    \<Rightarrow> ((('m, 'l, 'k) st \<times> ('m, 'l, 'k) st) \<times> (byte list \<times> byte list) \<times> (byte list \<times> byte list))
         option" where
  "run_two E p [] w S R = Some (w, S, R)"
| "run_two E p ((md, c) # cs) w S R =
     (case exec E md c (both w md) of
        None \<Rightarrow> None
      | Some ((ret, out), s') \<Rightarrow>
          run_two E p cs
            (case md of Server \<Rightarrow> (s', share s' (snd w)) | Client \<Rightarrow> (share s' (fst w), s'))
            (note_bytes md (conns (both w md) p = None) (sent_by (both w md) c ret p) S)
            (note_bytes md (conns (both w md) p = None) (received_by (both w md) c out p) R))"

lemma both_commit:
  "both (case md of Server \<Rightarrow> (s', share s' (snd w)) | Client \<Rightarrow> (share s' (fst w), s')) =
   commit md s' (both w)"
  by (cases md) (auto simp: both_def commit_def fun_eq_iff split: mode.splits)

lemma note_bytes_log:
  "(\<forall>m. H' m p = both H m) \<Longrightarrow>
   log md s new H' m p = both (note_bytes md (conns s p = None) (new p) H) m"
  by (cases m; cases md) (auto simp: log_def note_bytes_def both_def)

lemma run_two_run:
  assumes "run_two E p cs w S R = Some (w', S', R')"
    and "run E w0 (both w) SS RR" and "\<forall>m. SS m p = both S m" and "\<forall>m. RR m p = both R m"
  shows "\<exists>SS' RR'. run E w0 (both w') SS' RR'
    \<and> (\<forall>m. SS' m p = both S' m) \<and> (\<forall>m. RR' m p = both R' m)"
  using assms
proof (induction cs arbitrary: w S R SS RR)
  case (Cons x cs)
  obtain md c where x: "x = (md, c)" by fastforce
  obtain ret out s' where ex: "exec E md c (both w md) = Some ((ret, out), s')"
    and rest: "run_two E p cs
      (case md of Server \<Rightarrow> (s', share s' (snd w)) | Client \<Rightarrow> (share s' (fst w), s'))
      (note_bytes md (conns (both w md) p = None) (sent_by (both w md) c ret p) S)
      (note_bytes md (conns (both w md) p = None) (received_by (both w md) c out p) R)
      = Some (w', S', R')"
    using Cons.prems(1) by (auto simp: x split: option.splits)
  show ?case
    by (rule Cons.IH [OF rest, unfolded both_commit, OF run_step [OF Cons.prems(2) ex]])
      (use Cons.prems(3,4) note_bytes_log in blast)+
qed auto

section \<open>The scenarios\<close>

definition demo_iface :: "ref_ll interface" where
  "demo_iface = \<lparr>magic = IFACE_MAGIC, connectionList = Some \<lparr>ll_list = (1, []), malloc_ctx = 1\<rparr>,
     addr1 = 1, addr2 = 2, shmemSize = 8, shmemStart = 1, shmemEnd = 9\<rparr>"

definition demo_start :: "(ref_heap, ref_ll, unit) st" where
  "demo_start = (init_process [] () Map.empty)\<lparr>ifaces := [1 \<mapsto> demo_iface],
     interfaces := (replicate MAX_INTERFACES NULL)[0 := 1], pollfds := [blank_pfd]\<rparr>"

lemma demo_booted: "booted ref_lib (\<lambda>_. demo_start)"
proof -
  have "llist_ok ref_lib \<lparr>ll_list = (1, []), malloc_ctx = 1\<rparr>"
    by (simp add: llist_ok_def ref_lib_ll_laws) (simp add: ref_lib_def ref_at_def)
  then have wf: "mem_wf ref_lib demo_start"
    by (intro mem_wfI)
      (auto simp: demo_start_def demo_iface_def init_process_def ref_lib_ok list_ok_def
        llist_elems_def split: if_splits)
  have "table_ok demo_start"
    using set_update_subset_insert [of "replicate MAX_INTERFACES NULL" 0 1]
    by (auto simp: table_ok_def demo_start_def init_process_def set_replicate_conv_if
        split: if_splits)
  then show ?thesis
    using wf by (auto simp: booted_def shared_ok_def share_def demo_start_def init_process_def
        blank_fd_def blank_pfd_def blank_lfd_def)
qed

text \<open>The outcome of a script, with the bytes sent and received on connection 2.\<close>

definition demo_run ::
  "(mode \<times> call) list \<Rightarrow> ((ref_heap, ref_ll, unit) st \<times> (ref_heap, ref_ll, unit) st)
    \<times> (byte list \<times> byte list) \<times> (byte list \<times> byte list)" where
  "demo_run cs =
     (case run_two ref_lib 2 cs (demo_start, demo_start) ([], []) ([], []) of
        None \<Rightarrow> ((demo_start, demo_start), ([], []), ([], []))
      | Some x \<Rightarrow> x)"

definition demo :: "(mode \<times> call) list \<Rightarrow> (ref_heap, ref_ll, unit) world" where
  "demo cs = both (fst (demo_run cs))"

lemma demo_is_run:
  "\<exists>S R. run ref_lib (\<lambda>_. demo_start) (demo cs) S R
     \<and> (\<forall>m. S m 2 = both (fst (snd (demo_run cs))) m)
     \<and> (\<forall>m. R m 2 = both (snd (snd (demo_run cs))) m)"
proof -
  have start: "run ref_lib (\<lambda>_. demo_start) (both (demo_start, demo_start)) (\<lambda>_ _. []) (\<lambda>_ _. [])"
  proof -
    have "both (demo_start, demo_start) = (\<lambda>_. demo_start)"
      by (simp add: both_def fun_eq_iff split: mode.splits)
    then show ?thesis using run_start by metis
  qed
  have nil: "\<forall>m. [] = both ([], []) m"
    by (simp add: both_def split: mode.splits)
  show ?thesis
  proof (cases "run_two ref_lib 2 cs (demo_start, demo_start) ([], []) ([], [])")
    case None
    with start nil show ?thesis by (auto simp: demo_def demo_run_def)
  next
    case (Some x)
    obtain w S R where x: "x = (w, S, R)" by (cases x)
    from run_two_run [OF Some [unfolded x] start nil nil] Some show ?thesis
      by (simp add: demo_def demo_run_def x)
  qed
qed

lemma demo_running: "running ref_lib (demo cs)"
  using demo_booted run_reachable demo_is_run [of cs] unfolding running_def by blast

text \<open>An address argument, and the scripts.\<close>

definition sa :: "16 word \<Rightarrow> 32 word \<Rightarrow> sockaddr_in option" where
  "sa p a = Some \<lparr>sin_family = 2, sin_port = p, sin_addr = a\<rparr>"

definition handshake :: "(mode \<times> call) list" where
  "handshake = [(Server, C_socket 2 1 0), (Server, C_bind 700 (sa 80 1)), (Server, C_listen 700 5),
     (Client, C_socket 2 0x801 0), (Client, C_connect 700 (sa 80 1)),
     (Server, C_accept4 700 (sa 0 0) 0), (Client, C_connectEx 700 None)]"

definition exchange :: "(mode \<times> call) list" where
  "exchange = handshake @ [(Client, C_send 700 [1, 2, 3] 3 0), (Server, C_recv 701 2 0)]"

definition hangup :: "(mode \<times> call) list" where
  "hangup = exchange @ [(Client, C_close 700)]"

definition empty_packet :: "(mode \<times> call) list" where
  "empty_packet = handshake @ [(Client, C_send 700 [] 0 0), (Client, C_send 700 [9] 1 0),
     (Client, C_close 700)]"

definition drained :: "(mode \<times> call) list" where
  "drained = hangup @ [(Server, C_recv 701 2 0)]"

definition offered :: "(mode \<times> call) list" where
  "offered = take 5 handshake"

text \<open>The server watches its end: level-triggered, edge-triggered, and a socket without a connection.\<close>

definition watched :: "eventmask \<Rightarrow> (mode \<times> call) list" where
  "watched m = exchange @ [(Server, C_epoll_create1 0),
     (Server, C_epoll_ctl 900 1 701 (Some \<lparr>ev_events = m, ev_data = 7\<rparr>))]"

definition watched_new :: "(mode \<times> call) list" where
  "watched_new = [(Server, C_socket 2 1 0), (Server, C_epoll_create1 0),
     (Server, C_epoll_ctl 900 1 700 (Some \<lparr>ev_events = 1, ev_data = 7\<rparr>))]"

text \<open>A listener on one address and on any address.\<close>

definition prepared :: "(mode \<times> call) list" where
  "prepared = take 4 handshake"

definition wildcard :: "(mode \<times> call) list" where
  "wildcard = [(Server, C_socket 2 1 0), (Server, C_bind 700 (sa 80 0)), (Server, C_listen 700 5),
     (Client, C_socket 2 0x801 0), (Client, C_connect 700 (sa 80 1))]"

section \<open>What the scenarios look like\<close>

text \<open>
  The connections behind some descriptors, the state of one connection, and the packets its
  two ends have still to read.
\<close>

definition ends ::
  "(mode \<times> int) list \<Rightarrow> ptr \<Rightarrow> (ref_heap, ref_ll, unit) world
    \<Rightarrow> ptr option list \<times> connectionState option \<times> byte list list \<times> byte list list" where
  "ends ns p w = (map (\<lambda>(md, n). conn_of n (w md)) ns,
     (case conns (w Server) p of None \<Rightarrow> None | Some c \<Rightarrow> Some (connState c)),
     recv_queue ref_lib Server p (w Server), recv_queue ref_lib Client p (w Client))"

lemma handshake_ends:
  "ends [(Server, 701), (Client, 700)] 2 (demo handshake) =
    ([Some 2, Some 2], Some c_open, [], [])"
  by code_simp

lemma exchange_ends:
  "ends [(Server, 701), (Client, 700)] 2 (demo exchange) =
    ([Some 2, Some 2], Some c_open, [[3]], [])"
  by code_simp

lemma exchange_bytes: "snd (demo_run exchange) = (([], [1, 2, 3]), ([1, 2], []))"
  by code_simp

lemma hangup_ends:
  "ends [(Server, 701), (Client, 700)] 2 (demo hangup) =
    ([Some 2, None], Some c_close, [[3]], [])"
  by code_simp

lemma drained_ends:
  "ends [(Server, 701), (Client, 700)] 2 (demo drained) =
    ([Some 2, None], Some c_close, [], [])"
  by code_simp

lemma empty_packet_ends:
  "ends [(Server, 701), (Client, 700)] 2 (demo empty_packet) =
    ([Some 2, None], Some c_close, [[], [9]], [])"
  by code_simp

lemma ends_sel:
  assumes "ends ns p (demo cs) = (xs, st, q1, q2)"
  shows "map (\<lambda>(md, n). conn_of n (demo cs md)) ns = xs"
    and "map_option connState (conns (demo cs md) p) = st"
    and "recv_queue ref_lib Server p (demo cs Server) = q1"
    and "recv_queue ref_lib Client p (demo cs Client) = q2"
proof -
  have "conns (demo cs md) p = conns (demo cs Server) p"
    using shared_okD(3) [OF running_ok(3) [OF demo_running], of cs md Server] by simp
  then show "map_option connState (conns (demo cs md) p) = st"
    using assms by (auto simp: ends_def split: option.splits)
qed (use assms in \<open>simp_all add: ends_def\<close>)

lemma ends_slots:
  "(getFdByNum 701 (demo handshake Server), flagNonblock (fds (demo handshake Server) ! 1)) = (Some 1, 0)"
  "getFdByNum 701 (demo exchange Server) = Some 1"
  by code_simp+

lemmas handshake_facts = ends_sel [OF handshake_ends, simplified]
lemmas exchange_facts = ends_sel [OF exchange_ends, simplified]
lemmas hangup_facts = ends_sel [OF hangup_ends, simplified]
lemmas empty_packet_facts = ends_sel [OF empty_packet_ends, simplified]
lemmas drained_facts = ends_sel [OF drained_ends, simplified]

text \<open>The server's end is blocking: with nothing to read, \<open>recv\<close> goes to sleep.\<close>

lemma blocked_facts:
  "\<exists>i. getFdByNum 701 (demo handshake Server) = Some i
     \<and> fstate (fds (demo handshake Server) ! i) = s_open
     \<and> fd_pConn (fds (demo handshake Server) ! i) = 2
     \<and> after_sleeps 1 (\<lambda>_ _. demo exchange Server) 0 (recv_round ref_lib Server i 8 0)
         (demo handshake Server) = Some (demo exchange Server)
     \<and> getFdByNum 701 (demo exchange Server) = Some i
     \<and> fstate (fds (demo exchange Server) ! i) = s_open
     \<and> fd_pConn (fds (demo exchange Server) ! i) = 2"
proof -
  have i: "getFdByNum 701 (demo handshake Server) = Some 1" "flagNonblock (fds (demo handshake Server) ! 1) = 0"
    "fstate (fds (demo handshake Server) ! 1) = s_open" "fd_pConn (fds (demo handshake Server) ! 1) = 2"
    "getFdByNum 701 (demo exchange Server) = Some 1"
    "fstate (fds (demo exchange Server) ! 1) = s_open" "fd_pConn (fds (demo exchange Server) ! 1) = 2"
    using ends_slots handshake_facts(1) exchange_facts(1)
    by (auto simp: conn_of_def split: option.splits if_splits)
  obtain c where c: "conns (demo handshake Server) 2 = Some c" "connState c = c_open"
    using handshake_facts(2) [of Server] by auto
  have "recv_round ref_lib Server 1 8 0 0 (demo handshake Server) = Some (None, demo handshake Server)"
    using recv_round_idle [OF running_ok(1) [OF demo_running] i(1,3), unfolded i(4), OF handshake_facts(3) c(1),
        of 8 0 0] c(2) i(2) by simp
  with i show ?thesis
    by (intro exI [of _ 1]) simp
qed

text \<open>
  The first descriptor of each process, and what the server's finds: by its state, its address,
  the connection \<open>accept\<close> would take and the one the event loop would report.
\<close>

definition stage ::
  "(ref_heap, ref_ll, unit) world \<Rightarrow> (nat option \<times> socketState \<times> bool \<times> ptr option)
    \<times> (ptr \<times> nat option \<times> socketState \<times> int \<times> sock_address) \<times> ptr \<times> ptr option \<times> int \<times> bool" where
  "stage w = ((getFdByNum 700 (w Client), fstate (fds (w Client) ! 0), flagNonblock (fds (w Client) ! 0) \<noteq> 0,
       getInterfaceBySockaddr Client 1 (w Client)),
     (interfaces (w Server) ! 0, getFdByNum 700 (w Server), fstate (fds (w Server) ! 0),
       listenPort (fds (w Server) ! 0), listenAddress (fds (w Server) ! 0)),
     next_waiting ref_lib Server (fds (w Server) ! 0) (w Server),
     searchNewConnectionOnAnyIface ref_lib Server (listenAddress (fds (w Server) ! 0))
       (listenPort (fds (w Server) ! 0)) (w Server),
     currentMaxFd (w Server), \<exists>f \<in> set (fds (w Server)). \<not> fd_active f)"

lemma prepared_stage:
  "stage (demo prepared) = ((Some 0, s_created, True, Some 1), (1, Some 0, s_listen, 80, 1), 0, Some 0, 701, True)"
  by code_simp

lemma offered_stage:
  "stage (demo offered) = ((Some 0, s_connecting, True, Some 1), (1, Some 0, s_listen, 80, 1), 2, Some 2, 701, True)"
  by code_simp

lemma wildcard_stage:
  "stage (demo wildcard) = ((Some 0, s_connecting, True, Some 1), (1, Some 0, s_listen, 80, 0), 2, Some 0, 701, True)"
  by code_simp

lemma offered_conn:
  "(fd_pConn (fds (demo offered Client) ! 0), map_option connState (conns (demo offered Client) 2)) =
    (2, Some c_create)"
  by code_simp

text \<open>The listener is blocking: with nothing to accept, \<open>accept\<close> goes to sleep.\<close>

lemma listener_sleeps:
  "after_sleeps 1 (\<lambda>_ _. demo offered Server) 0 (accept_round ref_lib Server 0) (demo prepared Server) =
    Some (demo offered Server)"
proof -
  have "map_option fst (accept_round ref_lib Server 0 0 (demo prepared Server)) = Some None"
    by code_simp
  then show ?thesis by (auto simp: map_option_case split: option.splits)
qed

text \<open>The same listener after \<open>fcntl\<close> has made it non-blocking.\<close>

definition unblocked :: "(mode \<times> call) list" where
  "unblocked = prepared @ [(Server, C_fcntl 700 4 0x800)]"

lemma unblocked_stage:
  "(getFdByNum 700 (demo unblocked Server), fstate (fds (demo unblocked Server) ! 0),
    flagNonblock (fds (demo unblocked Server) ! 0) \<noteq> 0,
    next_waiting ref_lib Server (fds (demo unblocked Server) ! 0) (demo unblocked Server)) =
   (Some 0, s_listen, True, NULL)"
  by code_simp

lemmas unblocked_facts = unblocked_stage [unfolded prod.inject]
lemmas prepared_facts = prepared_stage [unfolded stage_def prod.inject]
lemmas offered_facts = offered_stage [unfolded stage_def prod.inject]
lemmas wildcard_facts = wildcard_stage [unfolded stage_def prod.inject]

text \<open>
  What an epoll descriptor finds: the entries of its level-triggered listeners, whether its one
  listener is edge-triggered on connection 2 or watches a listening socket, and the pending
  events of the connection.
\<close>

definition watched_offer :: "(mode \<times> call) list" where
  "watched_offer = offered @ [(Server, C_epoll_create1 0),
     (Server, C_epoll_ctl 900 1 700 (Some \<lparr>ev_events = 4, ev_data = 7\<rparr>))]"

definition epoll_stage :: "eventmask \<Rightarrow> (ref_heap, ref_ll, unit) st
    \<Rightarrow> (nat option \<times> nat \<times> bool \<times> bool \<times> epoll_event list) \<times> (bool \<times> bool \<times> bool \<times> 64 word)
      \<times> eventmask option" where
  "epoll_stage em s = ((getPollfdByNum 900 s, length (pollfds s), isMixed (pollfds s ! 0), level_watch 0 s,
       level_reports ref_lib Server 0 s),
     (listeners_ready 0 s, edge_listener 0 0 em 2 s, offer_listener 0 0 (fds s ! 0) s,
       ev_data (lfd_event (lfd_at s 0 0))),
     (case get_conn 2 s of None \<Rightarrow> None | Some c \<Rightarrow> Some (own_events Server c)))"

lemma level_stage:
  "epoll_stage 0 (demo (watched 5) Server) =
    ((Some 0, 1, False, True, [\<lparr>ev_events = 5, ev_data = 7\<rparr>]), (True, False, False, 7), Some 1)"
  by code_simp

lemma edge_stage:
  "epoll_stage 0x80000001 (demo (watched 0x80000001) Server) =
    ((Some 0, 1, False, False, [\<lparr>ev_events = 1, ev_data = 7\<rparr>]), (True, True, False, 7), Some 1)"
  by code_simp

lemma offer_stage:
  "epoll_stage 0 (demo watched_offer Server) =
    ((Some 0, 1, False, False, [\<lparr>ev_events = 4, ev_data = 7\<rparr>]), (True, False, True, 7), Some 0)"
  by code_simp

lemma edge_client:
  "(conn_of 700 (demo (watched 0x80000001) Client),
     map_option connState (conns (demo (watched 0x80000001) Server) 2)) = (Some 2, Some c_open)"
  by code_simp

lemma offer_socket:
  "(next_waiting ref_lib Server (fds (demo watched_offer Server) ! 0) (demo watched_offer Server),
    map_option connState (conns (demo watched_offer Server) (fd_pConn (fds (demo watched_offer Server) ! 0)))) =
    (2, Some c_listen)"
  by code_simp

lemma new_stage:
  "(getPollfdByNum 900 (demo watched_new Server), listeners_ready 0 (demo watched_new Server),
     sole_listener 0 0 (demo watched_new Server)) = (Some 0, False, True)"
  by code_simp

lemmas level_facts = level_stage [unfolded epoll_stage_def prod.inject]
lemmas edge_facts = edge_stage [unfolded epoll_stage_def prod.inject]
lemmas offer_facts = offer_stage [unfolded epoll_stage_def prod.inject]

end
