(* ===== verification/Setup.thy ===== *)
theory Setup
  imports Boot
begin

text \<open>
  The constructor \<open>setupIface\<close> of the preloaded library: it reads from the environment how many
  interfaces there are and their addresses, and registers them.  The environment is a map; the
  static flag of the function is an argument and a result; \<open>exit(1)\<close> is a value.
\<close>

section \<open>Strings and numbers\<close>

text \<open>
  \<open>straddstr\<close> copies into a block of 256 bytes, terminating zero included; \<open>straddnum\<close> prints the
  number with \<open>%d\<close>.
\<close>

definition straddstr :: "string \<Rightarrow> string \<Rightarrow> string option" where
  "straddstr str1 str2 =
     (if length str1 + length str2 < 0x100 then Some (str1 @ str2) else None)"

definition print_d :: "int \<Rightarrow> string" where
  "print_d n = (if n < 0 then CHR ''-'' # print_llu (nat (- n)) else print_llu (nat n))"

definition straddnum :: "string \<Rightarrow> int \<Rightarrow> string option" where
  "straddnum str n = straddstr str (print_d n)"

text \<open>
  \<open>sscanf(str, "%d", &n)\<close>.  Without a digit \<open>n\<close> stays uninitialised, and a number that is not an
  \<open>int\<close> is undefined.
\<close>

definition scan_d :: "string \<Rightarrow> int option" where
  "scan_d cs =
     (let cs1 = dropWhile is_space cs;
          neg = (case cs1 of c # _ \<Rightarrow> c = CHR ''-'' | [] \<Rightarrow> False);
          cs2 = (case cs1 of c # r \<Rightarrow> if c = CHR ''-'' \<or> c = CHR ''+'' then r else cs1 | [] \<Rightarrow> [])
      in case cs2 of
           [] \<Rightarrow> None
         | c # _ \<Rightarrow>
             if is_digit c
             then let v = (if neg then - int (read_digits 0 cs2) else int (read_digits 0 cs2))
                  in if - (2 ^ 31) \<le> v \<and> v < 2 ^ 31 then Some v else None
             else None)"

section \<open>The constructor\<close>

type_synonym environment = "string \<rightharpoonup> string"

datatype setup_result = Finished | Exit int

text \<open>The body of the loop for interface \<open>i\<close>.\<close>

definition setup_one ::
  "('m, 'l, 'k) ext \<Rightarrow> mode \<Rightarrow> bool \<Rightarrow> environment \<Rightarrow> int \<Rightarrow> ('m, 'l, 'k) st
    \<Rightarrow> (setup_result \<times> ('m, 'l, 'k) st) option" where
  "setup_one E md fixed env i s = do {
     own_name \<leftarrow> straddnum ''SHMSOCK_OWN_ADDRESS_'' i;
     remote_name \<leftarrow> straddnum ''SHMSOCK_REMOTE_ADDRESS_'' i;
     env_dir \<leftarrow> (case env ''SHMSOCK_DIR'' of Some d \<Rightarrow> straddstr d ''/'' | None \<Rightarrow> Some ''./'');
     case (env own_name, env remote_name) of
       (Some own, Some remote) \<Rightarrow> do {
         own_addr \<leftarrow> scan_d own;
         remote_addr \<leftarrow> scan_d remote;
         file \<leftarrow> straddnum ''iface.'' i;
         name \<leftarrow> straddstr env_dir file;
         (r, s1) \<leftarrow> registerInterface E md fixed name 0x10000 remote_addr own_addr s;
         Some (if r = 0 then Exit 1 else Finished, s1) }
     | _ \<Rightarrow> Some (Exit 1, s) }"

text \<open>\<open>for (j = 0, i = ifacestart; j < ifacecount; j++, i++)\<close>, with \<open>n\<close> iterations left.\<close>

fun setup_loop ::
  "('m, 'l, 'k) ext \<Rightarrow> mode \<Rightarrow> bool \<Rightarrow> environment \<Rightarrow> nat \<Rightarrow> int \<Rightarrow> ('m, 'l, 'k) st
    \<Rightarrow> (setup_result \<times> ('m, 'l, 'k) st) option" where
  "setup_loop E md fixed env 0 i s = Some (Finished, s)"
| "setup_loop E md fixed env (Suc n) i s = do {
     (r, s1) \<leftarrow> setup_one E md fixed env i s;
     case r of
       Exit e \<Rightarrow> Some (Exit e, s1)
     | Finished \<Rightarrow>
         if i + 1 < 2 ^ 31 then setup_loop E md fixed env n (i + 1) s1 else None }"

definition setupIface ::
  "('m, 'l, 'k) ext \<Rightarrow> mode \<Rightarrow> bool \<Rightarrow> environment \<Rightarrow> bool \<Rightarrow> ('m, 'l, 'k) st
    \<Rightarrow> (setup_result \<times> bool \<times> ('m, 'l, 'k) st) option" where
  "setupIface E md fixed env alreadyInitialized s =
     (if alreadyInitialized then Some (Finished, True, s)
      else case (env ''SHMSOCK_IFACE_COUNT'', env ''SHMSOCK_IFACE_START'') of
             (Some c, Some b) \<Rightarrow> do {
               ifacecount \<leftarrow> scan_d c;
               ifacestart \<leftarrow> scan_d b;
               (r, s1) \<leftarrow> setup_loop E md fixed env (nat ifacecount) ifacestart s;
               Some (r, True, s1) }
           | _ \<Rightarrow> Some (Exit 1, True, s))"

text \<open>
  The build with \<open>ENCLAVE\<close>: the regions come from the table the loader has filled.
\<close>

record region =
  loadVA :: ptr
  regionSize :: int
  isServer :: bool
  clientAddress :: sock_address
  serverAddress :: sock_address

fun setup_regions ::
  "('m, 'l, 'k) ext \<Rightarrow> mode \<Rightarrow> region list \<Rightarrow> ('m, 'l, 'k) st
    \<Rightarrow> setup_result \<times> ('m, 'l, 'k) st" where
  "setup_regions E md [] s = (Finished, s)"
| "setup_regions E md (r # rs) s =
     (let (ret, s1) = registerInterface2 E md (loadVA r) (regionSize r) (isServer r)
            (if isServer r then clientAddress r else serverAddress r)
            (if isServer r then serverAddress r else clientAddress r) s
      in if ret = 0 then (Exit 1, s1) else setup_regions E md rs s1)"

definition setupIface2 ::
  "('m, 'l, 'k) ext \<Rightarrow> mode \<Rightarrow> region list \<Rightarrow> bool \<Rightarrow> ('m, 'l, 'k) st
    \<Rightarrow> setup_result \<times> bool \<times> ('m, 'l, 'k) st" where
  "setupIface2 E md allRegions ifaceAlreadySetup s =
     (if ifaceAlreadySetup then (Finished, True, s)
      else let (r, s1) = setup_regions E md allRegions s in (r, True, s1))"

section \<open>Numbers survive\<close>

lemma scan_print_d:
  assumes "- (2 ^ 31) \<le> n" and "n < 2 ^ 31"
  shows "scan_d (print_d n) = Some n"
proof -
  obtain c cs where p: "print_llu (nat \<bar>n\<bar>) = c # cs"
    using print_llu_nonempty by (cases "print_llu (nat \<bar>n\<bar>)") auto
  then have c: "is_digit c"
    using print_llu_digits [of "nat \<bar>n\<bar>"] by simp
  have v: "read_digits 0 (c # cs) = nat \<bar>n\<bar>"
    using read_print_llu [of "nat \<bar>n\<bar>"] by (simp only: p)
  have minus: "\<not> is_space CHR ''-''"
    by (simp add: is_space_def Let_def)
  show ?thesis
  proof (cases "n < 0")
    case True
    then have "print_d n = CHR ''-'' # c # cs"
      using p by (simp add: print_d_def)
    then show ?thesis
      using True assms c v minus by (simp add: scan_d_def Let_def del: read_digits.simps)
  next
    case False
    then have "print_d n = c # cs"
      using p by (simp add: print_d_def)
    then show ?thesis
      using False assms c v digit_not_space [OF c]
      by (simp add: scan_d_def Let_def del: read_digits.simps)
  qed
qed

section \<open>One interface\<close>

lemma registerInterface_server:
  assumes shm: "shm_ok E name n" and len: "length name < 251" and free: "getFreeInterface s = Some k"
  obtains s' where "registerInterface E Server False name n remote own s = Some (1, s')"
proof -
  obtain region k1 e1 where "createSharedRegion E name n NULL s = (region, s\<lparr>kern := k1, errno := e1\<rparr>)"
    and "0 < region"
    by (rule createSharedRegion_attached [OF shm, of NULL]) simp_all
  with len show thesis
    by (intro that) (simp add: registerInterface_def free mapRegion_def Let_def)
qed

lemma setup_one_server:
  assumes "straddnum ''SHMSOCK_OWN_ADDRESS_'' i = Some a" and "straddnum ''SHMSOCK_REMOTE_ADDRESS_'' i = Some b"
    and "env a = Some own" and "env b = Some remote" and "scan_d own = Some x" and "scan_d remote = Some y"
    and "env ''SHMSOCK_DIR'' = None" and "straddnum ''iface.'' i = Some file"
    and "straddstr ''./'' file = Some name" and "shm_ok E name 0x10000" and "length name < 251"
    and "getFreeInterface s = Some k"
  obtains s' where "setup_one E Server False env i s = Some (Finished, s')"
proof -
  obtain s' where "registerInterface E Server False name 0x10000 y x s = Some (1, s')"
    by (rule registerInterface_server [OF assms(10-12)])
  with assms show thesis
    by (intro that [of s']) (simp add: setup_one_def)
qed

section \<open>Slots of the interface table\<close>

text \<open>A registration that succeeds takes one free slot; one that fails takes none.\<close>

definition used :: "('m, 'l, 'k) st \<Rightarrow> nat" where
  "used s = length (filter (\<lambda>p. p \<noteq> NULL) (interfaces s))"

lemma used_update:
  assumes "getFreeInterface s = Some k" and "r \<noteq> NULL"
  shows "used (s\<lparr>interfaces := (interfaces s)[k := r]\<rparr>) = Suc (used s)"
proof -
  have "k < length ps \<Longrightarrow> ps ! k = NULL \<Longrightarrow>
      length (filter (\<lambda>p. p \<noteq> NULL) (ps[k := r])) = Suc (length (filter (\<lambda>p. p \<noteq> NULL) ps))" for ps
    using assms(2)
  proof (induction ps arbitrary: k)
    case (Cons p ps)
    then show ?case by (cases k) auto
  qed simp
  with first_slotD [OF assms(1) [unfolded getFreeInterface_def]] show ?thesis
    by (simp add: used_def)
qed

lemma used_cong: "interfaces s = interfaces t \<Longrightarrow> used s = used t"
  by (simp add: used_def)

lemma initInterface_interfaces [simp]:
  "interfaces (initInterface E md region n remote own s) = interfaces s"
  by (simp add: initInterface_def Let_def put_iface_def setMallocContext_def split: prod.splits)

lemma mapRegion_interfaces:
  assumes "mapRegion E md fixed name f n s = Some (region, s')"
  shows "interfaces s' = interfaces s"
  using assms createSharedRegion_frame
  by (fastforce simp: mapRegion_def setAddressToFile_def split: if_splits prod.splits Option.bind_splits)

lemma registerInterface_used:
  assumes "registerInterface E md fixed name n remote own s = Some (r, s')"
  shows "(r = 1 \<and> used s' = Suc (used s)) \<or> (r = 0 \<and> used s' = used s)"
proof (cases "getFreeInterface s")
  case None
  with assms show ?thesis by (simp add: registerInterface_def)
next
  case (Some k)
  let ?f = "name @ ''.'' @ ''addr''"
  obtain region s1 where map: "mapRegion E md fixed name ?f n s = Some (region, s1)"
    and res: "(if region = NULL then (0, s1)
        else (1, if md = Server
             then initInterface E md region n remote own (s1\<lparr>interfaces := (interfaces s1)[k := region]\<rparr>)
             else s1\<lparr>interfaces := (interfaces s1)[k := region]\<rparr>)) = (r, s')"
    using assms Some by (auto simp: registerInterface_def Let_def split: if_splits Option.bind_splits)
  note same = mapRegion_interfaces [OF map]
  then have free: "getFreeInterface s1 = Some k"
    using Some by (simp add: getFreeInterface_def)
  have "used s' = used (s1\<lparr>interfaces := (interfaces s1)[k := region]\<rparr>)" if "region \<noteq> NULL"
    using res that by (intro used_cong) (auto split: if_splits)
  then show ?thesis
    using res used_cong [OF same] used_update [OF free, of region] by (auto split: if_splits)
qed

lemma setup_one_used:
  assumes "setup_one E md fixed env i s = Some (r, s')"
  shows "used s' = (if r = Finished then Suc (used s) else used s)"
  using assms registerInterface_used
  by (fastforce simp: setup_one_def split: option.splits Option.bind_splits if_splits prod.splits)

lemma setup_loop_used:
  "setup_loop E md fixed env n i s = Some (Finished, s') \<Longrightarrow> used s' = used s + n"
proof (induction n arbitrary: i s)
  case (Suc n)
  then obtain r s1 where one: "setup_one E md fixed env i s = Some (r, s1)"
    and rest: "(case r of Exit e \<Rightarrow> Some (Exit e, s1)
      | Finished \<Rightarrow> if i + 1 < 2 ^ 31 then setup_loop E md fixed env n (i + 1) s1 else None)
      = Some (Finished, s')"
    by (auto split: Option.bind_splits)
  then have "r = Finished" "setup_loop E md fixed env n (i + 1) s1 = Some (Finished, s')"
    by (auto split: setup_result.splits if_splits)
  with Suc.IH setup_one_used [OF one] show ?case by simp
qed simp

lemma setup_one_interfaces:
  "setup_one E md fixed env i s = Some (r, s') \<Longrightarrow> length (interfaces s') = length (interfaces s)"
  using mapRegion_interfaces
  by (fastforce simp: setup_one_def registerInterface_def Let_def
      split: option.splits Option.bind_splits if_splits prod.splits)

lemma setup_loop_interfaces:
  "setup_loop E md fixed env n i s = Some (r, s') \<Longrightarrow> length (interfaces s') = length (interfaces s)"
proof (induction n arbitrary: i s)
  case (Suc n)
  then obtain r1 s1 where one: "setup_one E md fixed env i s = Some (r1, s1)"
    and rest: "(case r1 of Exit e \<Rightarrow> Some (Exit e, s1)
      | Finished \<Rightarrow> if i + 1 < 2 ^ 31 then setup_loop E md fixed env n (i + 1) s1 else None)
      = Some (r, s')"
    by (auto split: Option.bind_splits)
  then show ?case
    using setup_one_interfaces [OF one] Suc.IH
    by (cases r1) (auto split: if_splits)
qed simp

lemma used_bound: "used s \<le> length (interfaces s)"
  by (simp add: used_def)

end
