(* ===== verification/Locking.thy ===== *)
theory Locking
  imports Prelude
begin

text \<open>
  The lock macros of \<open>api-tools.h\<close> for a build without \<open>NOLOCK\<close>.  The mutex is recursive: it is
  free, or belongs to a thread with a count.  A thread that would have to wait gets \<open>None\<close>.  The
  sources define \<open>NOLOCK\<close>, so no other theory uses these definitions.
\<close>

section \<open>The mutex of pthread\<close>

type_synonym thread = nat
type_synonym mutex = "(thread \<times> nat) option"

definition pthread_mutex_lock :: "thread \<Rightarrow> mutex \<Rightarrow> mutex option" where
  "pthread_mutex_lock t m = (case m of
       None \<Rightarrow> Some (Some (t, 1))
     | Some (u, n) \<Rightarrow> if u = t then Some (Some (t, Suc n)) else None)"

definition pthread_mutex_trylock :: "thread \<Rightarrow> mutex \<Rightarrow> bool \<times> mutex" where
  "pthread_mutex_trylock t m = (case pthread_mutex_lock t m of
       None \<Rightarrow> (True, m)
     | Some m' \<Rightarrow> (False, m'))"

definition pthread_mutex_unlock :: "thread \<Rightarrow> mutex \<Rightarrow> mutex" where
  "pthread_mutex_unlock t m = (case m of
       None \<Rightarrow> None
     | Some (u, n) \<Rightarrow> if u \<noteq> t then m else if n \<le> 1 then None else Some (u, n - 1))"

section \<open>The macros\<close>

definition FUNC_LOCK :: "thread \<Rightarrow> mutex \<Rightarrow> mutex option" where
  "FUNC_LOCK t m = pthread_mutex_lock t m"

definition FUNC_UNLOCK :: "thread \<Rightarrow> mutex \<Rightarrow> mutex" where
  "FUNC_UNLOCK t m = pthread_mutex_unlock t m"

text \<open>\<open>return(expr)\<close>, with the flag that tells whether the lock error is printed.\<close>

definition return_macro :: "thread \<Rightarrow> mutex \<Rightarrow> bool \<times> mutex" where
  "return_macro t m = (let (failed, m1) = pthread_mutex_trylock t m in (failed, FUNC_UNLOCK t m1))"

text \<open>The mutex before and after the sleep in \<open>SLEEP_LOCKED\<close>.\<close>

definition sleep_begin :: "thread \<Rightarrow> mutex \<Rightarrow> mutex option" where
  "sleep_begin t m = FUNC_LOCK t m"

definition sleep_end :: "thread \<Rightarrow> mutex \<Rightarrow> mutex" where
  "sleep_end t m = FUNC_UNLOCK t m"

section \<open>Threads that call the API\<close>

text \<open>
  Each thread has a number of calls it is in (an API call may call another), whether it sleeps,
  and the number of calls it has finished.
\<close>

record locks =
  mutex :: mutex
  active_calls :: "thread \<Rightarrow> nat"
  asleep :: "thread \<Rightarrow> bool"
  finished :: "thread \<Rightarrow> nat"

inductive lock_step :: "locks \<Rightarrow> locks \<Rightarrow> bool" where
  enter: "FUNC_LOCK t (mutex s) = Some m \<Longrightarrow> \<not> asleep s t \<Longrightarrow>
    lock_step s (s\<lparr>mutex := m, active_calls := (active_calls s)(t := Suc (active_calls s t))\<rparr>)"
| sleep: "active_calls s t \<noteq> 0 \<Longrightarrow> \<not> asleep s t \<Longrightarrow> sleep_begin t (mutex s) = Some m \<Longrightarrow>
    lock_step s (s\<lparr>mutex := m, asleep := (asleep s)(t := True)\<rparr>)"
| wake: "asleep s t \<Longrightarrow>
    lock_step s (s\<lparr>mutex := sleep_end t (mutex s), asleep := (asleep s)(t := False)\<rparr>)"
| leave: "active_calls s t = Suc n \<Longrightarrow> \<not> asleep s t \<Longrightarrow> return_macro t (mutex s) = (failed, m) \<Longrightarrow>
    lock_step s (s\<lparr>mutex := m, active_calls := (active_calls s)(t := n),
      finished := (finished s)(t := Suc (finished s t))\<rparr>)"

inductive_cases lock_stepE: "lock_step s s'"

inductive lock_reach :: "locks \<Rightarrow> bool" where
  start: "lock_reach \<lparr>mutex = None, active_calls = (\<lambda>_. 0), asleep = (\<lambda>_. False), finished = (\<lambda>_. 0)\<rparr>"
| step: "lock_reach s \<Longrightarrow> lock_step s s' \<Longrightarrow> lock_reach s'"

section \<open>The count of the mutex\<close>

text \<open>
  The holds of a thread: one per call it is in, one more while it sleeps, and one per call it
  has finished, since \<open>return\<close> locks once and unlocks once and so never takes back the lock of
  the call.
\<close>

definition holds :: "locks \<Rightarrow> thread \<Rightarrow> nat" where
  "holds s t = active_calls s t + (if asleep s t then 1 else 0) + finished s t"

definition held_by :: "mutex \<Rightarrow> thread \<Rightarrow> nat" where
  "held_by m t = (case m of None \<Rightarrow> 0 | Some (u, n) \<Rightarrow> if u = t then n else 0)"

definition counted :: "locks \<Rightarrow> bool" where
  "counted s \<longleftrightarrow> (\<forall>t. held_by (mutex s) t = holds s t) \<and> (\<forall>u n. mutex s = Some (u, n) \<longrightarrow> 0 < n)"

lemma lock_held:
  assumes "pthread_mutex_lock t m = Some m'"
  shows "held_by m' u = held_by m u + (if u = t then 1 else 0)"
    and "m' = Some (t, Suc (held_by m t))"
  using assms by (auto simp: pthread_mutex_lock_def held_by_def split: option.splits if_splits)

lemma unlock_held:
  assumes "m = Some (t, Suc n)"
  shows "held_by (pthread_mutex_unlock t m) u = held_by m u - (if u = t then 1 else 0)"
    and "pthread_mutex_unlock t m = (if n = 0 then None else Some (t, n))"
  using assms by (auto simp: pthread_mutex_unlock_def held_by_def)

lemma held_by_pos: "0 < held_by m t \<Longrightarrow> \<exists>n. m = Some (t, Suc n)"
  by (cases m) (auto simp: held_by_def gr0_conv_Suc split: if_splits)

lemma return_macro_held:
  assumes "0 < held_by m t"
  shows "return_macro t m = (False, m)"
proof -
  obtain n where "m = Some (t, Suc n)"
    using held_by_pos [OF assms] by blast
  then show ?thesis
    by (simp add: return_macro_def pthread_mutex_trylock_def pthread_mutex_lock_def
        FUNC_UNLOCK_def pthread_mutex_unlock_def)
qed

lemma counted_step:
  assumes "lock_step s s'" and "counted s"
  shows "counted s'"
  using assms
proof (cases rule: lock_step.cases)
  case (enter t m)
  from lock_held [OF enter(2) [unfolded FUNC_LOCK_def]] enter(1) assms(2) show ?thesis
    by (auto simp: counted_def holds_def)
next
  case (sleep t m)
  from lock_held [OF sleep(4) [unfolded sleep_begin_def FUNC_LOCK_def]] sleep(1,3) assms(2)
  show ?thesis
    by (auto simp: counted_def holds_def)
next
  case (wake t)
  then have "0 < held_by (mutex s) t"
    using assms(2) by (simp add: counted_def holds_def)
  then obtain n where m: "mutex s = Some (t, Suc n)"
    using held_by_pos by blast
  from unlock_held [OF m] wake assms(2) show ?thesis
    by (auto simp: counted_def holds_def sleep_end_def FUNC_UNLOCK_def split: if_splits)
next
  case (leave t n failed m)
  then have "0 < held_by (mutex s) t"
    using assms(2) by (simp add: counted_def holds_def)
  then have "m = mutex s"
    using return_macro_held leave(4) by auto
  with leave(1,2) assms(2) show ?thesis
    by (auto simp: counted_def holds_def)
qed

lemma lock_reach_counted: "lock_reach s \<Longrightarrow> counted s"
proof (induction rule: lock_reach.induct)
  case start
  then show ?case by (simp add: counted_def holds_def held_by_def)
next
  case (step s s')
  then show ?case by (simp add: counted_step)
qed

lemma holder_excludes:
  assumes "0 < held_by m t" and "u \<noteq> t"
  shows "FUNC_LOCK u m = None"
  using assms by (auto simp: held_by_def FUNC_LOCK_def pthread_mutex_lock_def split: option.splits if_splits)

text \<open>A thread that has finished a call keeps the mutex.\<close>

lemma finished_forever:
  assumes "lock_step\<^sup>*\<^sup>* s s'" and "lock_reach s" and "finished s t \<noteq> 0" and "u \<noteq> t"
  shows "FUNC_LOCK u (mutex s') = None \<and> active_calls s' u = 0"
proof -
  have "lock_reach s' \<and> finished s' t \<noteq> 0"
    using assms(1-3)
  proof (induction rule: rtranclp_induct)
    case (step s' s'')
    then have "finished s'' t \<noteq> 0"
      by (auto elim!: lock_stepE)
    with step show ?case by (auto intro: lock_reach.step)
  qed simp
  then have c: "counted s'" and t: "0 < held_by (mutex s') t"
    using lock_reach_counted [of s'] by (auto simp: counted_def holds_def)
  then have "held_by (mutex s') u = 0"
    using assms(4) by (auto simp: held_by_def split: option.splits if_splits)
  with c have "active_calls s' u = 0"
    by (simp add: counted_def holds_def)
  with holder_excludes [OF t assms(4)] show ?thesis by simp
qed

text \<open>The first call of a thread, from the free mutex.\<close>

definition one_call :: locks where
  "one_call = \<lparr>mutex = Some (0, 1), active_calls = (\<lambda>_. 0), asleep = (\<lambda>_. False),
     finished = (\<lambda>_. 0)(0 := 1)\<rparr>"

lemma one_call_reach: "lock_reach one_call"
proof -
  let ?s0 = "\<lparr>mutex = None, active_calls = (\<lambda>_. 0), asleep = (\<lambda>_. False), finished = (\<lambda>_. 0)\<rparr>"
  let ?s1 = "?s0\<lparr>mutex := Some (0, 1), active_calls := (\<lambda>_. 0)(0 := 1)\<rparr>"
  have "lock_step ?s0 ?s1"
    using lock_step.enter [of 0 ?s0 "Some (0, 1)"] by (simp add: FUNC_LOCK_def pthread_mutex_lock_def)
  moreover have "lock_step ?s1 one_call"
    using lock_step.leave [of ?s1 0 0 False "Some (0, 1)"]
    by (simp add: one_call_def return_macro_def pthread_mutex_trylock_def pthread_mutex_lock_def
        FUNC_UNLOCK_def pthread_mutex_unlock_def fun_upd_idem)
  ultimately show ?thesis
    using lock_reach.step [OF lock_reach.step [OF lock_reach.start]] by blast
qed

end
