(* ===== verification/Steps.thy ===== *)
theory Steps
  imports Streams
begin

text \<open>
  The two processes below the level of calls.  The library as built takes no lock, so the
  accesses of one call to the shared memory interleave with those of the other process.
  \<open>micro\<close> cuts what \<open>connect\<close>, \<open>accept\<close>, \<open>send\<close>, \<open>recv\<close>, \<open>close\<close> and the event check of
  \<open>epoll_pwait\<close> do to a connection into their single reads and writes of shared memory; an
  operation of the linked list or of the allocator stays one step, their code is not part of
  the repository.  The lemmas show that the steps of a call, run alone, are the call.
\<close>

section \<open>The steps of a call\<close>

datatype answer =
    Sent int | Not_connected | Received "byte list" | End_of_stream | No_data | Closed
  | Reported "eventmask option" | Offered ptr | Accepted ptr

text \<open>
  Where a process is inside a call, with the local variables that are still needed:
  \<open>pBuffer\<close>, the caller's buffer and length, a mask that has been loaded but not stored yet.
\<close>

datatype pc =
    Send_state "byte list" int
  | Send_alloc "byte list" int
  | Send_link ptr "byte list" int
  | Send_load int
  | Send_store eventmask int
  | Recv_len int
  | Recv_first int
  | Recv_copy ptr int
  | Recv_unlink ptr "byte list"
  | Recv_free ptr "byte list"
  | Recv_state
  | Close_state
  | Close_mark
  | Close_load
  | Close_store eventmask
  | Drop_get int
  | Drop_cut int
  | Drop_recv
  | Drop_send
  | Drop_free
  | Scan_test eventmask
  | Scan_report eventmask
  | Scan_load eventmask eventmask
  | Scan_store eventmask eventmask eventmask
  | Offer_new ptr int int
  | Offer_link ptr
  | Accept_get ptr int int
  | Accept_test ptr int int ptr
  | Accept_open ptr
  | Done answer

text \<open>
  \<open>send\<close>: the state check, then \<open>sendConnection\<close>; \<open>SET_EVENT\<close> is a load and a store.  A round of
  \<open>recv\<close>: \<open>recvConnection\<close>, and after a result of 0 the second look at the state.
  \<open>closeConnection\<close>: a first close writes the state and then the peer's mask; a second one is
  \<open>removeConnection\<close>, whose \<open>llist_remove\<close> reads the entries of the list one by one and then
  removes by index.  The event check for an edge-triggered listener reads the mask three times
  before it writes it back.  A connection is offered by \<open>createNewConnection\<close>, on memory that is
  still private, and by linking it; \<open>acceptNewConnectionOnIface\<close> reads the entries of the list
  one by one, looks at each, and opens the one it wants.
\<close>

fun micro ::
  "('m, 'l, 'k) ext \<Rightarrow> mode \<Rightarrow> ptr \<Rightarrow> pc \<Rightarrow> ('m, 'l, 'k) st \<Rightarrow> (pc \<times> ('m, 'l, 'k) st) option" where
  "micro E md p (Send_state bs len) s = do {
     c \<leftarrow> get_conn p s;
     Some (if connState c = c_close then Done Not_connected else Send_alloc bs len, s) }"
| "micro E md p (Send_alloc bs len) s = do {
     c \<leftarrow> get_conn p s;
     let s1 = setMallocContext (pAssociatedIface c) s;
     let (q, s2) = malloc_block E (packet_size len) s1;
     let s3 = setMallocContext NULL s2;
     bytes \<leftarrow> (if q = NULL then None else mem_read bs 0 len);
     Some (Send_link q bs len, put_buf q \<lparr>datasize = len, offset = 0, data_bytes = bytes\<rparr> s3) }"
| "micro E md p (Send_link q bs len) s = do {
     c \<leftarrow> get_conn p s;
     sb \<leftarrow> sendBuffer md c;
     let (_, sb', cur) = llist_insert_last E sb q (cur_ctx s);
     Some (Send_load len, put_conn p (set_sendBuffer md (Some sb') c) (setMallocContext cur s)) }"
| "micro E md p (Send_load len) s = do {
     c \<leftarrow> get_conn p s;
     Some (Send_store (remote_events md c) len, s) }"
| "micro E md p (Send_store m len) s = do {
     c \<leftarrow> get_conn p s;
     Some (Done (Sent len), put_conn p (set_remote_events md (SET_EVENT m EPOLLIN) c) s) }"
| "micro E md p (Recv_len len) s = do {
     c \<leftarrow> get_conn p s;
     rb \<leftarrow> recvBuffer md c;
     Some (if hasDataList E rb then Recv_first len else Recv_state, s) }"
| "micro E md p (Recv_first len) s = do {
     c \<leftarrow> get_conn p s;
     rb \<leftarrow> recvBuffer md c;
     let (q, cur) = llist_get_first E rb (cur_ctx s);
     Some (Recv_copy q len, setMallocContext cur s) }"
| "micro E md p (Recv_copy q len) s = do {
     b \<leftarrow> get_buf q s;
     if len \<ge> datasize b
     then do {
       bytes \<leftarrow> mem_read (data_bytes b) (offset b) (datasize b);
       Some (Recv_unlink q bytes, s) }
     else do {
       bytes \<leftarrow> mem_read (data_bytes b) (offset b) len;
       Some (if bytes = [] then Recv_state else Done (Received bytes),
         put_buf q (b\<lparr>offset := offset b + len, datasize := datasize b - len\<rparr>) s) } }"
| "micro E md p (Recv_unlink q bytes) s = do {
     c \<leftarrow> get_conn p s;
     rb \<leftarrow> recvBuffer md c;
     let (_, rb', cur) = llist_remove_first E rb (cur_ctx s);
     Some (Recv_free q bytes, put_conn p (set_recvBuffer md (Some rb') c) (setMallocContext cur s)) }"
| "micro E md p (Recv_free q bytes) s = do {
     c \<leftarrow> get_conn p s;
     let s1 = setMallocContext (pAssociatedIface c) s;
     let s2 = (free_block E q s1)\<lparr>bufs := (bufs s1)(q := None)\<rparr>;
     Some (if bytes = [] then Recv_state else Done (Received bytes), setMallocContext NULL s2) }"
| "micro E md p Recv_state s = do {
     c \<leftarrow> get_conn p s;
     Some (Done (if connState c = c_close then End_of_stream else No_data), s) }"
| "micro E md p Close_state s = do {
     c \<leftarrow> get_conn p s;
     if connState c = c_close \<or> connState c = c_create
     then Some (Drop_get 0, s)
     else Some (Close_mark, s) }"
| "micro E md p Close_mark s = do {
     c \<leftarrow> get_conn p s;
     Some (Close_load, put_conn p (c\<lparr>connState := c_close\<rparr>) s) }"
| "micro E md p Close_load s = do {
     c \<leftarrow> get_conn p s;
     Some (Close_store (remote_events md c), s) }"
| "micro E md p (Close_store m) s = do {
     c \<leftarrow> get_conn p s;
     Some (Done Closed, put_conn p (set_remote_events md (SET_EVENT m EPOLLHUP) c) s) }"
| "micro E md p (Drop_get k) s = do {
     c \<leftarrow> get_conn p s;
     i \<leftarrow> get_iface (pAssociatedIface c) s;
     list \<leftarrow> connectionList i;
     let (q, cur) = llist_get_n E list k (cur_ctx s);
     Some (if q = NULL then Drop_recv else if q = p then Drop_cut k else Drop_get (k + 1),
       setMallocContext cur s) }"
| "micro E md p (Drop_cut k) s = do {
     c \<leftarrow> get_conn p s;
     i \<leftarrow> get_iface (pAssociatedIface c) s;
     list \<leftarrow> connectionList i;
     let (_, list', cur) = llist_remove_n E list k (cur_ctx s);
     Some (Drop_recv, put_iface (pAssociatedIface c) (i\<lparr>connectionList := Some list'\<rparr>)
       (setMallocContext cur s)) }"
| "micro E md p Drop_recv s = do {
     c \<leftarrow> get_conn p s;
     rb \<leftarrow> recvBuffer md c;
     let (rb', cur) = llist_delete E rb (cur_ctx s);
     Some (Drop_send, put_conn p (set_recvBuffer md (Some rb') c) (setMallocContext cur s)) }"
| "micro E md p Drop_send s = do {
     c \<leftarrow> get_conn p s;
     sb \<leftarrow> sendBuffer md c;
     let (sb', cur) = llist_delete E sb (cur_ctx s);
     Some (Drop_free, put_conn p (set_sendBuffer md (Some sb') c) (setMallocContext cur s)) }"
| "micro E md p Drop_free s = do {
     c \<leftarrow> get_conn p s;
     let s1 = setMallocContext (pAssociatedIface c) s;
     let s2 = (free_block E p s1)\<lparr>conns := (conns s1)(p := None)\<rparr>;
     Some (Done Closed, setMallocContext NULL s2) }"
| "micro E md p (Offer_new i own remote) s = do {
     (q, s1) \<leftarrow> createNewConnection E md i own remote s;
     Some (Offer_link q, s1) }"
| "micro E md p (Offer_link q) s = do {
     (_, s1) \<leftarrow> initiateNewConnection E q s;
     Some (Done (Offered q), s1) }"
| "micro E md p (Accept_get i port k) s = do {
     r \<leftarrow> get_iface i s;
     list \<leftarrow> connectionList r;
     let (q, cur) = llist_get_n E list k (cur_ctx s);
     Some (if q = NULL then Done (Accepted NULL) else Accept_test i port k q, setMallocContext cur s) }"
| "micro E md p (Accept_test i port k q) s = do {
     c \<leftarrow> get_conn q s;
     Some (if connState c = c_create \<and> own_port md c = port then Accept_open q
       else Accept_get i port (k + 1), s) }"
| "micro E md p (Accept_open q) s = do {
     c \<leftarrow> get_conn q s;
     Some (Done (Accepted q), put_conn q (c\<lparr>connState := c_open\<rparr>) s) }"
| "micro E md p (Scan_test em) s = do {
     c \<leftarrow> get_conn p s;
     Some (if IS_EVENT_SET (own_events md c) em then Scan_report em else Done (Reported None), s) }"
| "micro E md p (Scan_report em) s = do {
     c \<leftarrow> get_conn p s;
     Some (Scan_load em (own_events md c AND em), s) }"
| "micro E md p (Scan_load em r) s = do {
     c \<leftarrow> get_conn p s;
     Some (Scan_store em r (own_events md c), s) }"
| "micro E md p (Scan_store em r m) s = do {
     c \<leftarrow> get_conn p s;
     Some (Done (Reported (Some r)), put_conn p (set_own_events md (CLEAR_EVENT m em) c) s) }"
| "micro E md p (Done a) s = Some (Done a, s)"

section \<open>A call that runs alone\<close>

fun micros ::
  "('m, 'l, 'k) ext \<Rightarrow> mode \<Rightarrow> ptr \<Rightarrow> nat \<Rightarrow> pc \<Rightarrow> ('m, 'l, 'k) st \<Rightarrow> (pc \<times> ('m, 'l, 'k) st) option"
  where
  "micros E md p 0 a s = Some (a, s)"
| "micros E md p (Suc n) a s = do { (a', s') \<leftarrow> micro E md p a s; micros E md p n a' s' }"

lemma micros_Done [simp]: "micros E md p n (Done a) s = Some (Done a, s)"
  by (induction n) simp_all

lemma put_conn_twice [simp]: "put_conn p c (put_conn p d s) = put_conn p c s"
  by (simp add: put_conn_def)

lemma get_put_conn [simp]: "get_conn p s = Some c \<Longrightarrow> get_conn p (put_conn p c' s) = Some c'"
  by (auto simp: get_conn_def put_conn_def split: if_splits)

lemma get_conn_put_iface [simp]: "get_conn p (put_iface i r s) = get_conn p s"
  by (simp add: get_conn_def put_iface_def)

lemma get_conn_frame [simp]:
  "get_conn p (setMallocContext a s) = get_conn p s" "get_conn p (put_buf q b s) = get_conn p s"
  "get_conn p (s\<lparr>heap := m\<rparr>) = get_conn p s" "get_conn p (s\<lparr>bufs := f\<rparr>) = get_conn p s"
  by (simp_all add: get_conn_def put_buf_def setMallocContext_def)

lemma setMallocContext_frame [simp]:
  "setMallocContext a (put_conn p c s) = put_conn p c (setMallocContext a s)"
  "setMallocContext a (setMallocContext b s) = setMallocContext a s"
  "cur_ctx (setMallocContext a s) = a" "cur_ctx (put_buf q d s) = cur_ctx s"
  "cur_ctx (put_conn p c s) = cur_ctx s"
  by (simp_all add: setMallocContext_def put_conn_def put_buf_def)

text \<open>\<open>send\<close>: the check of the state and \<open>sendConnection\<close>.\<close>

lemma micros_send:
  "micros E md p 5 (Send_state bs len) s = do {
     c \<leftarrow> get_conn p s;
     if connState c = c_close then Some (Done Not_connected, s)
     else map_option (\<lambda>(r, s'). (Done (Sent r), s')) (sendConnection E md p bs len s) }"
proof (cases "get_conn p s")
  case (Some c)
  obtain q s2 where m: "malloc_block E (packet_size len) (setMallocContext (pAssociatedIface c) s) = (q, s2)"
    by fastforce
  have "get_conn p s2 = Some c"
    using m Some by (auto simp: malloc_block_def split: prod.splits)
  with Some m show ?thesis
    by (cases "mem_read bs 0 len"; cases "sendBuffer md c")
      (auto simp: eval_nat_numeral sendConnection_def Let_def split: prod.splits)
qed (simp add: eval_nat_numeral)

text \<open>A first close.\<close>

lemma micros_mark:
  assumes "get_conn p s = Some c" and "connState c \<noteq> c_close" and "connState c \<noteq> c_create"
  shows "micros E md p 4 Close_state s = map_option (Pair (Done Closed)) (closeConnection E md p s)"
  using assms by (auto simp: closeConnection_def eval_nat_numeral Let_def)

text \<open>A round of \<open>recv\<close>.\<close>

lemma micros_recv:
  "micros E md p 6 (Recv_len len) s = do {
     (ret, out, s1) \<leftarrow> recvConnection E md p len s;
     if ret \<noteq> 0 then Some (Done (Received out), s1)
     else do {
       c \<leftarrow> get_conn p s1;
       Some (Done (if connState c = c_close then End_of_stream else No_data), s1) } }"
proof (cases "get_conn p s")
  case (Some c)
  show ?thesis
  proof (cases "recvBuffer md c")
    case None
    with Some show ?thesis by (simp add: eval_nat_numeral recvConnection_def)
  next
    case rb: (Some rb)
    show ?thesis
    proof (cases "hasDataList E rb")
      case False
      with Some rb show ?thesis by (simp add: eval_nat_numeral recvConnection_def)
    next
      case True
      obtain q cur where q: "llist_get_first E rb (cur_ctx s) = (q, cur)" by fastforce
      let ?s = "setMallocContext cur s"
      show ?thesis
      proof (cases "get_buf q ?s")
        case None
        with Some rb True q show ?thesis by (simp add: eval_nat_numeral recvConnection_def)
      next
        case b: (Some b)
        have n: "bytes = [] \<longleftrightarrow> n = 0" if "mem_read (data_bytes b) (offset b) n = Some bytes" for n bytes
          using that by (auto simp: mem_read_def split: if_splits)
        show ?thesis
          using Some rb True q b n
          by (cases "llist_remove_first E rb cur")
            (auto simp: eval_nat_numeral recvConnection_def Let_def free_block_def
              split: Option.bind_splits prod.splits if_splits)
      qed
    qed
  qed
qed (simp add: eval_nat_numeral recvConnection_def)

text \<open>The check of an edge-triggered listener.\<close>

lemma micros_scan:
  "micros E md p 4 (Scan_test em) s = do {
     c \<leftarrow> get_conn p s;
     if IS_EVENT_SET (own_events md c) em
     then Some (Done (Reported (Some (own_events md c AND em))),
       put_conn p (set_own_events md (CLEAR_EVENT (own_events md c) em) c) s)
     else Some (Done (Reported None), s) }"
  by (cases "get_conn p s") (auto simp: eval_nat_numeral)

section \<open>Loops over a list of connections\<close>

lemma micros_add:
  "micros E md p (n + k) a s = do { (b, t) \<leftarrow> micros E md p n a s; micros E md p k b t }"
  by (induction n arbitrary: a s) (auto split: Option.bind_splits)

text \<open>Once a call is done, further steps do nothing; a call that got stuck stays stuck.\<close>

lemma micros_more:
  assumes "micros E md p n a s = map_option (Pair (Done r)) t" and "n \<le> k"
  shows "micros E md p k a s = map_option (Pair (Done r)) t"
  using assms micros_add [of E md p n "k - n" a s] by (cases t) simp_all

lemma setMallocContext_same [simp]: "setMallocContext (cur_ctx s) s = s"
  by (simp add: setMallocContext_def)

text \<open>\<open>llist_remove\<close> looks at the entries up to the one it wants.\<close>

lemma micros_drop_get:
  assumes wf: "mem_wf E s" and c: "conns s p = Some c" and r: "ifaces s (pAssociatedIface c) = Some r"
    and l: "connectionList r = Some l" "llist_ok E l" "NULL \<notin> set (llist_elems E l)"
    and "k \<le> j" and "j \<le> length (llist_elems E l)" and "\<forall>i. k \<le> i \<longrightarrow> i < j \<longrightarrow> llist_elems E l ! i \<noteq> p"
  shows "micros E md p (j - k) (Drop_get (int k)) s = Some (Drop_get (int j), s)"
  using assms(7-9)
proof (induction "j - k" arbitrary: k)
  case 0
  then show ?case by simp
next
  case (Suc n)
  then have k: "k < length (llist_elems E l)" "llist_elems E l ! k \<noteq> p" "j - k = Suc (j - Suc k)"
    "llist_elems E l ! k \<noteq> NULL"
    using l(3) by (auto simp: in_set_conv_nth)
  have step: "micro E md p (Drop_get (int k)) s = Some (Drop_get (int (Suc k)), s)"
    using c r l(1) k
    by (simp add: mem_wf_get_conn [OF wf] mem_wf_get_iface [OF wf] llist_get_n_val [OF l(2)] add.commute)
  have "micros E md p (j - Suc k) (Drop_get (int (Suc k))) s = Some (Drop_get (int j), s)"
    by (rule Suc.hyps(1)) (use Suc.prems Suc.hyps(2) in auto)
  with step k(3) show ?case by (simp del: micro.simps)
qed

lemma micros_remove:
  assumes wf: "mem_wf E s" and c: "conns s p = Some c" and r: "ifaces s (pAssociatedIface c) = Some r"
    and n: "length (iface_conns E s (pAssociatedIface c)) + 5 \<le> n"
  shows "micros E md p n (Drop_get 0) s =
    map_option (\<lambda>(_, t). (Done Closed, t)) (removeConnection E md p s)"
proof -
  let ?i = "pAssociatedIface c"
  obtain l where l: "connectionList r = Some l" "llist_ok E l"
    "iface_conns E s ?i = llist_elems E l" "NULL \<notin> set (llist_elems E l)"
    by (rule iface_list [OF wf r]) blast
  note get = mem_wf_get_conn [OF wf] mem_wf_get_iface [OF wf] llist_get_n_val [OF l(2)]
  have find: "FOREACH_LIST E l (cur_ctx s) (\<lambda>i entry. Some (if entry = p then Some i else None)) =
    Some (map_option int (first_slot (\<lambda>x. x = p) (llist_elems E l)))"
    using FOREACH_LIST_find [OF l(2,4), where P = "\<lambda>x. x = p" and f = "\<lambda>i x. i"]
    by (simp add: map_option_case)
  obtain rb sb where b: "recvBuffer md c = Some rb" "sendBuffer md c = Some sb"
    using chan_buffers [OF wf c mem_wf_iface(2) [OF wf r], of md] by metis
  note drop = micros_drop_get [OF wf c r l(1,2,4), of 0, simplified]
  have "\<exists>k \<le> length (llist_elems E l) + 5. micros E md p k (Drop_get 0) s =
      map_option (\<lambda>(_, t). (Done Closed, t)) (removeConnection E md p s)"
  proof (cases "first_slot (\<lambda>x. x = p) (llist_elems E l)")
    case None
    let ?j = "length (llist_elems E l)"
    have "p \<notin> set (llist_elems E l)"
      using None by (auto simp: first_slot_None)
    then have "micros E md p ?j (Drop_get 0) s = Some (Drop_get (int ?j), s)"
      by (intro drop) auto
    moreover have "put_iface (pAssociatedIface c) (r\<lparr>connectionList := Some l\<rparr>) s = s"
      using r l(1) by (cases r) (simp add: put_iface_def fun_upd_idem)
    then have "micros E md p 4 (Drop_get (int ?j)) s =
        map_option (\<lambda>(_, t). (Done Closed, t)) (removeConnection E md p s)"
      using c r l(1) find None b
      by (simp add: eval_nat_numeral get removeConnection_def llist_remove_def Let_def llist_delete_def)
    ultimately show ?thesis
      by (intro exI [of _ "?j + 4"]) (simp add: micros_add)
  next
    case (Some j)
    then have j: "j < length (llist_elems E l)" "llist_elems E l ! j = p" "\<forall>i < j. llist_elems E l ! i \<noteq> p"
      by (simp_all add: first_slot_Some)
    have "micros E md p j (Drop_get 0) s = Some (Drop_get (int j), s)"
      using j by (intro drop) auto
    moreover have "micros E md p 5 (Drop_get (int j)) s =
        map_option (\<lambda>(_, t). (Done Closed, t)) (removeConnection E md p s)"
      using c r l(1) find Some j b mem_wf_conn(3) [OF wf c]
      by (cases "llist_remove_n E l (int j) (cur_ctx s)")
        (simp add: eval_nat_numeral get removeConnection_def llist_remove_def Let_def llist_delete_def)
    ultimately show ?thesis
      using j by (intro exI [of _ "j + 5"]) (simp add: micros_add)
  qed
  then obtain k where "k \<le> length (llist_elems E l) + 5" and
    "micros E md p k (Drop_get 0) s = map_option (\<lambda>(_, t). (Done Closed, t)) (removeConnection E md p s)"
    by blast
  then have k: "k \<le> n" "micros E md p k (Drop_get 0) s =
      map_option (Pair (Done Closed)) (map_option snd (removeConnection E md p s))"
    using n l(3) by (simp_all add: option.map_comp comp_def case_prod_unfold)
  from micros_more [OF k(2,1)] show ?thesis
    by (simp add: option.map_comp comp_def case_prod_unfold)
qed

text \<open>\<open>closeConnection\<close>, the first one or the last.\<close>

lemma micros_close:
  assumes wf: "mem_wf E s" and c: "conns s p = Some c"
    and n: "length (iface_conns E s (pAssociatedIface c)) + 6 \<le> n"
  shows "micros E md p n Close_state s = map_option (Pair (Done Closed)) (closeConnection E md p s)"
proof (cases "connState c = c_close \<or> connState c = c_create")
  case False
  have "get_conn p s = Some c" using c by (simp add: mem_wf_get_conn [OF wf])
  with False have "micros E md p 4 Close_state s = map_option (Pair (Done Closed)) (closeConnection E md p s)"
    by (intro micros_mark) auto
  then show ?thesis
    by (rule micros_more) (use n in simp)
next
  case True
  obtain k where k: "n = Suc k" using n by (cases n) auto
  have close: "closeConnection E md p s = map_option snd (removeConnection E md p s)"
    using True c by (auto simp: closeConnection_def mem_wf_get_conn [OF wf])
  have "micro E md p Close_state s = Some (Drop_get 0, s)"
    using True c by (simp add: mem_wf_get_conn [OF wf])
  then have first: "micros E md p n Close_state s = micros E md p k (Drop_get 0) s"
    by (simp add: k del: micro.simps)
  show ?thesis
  proof (cases "ifaces s (pAssociatedIface c)")
    case None
    then have "micros E md p k (Drop_get 0) s = None" "removeConnection E md p s = None"
      using n k c by (cases k; simp add: mem_wf_get_conn [OF wf] mem_wf_get_iface [OF wf] removeConnection_def)+
    then show ?thesis by (simp add: first close)
  next
    case (Some r)
    from micros_remove [OF wf c Some, of k md] n k show ?thesis
      unfolding first close by (simp add: option.map_comp comp_def case_prod_unfold)
  qed
qed

text \<open>\<open>acceptNewConnectionOnIface\<close> looks at two things for each entry.\<close>

lemma micros_accept_get:
  assumes wf: "mem_wf E s" and r: "ifaces s i = Some r"
    and l: "connectionList r = Some l" "llist_ok E l" "NULL \<notin> set (llist_elems E l)"
    and conn: "\<And>q. q \<in> set (llist_elems E l) \<Longrightarrow> \<exists>c. conns s q = Some c"
    and "k \<le> j" and "j \<le> length (llist_elems E l)"
    and "\<forall>n. k \<le> n \<longrightarrow> n < j \<longrightarrow> \<not> waiting md port s (llist_elems E l ! n)"
  shows "micros E md p (2 * (j - k)) (Accept_get i port (int k)) s = Some (Accept_get i port (int j), s)"
  using assms(7-9)
proof (induction "j - k" arbitrary: k)
  case 0
  then show ?case by simp
next
  case (Suc n)
  let ?q = "llist_elems E l ! k"
  have k: "k < length (llist_elems E l)" "2 * (j - k) = Suc (Suc (2 * (j - Suc k)))" "?q \<noteq> NULL"
    "\<not> waiting md port s ?q"
    using Suc l(3) by (auto simp: in_set_conv_nth)
  obtain c where c: "conns s ?q = Some c"
    using conn [OF nth_mem [OF k(1)]] by blast
  have step: "micro E md p (Accept_get i port (int k)) s = Some (Accept_test i port (int k) ?q, s)"
    "micro E md p (Accept_test i port (int k) ?q) s = Some (Accept_get i port (int (Suc k)), s)"
    using c r l(1) k by (simp_all add: mem_wf_get_conn [OF wf] mem_wf_get_iface [OF wf]
        llist_get_n_val [OF l(2)] waiting_def add.commute)
  have "micros E md p (2 * (j - Suc k)) (Accept_get i port (int (Suc k))) s =
      Some (Accept_get i port (int j), s)"
    by (rule Suc.hyps(1)) (use Suc.prems Suc.hyps(2) in auto)
  with step k(2) show ?case by (simp del: micro.simps)
qed

lemma micros_accept:
  assumes wf: "mem_wf E s" and i: "i \<in> dom (ifaces s)" and n: "2 * length (iface_conns E s i) + 3 \<le> n"
  shows "micros E md p n (Accept_get i port 0) s =
    map_option (\<lambda>(q, t). (Done (Accepted q), t)) (acceptNewConnectionOnIface E md i port s)"
proof -
  obtain r where r: "ifaces s i = Some r" using i by auto
  obtain l where l: "connectionList r = Some l" "llist_ok E l"
    "iface_conns E s i = llist_elems E l" "NULL \<notin> set (llist_elems E l)"
    "\<And>q. q \<in> set (llist_elems E l) \<Longrightarrow> \<exists>c. conns s q = Some c \<and> pAssociatedIface c = i"
    by (rule iface_list [OF wf r]) blast
  let ?xs = "llist_elems E l"
  let ?q = "first_or_NULL (waiting md port s) ?xs"
  have accept: "acceptNewConnectionOnIface E md i port s =
      Some (?q, if ?q = NULL then s else opened ?q s)"
    using accept_iface_eq [OF wf i, of md port] l(3) by (simp add: Let_def)
  note get = mem_wf_get_conn [OF wf] mem_wf_get_iface [OF wf] llist_get_n_val [OF l(2)]
  have go: "micros E md p (2 * j) (Accept_get i port 0) s = Some (Accept_get i port (int j), s)"
    if "j \<le> length ?xs" "\<forall>n < j. \<not> waiting md port s (?xs ! n)" for j
  proof -
    have "\<exists>c. conns s q = Some c" if "q \<in> set ?xs" for q
      using l(5) [OF that] by blast
    from micros_accept_get [OF wf r l(1,2,4) this, of 0 j md port p] that show ?thesis by simp
  qed
  have "\<exists>k \<le> 2 * length ?xs + 3. micros E md p k (Accept_get i port 0) s =
      Some (Done (Accepted ?q), if ?q = NULL then s else opened ?q s)"
  proof (cases "first_slot (waiting md port s) ?xs")
    case None
    then have "?q = NULL" "\<forall>n < length ?xs. \<not> waiting md port s (?xs ! n)"
      by (simp add: first_or_NULL_def find_first_slot) (use None in \<open>simp add: first_slot_None\<close>)
    moreover have "micros E md p 1 (Accept_get i port (int (length ?xs))) s = Some (Done (Accepted NULL), s)"
      using r l(1) by (simp add: get)
    ultimately show ?thesis
      using go [of "length ?xs"] micros_add [of E md p "2 * length ?xs" 1 "Accept_get i port 0" s]
      by (intro exI [of _ "2 * length ?xs + 1"]) simp
  next
    case (Some j)
    then have j: "j < length ?xs" "waiting md port s (?xs ! j)" "\<forall>n < j. \<not> waiting md port s (?xs ! n)"
      by (simp_all add: first_slot_Some)
    have q: "?q = ?xs ! j" "?q \<noteq> NULL"
      using Some j(1) l(4) by (auto simp: first_or_NULL_def find_first_slot in_set_conv_nth)
    obtain c where c: "conns s (?xs ! j) = Some c"
      using l(5) [OF nth_mem [OF j(1)]] by blast
    have "micros E md p 3 (Accept_get i port (int j)) s = Some (Done (Accepted ?q), opened ?q s)"
      using j(1,2) q c r l(1)
      by (simp add: eval_nat_numeral get waiting_def opened_def put_conn_def)
    with go [of j] j q(2) show ?thesis
      by (intro exI [of _ "2 * j + 3"]) (simp add: micros_add)
  qed
  then obtain k where "k \<le> 2 * length ?xs + 3" "micros E md p k (Accept_get i port 0) s =
      map_option (Pair (Done (Accepted ?q))) (Some (if ?q = NULL then s else opened ?q s))"
    by auto
  with micros_more [OF this(2), of n] n l(3) show ?thesis
    by (simp add: accept)
qed

text \<open>A connection is made, and offered.\<close>

lemma micros_offer:
  "micros E md p 2 (Offer_new i own remote) s = do {
     (q, s1) \<leftarrow> createNewConnection E md i own remote s;
     (_, s2) \<leftarrow> initiateNewConnection E q s1;
     Some (Done (Offered q), s2) }"
  by (auto simp: eval_nat_numeral split: Option.bind_splits)

end
