(* ===== verification/Interleaving.thy ===== *)
theory Interleaving
  imports Steps
begin

text \<open>
  The accesses of the two processes in any order: what a process may rely on at each point of a
  call, that no access of the other one takes it away, and what follows for the streams.
  Connections may be offered, accepted, used and marked closed in the meantime; it is their
  removal that races (\<open>Races\<close>).
\<close>

section \<open>What a process may rely on\<close>

text \<open>
  The object a process has for itself: a packet that is being built or waits to be freed, a
  connection that is not linked yet.
\<close>

fun held :: "pc \<Rightarrow> ptr option" where
  "held (Send_link q bs len) = Some q"
| "held (Recv_free q bytes) = Some q"
| "held (Offer_link q) = Some q"
| "held _ = None"

definition on_iface :: "('m, 'l, 'k) st \<Rightarrow> ptr \<Rightarrow> bool" where
  "on_iface s q \<longleftrightarrow> (\<exists>c. conns s q = Some c \<and> pAssociatedIface c \<noteq> NULL)"

definition unlisted :: "('m, 'l, 'k) ext \<Rightarrow> ('m, 'l, 'k) st \<Rightarrow> ptr \<Rightarrow> bool" where
  "unlisted E s q \<longleftrightarrow> (\<forall>i. q \<notin> set (iface_conns E s i))"

lemma unlisted_frame [simp]:
  "unlisted E (put_conn p c s) = unlisted E s" "unlisted E (put_buf q b s) = unlisted E s"
  "unlisted E (s\<lparr>heap := m\<rparr>) = unlisted E s" "unlisted E (s\<lparr>bufs := f\<rparr>) = unlisted E s"
  "unlisted E (s\<lparr>cur_ctx := a\<rparr>) = unlisted E s"
  by (simp_all add: unlisted_def iface_conns_def put_conn_def put_buf_def fun_eq_iff)

lemma ifaces_frame [simp]:
  "ifaces (put_conn p c s) = ifaces s" "ifaces (put_buf q b s) = ifaces s"
  by (simp_all add: put_conn_def put_buf_def)

text \<open>While a connection comes about.\<close>

fun setting_up :: "('m, 'l, 'k) ext \<Rightarrow> ('m, 'l, 'k) st \<Rightarrow> pc \<Rightarrow> bool" where
  "setting_up E s (Offer_new i own remote) \<longleftrightarrow> i \<in> dom (ifaces s)"
| "setting_up E s (Offer_link q) \<longleftrightarrow> on_iface s q \<and> unlisted E s q"
| "setting_up E s (Accept_get i port k) \<longleftrightarrow> i \<in> dom (ifaces s)"
| "setting_up E s (Accept_test i port k q) \<longleftrightarrow> i \<in> dom (ifaces s) \<and> on_iface s q"
| "setting_up E s (Accept_open q) \<longleftrightarrow> on_iface s q"
| "setting_up E s _ \<longleftrightarrow> False"

text \<open>
  What is true where the process \<open>m\<close> stands.  Only the process \<open>closer\<close> closes, and only
  connections that are open.
\<close>

fun stands :: "('m, 'l, 'k) ext \<Rightarrow> mode \<Rightarrow> ('m, 'l, 'k) st \<Rightarrow> mode \<Rightarrow> 'l connection \<Rightarrow> pc \<Rightarrow> bool" where
  "stands E closer s m c (Send_state bs len) \<longleftrightarrow> 0 \<le> len \<and> len \<le> int (length bs)"
| "stands E closer s m c (Send_alloc bs len) \<longleftrightarrow> 0 \<le> len \<and> len \<le> int (length bs)"
| "stands E closer s m c (Send_link q bs len) \<longleftrightarrow>
     private_buf E s (pAssociatedIface c) q \<and> payload_at s q = take (nat len) bs"
| "stands E closer s m c (Recv_len len) \<longleftrightarrow> 0 \<le> len"
| "stands E closer s m c (Recv_first len) \<longleftrightarrow> 0 \<le> len \<and> opt_elems E (recvBuffer m c) \<noteq> []"
| "stands E closer s m c (Recv_copy q len) \<longleftrightarrow> 0 \<le> len
     \<and> opt_elems E (recvBuffer m c) \<noteq> [] \<and> hd (opt_elems E (recvBuffer m c)) = q"
| "stands E closer s m c (Recv_unlink q bytes) \<longleftrightarrow>
     opt_elems E (recvBuffer m c) \<noteq> [] \<and> hd (opt_elems E (recvBuffer m c)) = q
     \<and> payload_at s q = bytes"
| "stands E closer s m c (Recv_free q bytes) \<longleftrightarrow> private_buf E s (pAssociatedIface c) q"
| "stands E closer s m c Close_state \<longleftrightarrow> m = closer \<and> connState c = c_open"
| "stands E closer s m c Close_mark \<longleftrightarrow> m = closer \<and> connState c = c_open"
| "stands E closer s m c Close_load \<longleftrightarrow> True"
| "stands E closer s m c (Close_store ev) \<longleftrightarrow> True"
| "stands E closer s m c (Send_load len) \<longleftrightarrow> True"
| "stands E closer s m c (Send_store ev len) \<longleftrightarrow> True"
| "stands E closer s m c Recv_state \<longleftrightarrow> True"
| "stands E closer s m c (Scan_test em) \<longleftrightarrow> True"
| "stands E closer s m c (Scan_report em) \<longleftrightarrow> True"
| "stands E closer s m c (Scan_load em r) \<longleftrightarrow> True"
| "stands E closer s m c (Scan_store em r ev) \<longleftrightarrow> True"
| "stands E closer s m c (Done r) \<longleftrightarrow> True"
| "stands E closer s m c _ \<longleftrightarrow> False"

definition thread_ok ::
  "('m, 'l, 'k) ext \<Rightarrow> mode \<Rightarrow> ('m, 'l, 'k) st \<Rightarrow> mode \<Rightarrow> ptr \<Rightarrow> pc \<Rightarrow> bool" where
  "thread_ok E closer s m p a \<longleftrightarrow> (\<exists>r. a = Done r) \<or> setting_up E s a
     \<or> (\<exists>c. conns s p = Some c \<and> pAssociatedIface c \<noteq> NULL \<and> stands E closer s m c a)"

text \<open>
  What a step of \<open>m\<close> leaves to the other process: its connections, which only \<open>closer\<close> closes,
  what it can read and in that order, the interfaces, and the objects it has for itself.
\<close>

definition spares ::
  "('m, 'l, 'k) ext \<Rightarrow> mode \<Rightarrow> mode \<Rightarrow> ptr option \<Rightarrow> ('m, 'l, 'k) st \<Rightarrow> ('m, 'l, 'k) st \<Rightarrow> bool" where
  "spares E closer m h s s' \<longleftrightarrow>
     (\<forall>p c. conns s p = Some c \<longrightarrow> (\<exists>c'. conns s' p = Some c' \<and> pAssociatedIface c' = pAssociatedIface c
        \<and> (m \<noteq> closer \<longrightarrow> connState c' = connState c \<or> connState c' = c_open)
        \<and> (\<exists>xs. opt_elems E (sendBuffer m c') = opt_elems E (sendBuffer m c) @ xs)
        \<and> (\<forall>q \<in> set (opt_elems E (sendBuffer m c)). bufs s' q = bufs s q)))
     \<and> (\<forall>i q. private_buf E s i q \<longrightarrow> h \<noteq> Some q \<longrightarrow> private_buf E s' i q \<and> bufs s' q = bufs s q)
     \<and> dom (ifaces s') = dom (ifaces s)
     \<and> (\<forall>q. on_iface s q \<longrightarrow> unlisted E s q \<longrightarrow> h \<noteq> Some q \<longrightarrow> unlisted E s' q)"

lemma spares_refl [simp]: "spares E closer m h s s"
  by (auto simp: spares_def)

text \<open>The rely condition keeps the other process where it stands.\<close>

lemma spares_on_iface: "spares E closer m h s s' \<Longrightarrow> on_iface s q \<Longrightarrow> on_iface s' q"
  unfolding spares_def on_iface_def by metis

lemma spares_stable:
  assumes sp: "spares E closer m h s s'" and ok: "thread_ok E closer s (peer m) p a"
    and h: "\<And>q. held a = Some q \<Longrightarrow> h \<noteq> Some q"
  shows "thread_ok E closer s' (peer m) p a"
proof (cases "(\<exists>r. a = Done r) \<or> setting_up E s a")
  case True
  have "dom (ifaces s') = dom (ifaces s)"
    "\<And>q. on_iface s q \<Longrightarrow> unlisted E s q \<Longrightarrow> h \<noteq> Some q \<Longrightarrow> unlisted E s' q"
    using sp by (simp_all add: spares_def)
  with True h spares_on_iface [OF sp] show ?thesis
    by (cases a) (auto simp: thread_ok_def)
next
  case False
  with ok obtain c where c: "conns s p = Some c" "pAssociatedIface c \<noteq> NULL"
    and st: "stands E closer s (peer m) c a"
    by (auto simp: thread_ok_def)
  with sp obtain c' xs where c': "conns s' p = Some c'" "pAssociatedIface c' = pAssociatedIface c"
    "m \<noteq> closer \<longrightarrow> connState c' = connState c \<or> connState c' = c_open"
    "opt_elems E (sendBuffer m c') = opt_elems E (sendBuffer m c) @ xs"
    and q: "\<forall>q \<in> set (opt_elems E (sendBuffer m c)). bufs s' q = bufs s q"
    unfolding spares_def by blast
  have pay: "payload_at s' q = payload_at s q" if "bufs s' q = bufs s q" for q
    using that by (simp add: payload_at_def)
  have priv: "private_buf E s' i q \<and> payload_at s' q = payload_at s q"
    if "private_buf E s i q" "held a = Some q" for i q
    using sp that h pay by (simp add: spares_def)
  have "stands E closer s' (peer m) c' a"
    using st c' priv q pay by (cases a) auto
  with c c' show ?thesis by (auto simp: thread_ok_def)
qed

text \<open>What a step adds to the stream of its process, and what it takes from the other's.\<close>

fun puts :: "pc \<Rightarrow> byte list" where
  "puts (Send_link q bs len) = take (nat len) bs"
| "puts _ = []"

fun gets :: "pc \<Rightarrow> pc \<Rightarrow> byte list" where
  "gets (Recv_unlink q bytes) _ = bytes"
| "gets (Recv_copy q len) (Done (Received bytes)) = bytes"
| "gets _ _ = []"

text \<open>The bytes a step on \<open>p\<close> adds to the stream of its process and takes from the other one.\<close>

definition moves ::
  "('m, 'l, 'k) ext \<Rightarrow> mode \<Rightarrow> ptr \<Rightarrow> byte list \<Rightarrow> byte list \<Rightarrow> ('m, 'l, 'k) st \<Rightarrow> ('m, 'l, 'k) st \<Rightarrow> bool"
  where
  "moves E m p xs ys s s' \<longleftrightarrow> (\<forall>u.
     concat (recv_queue E (peer m) u s') = concat (recv_queue E (peer m) u s) @ (if u = p then xs else [])
     \<and> concat (recv_queue E m u s) = (if u = p then ys else []) @ concat (recv_queue E m u s'))"

lemma moves_at:
  assumes "concat (recv_queue E (peer m) p s') = concat (recv_queue E (peer m) p s) @ xs"
    and "concat (recv_queue E m p s) = ys @ concat (recv_queue E m p s')"
    and "\<And>u md. u \<noteq> p \<Longrightarrow> recv_queue E md u s' = recv_queue E md u s"
  shows "moves E m p xs ys s s'"
  using assms by (simp add: moves_def)

lemma moves_none:
  "(\<And>md u. recv_queue E md u s' = recv_queue E md u s) \<Longrightarrow> moves E m p [] [] s s'"
  by (simp add: moves_def)

text \<open>A sound step; an object it takes for itself has been nobody's.\<close>

definition own_object :: "('m, 'l, 'k) ext \<Rightarrow> ('m, 'l, 'k) st \<Rightarrow> ptr \<Rightarrow> bool" where
  "own_object E s q \<longleftrightarrow> (\<exists>i. private_buf E s i q) \<or> on_iface s q \<and> unlisted E s q"

definition sound_step ::
  "('m, 'l, 'k) ext \<Rightarrow> mode \<Rightarrow> mode \<Rightarrow> ptr \<Rightarrow> pc \<Rightarrow> ('m, 'l, 'k) st \<Rightarrow> pc \<times> ('m, 'l, 'k) st \<Rightarrow> bool"
  where
  "sound_step E closer m p a s x \<longleftrightarrow> mem_wf E (snd x)
     \<and> thread_ok E closer (snd x) m p (fst x) \<and> spares E closer m (held a) s (snd x)
     \<and> (\<forall>q. held (fst x) = Some q \<longrightarrow> held a \<noteq> Some q \<longrightarrow> \<not> own_object E s q)
     \<and> moves E m p (puts a) (gets a (fst x)) s (snd x)"

lemma sound_stepI:
  assumes "mem_wf E t" and "thread_ok E closer t m p b" and "spares E closer m (held a) s t"
    and "\<And>q. held b = Some q \<Longrightarrow> held a \<noteq> Some q \<Longrightarrow> \<not> own_object E s q"
    and "moves E m p (puts a) (gets a b) s t"
  shows "sound_step E closer m p a s (b, t)"
  using assms by (simp add: sound_step_def)

lemma not_own_object:
  "(\<And>i. \<not> private_buf E s i q) \<Longrightarrow> conns s q = None \<Longrightarrow> \<not> own_object E s q"
  by (auto simp: own_object_def on_iface_def)

lemma packet_not_conn: "mem_wf E s \<Longrightarrow> bufs s q = Some b \<Longrightarrow> conns s q = None"
  using mem_wfD(6) by (metis disjoint_iff domI domIff)

text \<open>A step that only reads.\<close>

lemma sound_look:
  assumes "mem_wf E s" and "thread_ok E closer s m p b" and "held b = None"
    and "puts a = []" and "gets a b = []"
  shows "sound_step E closer m p a s (b, s)"
  using assms by (auto intro!: sound_stepI moves_none)

lemma sound_read:
  assumes "mem_wf E s" and "conns s p = Some c" and "pAssociatedIface c \<noteq> NULL"
    and "stands E closer s m c a'" and "held a' = None" and "puts a = []" and "gets a a' = []"
  shows "sound_step E closer m p a s (a', s)"
  using assms by (auto simp: sound_step_def thread_ok_def intro!: moves_at)

lemma sound_done:
  assumes "mem_wf E s" and "puts a = []" and "gets a (Done r) = []"
  shows "sound_step E closer m p a s (Done r, s)"
  using assms by (auto simp: sound_step_def thread_ok_def intro!: moves_at)

text \<open>A step that writes the state or a mask of a connection.\<close>

lemma sound_put:
  assumes wf: "mem_wf E s" and c: "conns s q = Some c" and i: "pAssociatedIface c \<noteq> NULL"
    and same: "pAssociatedIface c' = pAssociatedIface c" "buf1 c' = buf1 c" "buf2 c' = buf2 c"
    and st: "connState c' = connState c \<or> connState c' = c_open \<or> m = closer \<and> connState c' = c_close"
    and b: "thread_ok E closer (put_conn q c' s) m p b" "held b = None" "puts a = []" "gets a b = []"
  shows "sound_step E closer m p a s (b, put_conn q c' s)"
proof (rule sound_stepI)
  let ?t = "put_conn q c' s"
  have t: "conns ?t = (conns s)(q \<mapsto> c')" "bufs ?t = bufs s" "heap ?t = heap s"
    by (simp_all add: put_conn_def)
  have rb: "recvBuffer md c' = recvBuffer md c" "sendBuffer md c' = sendBuffer md c" for md
    using same by (cases md; simp add: view_defs)+
  have cb: "conn_bufs E c' = conn_bufs E c"
    using same by (simp add: conn_bufs_def)
  show "mem_wf E ?t"
    by (rule mem_wf_put_conn_same [OF wf c same])
      (use st mem_wf_conn(1) [OF wf c] i in \<open>auto simp: conn_ok_def\<close>)
  have "private_buf E ?t j u" if "private_buf E s j u" for j u
    using that c cb by (auto simp: private_buf_def entry_ok_def t)
  then show "spares E closer m (held a) s ?t"
    using c same st rb by (auto simp: spares_def t)
  have "payload_at ?t = payload_at s"
    by (simp add: payload_at_def t fun_eq_iff)
  then have "recv_queue E md u ?t = recv_queue E md u s" for md u
    using c rb by (auto simp: recv_queue_def t split: option.split)
  then show "moves E m p (puts a) (gets a b) s ?t"
    unfolding b(3,4) by (rule moves_none)
qed (use b in simp_all)

lemma sound_field:
  assumes "mem_wf E s" and "conns s p = Some c" and "pAssociatedIface c \<noteq> NULL"
    and "pAssociatedIface c' = pAssociatedIface c" "buf1 c' = buf1 c" "buf2 c' = buf2 c"
    and "connState c' = connState c \<or> m = closer \<and> connState c' = c_close"
    and "stands E closer (put_conn p c' s) m c' b" "held b = None" "puts a = []" "gets a b = []"
  shows "sound_step E closer m p a s (b, put_conn p c' s)"
  by (rule sound_put [OF assms(1-6)]) (use assms in \<open>auto simp: thread_ok_def put_conn_def\<close>)

lemma recv_queue_put_conn:
  "conns s p = Some c \<Longrightarrow> recv_queue E md q (put_conn p c' s) =
     (if q = p then map (payload_at s) (opt_elems E (recvBuffer md c')) else recv_queue E md q s)"
  by (auto simp: recv_queue_def put_conn_def payload_at_def split: option.split)

text \<open>A new packet is built.\<close>

lemma sound_alloc:
  assumes wf: "mem_wf E s" and c: "conns s p = Some c" and i: "pAssociatedIface c \<noteq> NULL"
    and args: "0 \<le> len" "len \<le> int (length bs)"
    and op: "micro E m p (Send_alloc bs len) s = Some x"
  shows "sound_step E closer m p (Send_alloc bs len) s x"
proof -
  obtain q m' where m: "malloc E (pAssociatedIface c) (packet_size len) (heap s) = (q, m')"
    by fastforce
  let ?b = "\<lparr>datasize = len, offset = 0, data_bytes = take (nat len) bs\<rparr>"
  let ?s = "s\<lparr>heap := m', cur_ctx := NULL\<rparr>"
  have q: "q \<noteq> NULL" and x: "x = (Send_link q bs len, put_buf q ?b ?s)"
    using op c m args
    by (auto simp: mem_wf_get_conn [OF wf] malloc_block_def setMallocContext_def mem_read_def split: if_splits)
  note fresh = mem_wf_fresh [OF wf m q]
  have wf': "mem_wf E ?s"
    using mem_wf_malloc [OF wf m] by simp
  note new = mem_wf_new_buf [OF wf', of q "pAssociatedIface c" ?b]
  have new': "mem_wf E (put_buf q ?b ?s)" "private_buf E (put_buf q ?b ?s) (pAssociatedIface c) q"
    by (rule new; use q fresh args in simp)+
  have other: "bufs (put_buf q ?b ?s) u = bufs s u" if "u \<noteq> q" for u
    using that by (simp add: put_buf_def)
  have old: "\<not> private_buf E s j q" for j
    using fresh(2) by (auto simp: private_buf_def entry_ok_def)
  have notin: "q \<notin> set (conn_bufs E d)" if "conns s u = Some d" for u d
    using conn_bufs_live [OF wf that, of q] fresh(2) by (auto simp: entry_ok_def)
  have keep: "private_buf E (put_buf q ?b ?s) j u" if "private_buf E s j u" for j u
  proof -
    have "u \<noteq> q" using that old by blast
    with that fresh(3) show ?thesis by (auto simp: private_buf_def entry_ok_def put_buf_def)
  qed
  have "spares E closer m None s (put_buf q ?b ?s)"
  proof -
    have "u \<noteq> q" if "conns s r = Some d" "u \<in> set (opt_elems E (sendBuffer m d))" for r d u
      using recv_elems_conn_bufs [OF wf that(1), of u "peer m"] that notin [OF that(1)] by auto
    with keep other old show ?thesis
      unfolding spares_def by (auto simp: put_buf_def)
  qed
  moreover have "recv_queue E md u (put_buf q ?b ?s) = recv_queue E md u s" for md u
  proof (cases "conns s u")
    case (Some d)
    have "payload_at (put_buf q ?b ?s) y = payload_at s y" if "y \<in> set (opt_elems E (recvBuffer md d))" for y
    proof (rule payload_at_other [OF other])
      show "y \<noteq> q" using recv_elems_conn_bufs [OF wf Some that] notin [OF Some] by blast
    qed
    with Some show ?thesis by (simp add: recv_queue_def put_buf_def)
  qed (simp add: recv_queue_def put_buf_def)
  ultimately show ?thesis
    using new' not_own_object [OF old fresh(1)] c i args
    by (auto simp: sound_step_def x thread_ok_def put_buf_def payload_at_def intro!: moves_at)
qed


text \<open>It is appended to the queue.\<close>

lemma sound_link:
  assumes wf: "mem_wf E s" and c: "conns s p = Some c" and i: "pAssociatedIface c \<noteq> NULL"
    and st: "stands E closer s m c (Send_link q bs len)"
  obtains x where "micro E m p (Send_link q bs len) s = Some x"
    and "sound_step E closer m p (Send_link q bs len) s x"
proof -
  let ?a = "Send_link q bs len"
  have q: "private_buf E s (pAssociatedIface c) q" "payload_at s q = take (nat len) bs"
    using st by simp_all
  obtain sb where sb: "sendBuffer m c = Some sb" "llist_ok E sb"
    using chan_buffers [OF wf c i, of m] by metis
  obtain r sb' where ins: "llist_insert_last E sb q (cur_ctx s) = (r, sb', cur_ctx s)"
    and sb': "llist_ok E sb'" "llist_elems E sb' = llist_elems E sb @ [q]" "malloc_ctx sb' = malloc_ctx sb"
    using llist_insert_last_ok [OF sb(2)] by blast
  let ?c = "set_sendBuffer m (Some sb') c"
  let ?t = "put_conn p ?c s"
  have step: "micro E m p ?a s = Some (Send_load len, ?t)"
    using c sb(1) ins by (simp add: mem_wf_get_conn [OF wf] setMallocContext_def)
  have wf': "mem_wf E ?t"
    by (rule mem_wf_link [OF wf c i q(1), where md = m]) (use sb sb' in simp_all)
  have t: "conns ?t = (conns s)(p \<mapsto> ?c)" "bufs ?t = bufs s" "heap ?t = heap s"
    by (simp_all add: put_conn_def)
  have dom: "dom (conns ?t) = dom (conns s)"
    using c by (auto simp: t)
  have sbc: "opt_elems E (sendBuffer m ?c) = opt_elems E (sendBuffer m c) @ [q]"
    using sb sb' by (simp add: opt_elems_def)
  have cb: "set (conn_bufs E ?c) = insert q (set (conn_bufs E c))"
    using i sbc by (simp add: opt_elems_conn_bufs [where md = m])
  have "private_buf E ?t j u" if "private_buf E s j u" "u \<noteq> q" for j u
    using that c cb by (auto simp: private_buf_def entry_ok_def t)
  then have sp: "spares E closer m (held ?a) s ?t"
    using c sbc by (auto simp: spares_def t)
  have "moves E m p (puts ?a) (gets ?a (Send_load len)) s ?t"
    by (rule moves_at)
      (use c sb sbc q(2) in \<open>simp_all add: recv_queue_put_conn [OF c]\<close>, simp_all add: recv_queue_eq [OF c])
  with wf' dom sp c i have "sound_step E closer m p ?a s (Send_load len, ?t)"
    by (simp add: sound_step_def thread_ok_def t)
  with step show thesis by (rule that)
qed

text \<open>A packet is read, a part of it is taken.\<close>

lemma first_entry:
  assumes wf: "mem_wf E s" and c: "conns s p = Some c" and i: "pAssociatedIface c \<noteq> NULL"
    and q: "opt_elems E (recvBuffer m c) \<noteq> []" "hd (opt_elems E (recvBuffer m c)) = q"
  obtains b qs where "opt_elems E (recvBuffer m c) = q # qs" and "bufs s q = Some b"
    and "entry_ok E s (pAssociatedIface c) q" and "q \<noteq> NULL" and "q \<notin> set qs"
    and "q \<in> set (conn_bufs E c)"
proof -
  obtain qs where qs: "opt_elems E (recvBuffer m c) = q # qs"
    using q by (cases "opt_elems E (recvBuffer m c)") auto
  then have qc: "q \<in> set (conn_bufs E c)"
    by (simp add: opt_elems_conn_bufs(1) [OF i, where md = m])
  then have ent: "entry_ok E s (pAssociatedIface c) q"
    by (rule conn_bufs_live [OF wf c])
  then obtain b where "bufs s q = Some b" "q \<noteq> NULL"
    by (auto simp: entry_ok_def)
  moreover have "q \<notin> set qs"
    using mem_wf_conn(2) [OF wf c] qs by (simp add: opt_elems_conn_bufs(2) [OF i, where md = m])
  ultimately show thesis
    using qs ent qc by (intro that)
qed

text \<open>What the split read leaves in the queues: the rest of the first packet, every other queue as it was.\<close>

lemma split_read_queues:
  assumes wf: "mem_wf E s" and c: "conns s p = Some c" and i: "pAssociatedIface c \<noteq> NULL"
    and qs: "opt_elems E (recvBuffer m c) = q # qs" and qn: "q \<notin> set qs"
    and b: "bufs s q = Some b" "0 \<le> offset b" "offset b + datasize b = int (length (data_bytes b))"
    and len: "0 \<le> len" "len < datasize b"
    and t: "t = put_buf q (b\<lparr>offset := offset b + len, datasize := datasize b - len\<rparr>) s"
  shows "u \<noteq> p \<or> md \<noteq> m \<Longrightarrow> recv_queue E md u t = recv_queue E md u s"
    and "recv_queue E m p t = drop (nat len) (payload_at s q) # map (payload_at s) qs"
proof -
  have t_sel: "conns t = conns s" "bufs t = (bufs s)(q \<mapsto> b\<lparr>offset := offset b + len, datasize := datasize b - len\<rparr>)"
    by (simp_all add: t put_buf_def)
  have other: "payload_at t y = payload_at s y" if "y \<noteq> q" for y
    using that by (simp add: payload_at_def t_sel)
  have here: "payload_at t q = drop (nat len) (payload_at s q)"
    using b len
    by (auto simp: payload_at_def t_sel nat_add_distrib nat_diff_distrib drop_take add.commute)
  show "recv_queue E md u t = recv_queue E md u s" if "u \<noteq> p \<or> md \<noteq> m"
  proof (cases "conns s u")
    case None
    then show ?thesis by (simp add: recv_queue_def t_sel)
  next
    case (Some d)
    have "map (payload_at t) (opt_elems E (recvBuffer md d)) =
        map (payload_at s) (opt_elems E (recvBuffer md d))"
      using queue_owner [OF wf c Some, of q m _ md] qs that
      by (intro map_cong [OF refl] other) auto
    with Some show ?thesis by (simp add: recv_queue_def t_sel)
  qed
  have "map (payload_at t) qs = map (payload_at s) qs"
    using qn by (intro map_cong [OF refl] other) auto
  then show "recv_queue E m p t = drop (nat len) (payload_at s q) # map (payload_at s) qs"
    using qs here c by (simp add: recv_queue_def t_sel)
qed

lemma sound_copy:
  assumes wf: "mem_wf E s" and c: "conns s p = Some c" and i: "pAssociatedIface c \<noteq> NULL"
    and st: "stands E closer s m c (Recv_copy q len)"
  obtains x where "micro E m p (Recv_copy q len) s = Some x"
    and "sound_step E closer m p (Recv_copy q len) s x"
proof -
  have len: "0 \<le> len" and q: "opt_elems E (recvBuffer m c) \<noteq> []" "hd (opt_elems E (recvBuffer m c)) = q"
    using st by simp_all
  obtain b qs where qs: "opt_elems E (recvBuffer m c) = q # qs" and b: "bufs s q = Some b"
    and ent: "entry_ok E s (pAssociatedIface c) q" and qn: "q \<noteq> NULL" "q \<notin> set qs" "q \<in> set (conn_bufs E c)"
    by (rule first_entry [OF wf c i q])
  have get: "get_buf q s = Some b"
    using b qn by (simp add: get_buf_def)
  show thesis
  proof (cases "len \<ge> datasize b")
    case True
    then have "micro E m p (Recv_copy q len) s = Some (Recv_unlink q (payload_at s q), s)"
      using get mem_read_entry(3) [OF ent b] by simp
    moreover have "sound_step E closer m p (Recv_copy q len) s (Recv_unlink q (payload_at s q), s)"
      by (rule sound_read [OF wf c i]) (use q in simp_all)
    ultimately show thesis by (rule that)
  next
    case False
    let ?b = "b\<lparr>offset := offset b + len, datasize := datasize b - len\<rparr>"
    let ?x = "take (nat len) (payload_at s q)"
    let ?t = "put_buf q ?b s"
    let ?a = "if ?x = [] then Recv_state else Done (Received ?x)"
    have step: "micro E m p (Recv_copy q len) s = Some (?a, ?t)"
      using False get len mem_read_entry(4) [OF ent b len] by simp
    have bd: "0 \<le> offset b" "offset b + datasize b = int (length (data_bytes b))"
      using ent b by (auto simp: entry_ok_def)
    have wf': "mem_wf E ?t"
      by (rule mem_wf_put_buf [OF wf b]) (use bd len False in simp_all)
    have t: "conns ?t = conns s" "heap ?t = heap s" "bufs ?t = (bufs s)(q \<mapsto> ?b)"
      by (simp_all add: put_buf_def)
    have rest: "recv_queue E md u ?t = recv_queue E md u s" if "u \<noteq> p \<or> md \<noteq> m" for md u
      by (rule split_read_queues(1) [OF wf c i qs qn(2) b bd len _ refl that]) (use False in simp)
    have "recv_queue E m p ?t = drop (nat len) (payload_at s q) # map (payload_at s) qs"
      by (rule split_read_queues(2) [OF wf c i qs qn(2) b bd len _ refl]) (use False in simp)
    then have "concat (recv_queue E m p s) = ?x @ concat (recv_queue E m p ?t)"
      using qs by (simp add: recv_queue_eq [OF c])
    moreover have "gets (Recv_copy q len) ?a = ?x" by simp
    ultimately have fl: "moves E m p (puts (Recv_copy q len)) (gets (Recv_copy q len) ?a) s ?t"
      using rest [of p "peer m"] by (intro moves_at) (simp_all add: t rest)
    have notq: "y \<noteq> q" if "conns s r = Some d" "y \<in> set (opt_elems E (sendBuffer m d))" for r d y
      using queue_owner [OF wf c that(1), of q m y "peer m"] qs that(2) by auto
    have priv: "u \<noteq> q" if "private_buf E s j u" for j u
      using that c qn(3) by (auto simp: private_buf_def)
    have "private_buf E ?t j u" if "private_buf E s j u" for j u
      using that priv [OF that] by (auto simp: private_buf_def entry_ok_def t)
    then have "spares E closer m None s ?t"
      using notq priv by (auto simp: spares_def t)
    with wf' c i fl have "sound_step E closer m p (Recv_copy q len) s (?a, ?t)"
      by (auto simp: sound_step_def thread_ok_def t)
    with step show thesis by (rule that)
  qed
qed


text \<open>A packet that has been read leaves the queue and is freed.\<close>

lemma sound_unlink:
  assumes wf: "mem_wf E s" and c: "conns s p = Some c" and i: "pAssociatedIface c \<noteq> NULL"
    and st: "stands E closer s m c (Recv_unlink q bytes)"
  obtains x where "micro E m p (Recv_unlink q bytes) s = Some x"
    and "sound_step E closer m p (Recv_unlink q bytes) s x"
proof -
  let ?a = "Recv_unlink q bytes"
  have q: "opt_elems E (recvBuffer m c) \<noteq> []" "hd (opt_elems E (recvBuffer m c)) = q"
    and pay: "payload_at s q = bytes"
    using st by simp_all
  obtain qs where qs: "opt_elems E (recvBuffer m c) = q # qs" and qc: "q \<in> set (conn_bufs E c)"
    by (rule first_entry [OF wf c i q])
  obtain rb where rb: "recvBuffer m c = Some rb" "llist_ok E rb"
    using chan_buffers [OF wf c i, of m] by metis
  obtain r rb' where rem: "llist_remove_first E rb (cur_ctx s) = (r, rb', cur_ctx s)"
    and rb': "llist_ok E rb'" "llist_elems E rb' = tl (llist_elems E rb)" "malloc_ctx rb' = malloc_ctx rb"
    using llist_remove_first_ok [OF rb(2)] by blast
  let ?c = "set_recvBuffer m (Some rb') c"
  let ?t = "put_conn p ?c s"
  have step: "micro E m p ?a s = Some (Recv_free q bytes, ?t)"
    using c rb(1) rem by (simp add: mem_wf_get_conn [OF wf] setMallocContext_def)
  have els: "llist_elems E rb = q # llist_elems E rb'" "opt_elems E (recvBuffer m ?c) = qs"
    using qs rb rb' by (simp_all add: opt_elems_def)
  have new: "mem_wf E ?t" "private_buf E ?t (pAssociatedIface c) q"
    by (rule mem_wf_unlink [OF wf c i, where md = m and l = rb and l' = rb']; use rb rb' els in simp)+
  have t: "conns ?t = (conns s)(p \<mapsto> ?c)" "bufs ?t = bufs s" "heap ?t = heap s"
    by (simp_all add: put_conn_def)
  have dom: "dom (conns ?t) = dom (conns s)"
    using c by (auto simp: t)
  have cb: "set (conn_bufs E ?c) \<subseteq> set (conn_bufs E c)"
    using i els qs by (auto simp: opt_elems_conn_bufs(1) [where md = m])
  then have "private_buf E ?t j u" if "private_buf E s j u" for j u
    using that c by (auto simp: private_buf_def entry_ok_def t)
  then have sp: "spares E closer m (held ?a) s ?t"
    using c by (auto simp: spares_def t)
  have fl: "moves E m p (puts ?a) (gets ?a (Recv_free q bytes)) s ?t"
  proof (rule moves_at)
    show "concat (recv_queue E m p s) = gets ?a (Recv_free q bytes) @ concat (recv_queue E m p ?t)"
      using els qs pay by (simp add: recv_queue_put_conn [OF c] recv_queue_eq [OF c])
  qed (simp_all add: recv_queue_put_conn [OF c] recv_queue_eq [OF c])
  have "conns s q = None"
    using conn_bufs_live [OF wf c qc] packet_not_conn [OF wf, of q] by (auto simp: entry_ok_def)
  then have "\<not> own_object E s q"
    by (rule not_own_object [rotated]) (use c qc in \<open>auto simp: private_buf_def\<close>)
  with new dom sp fl i have "sound_step E closer m p ?a s (Recv_free q bytes, ?t)"
    by (simp add: sound_step_def thread_ok_def t)
  with step show thesis by (rule that)
qed

lemma sound_free:
  assumes wf: "mem_wf E s" and c: "conns s p = Some c" and i: "pAssociatedIface c \<noteq> NULL"
    and st: "stands E closer s m c (Recv_free q bytes)"
  obtains x where "micro E m p (Recv_free q bytes) s = Some x"
    and "sound_step E closer m p (Recv_free q bytes) s x"
proof -
  let ?a = "Recv_free q bytes" and ?i = "pAssociatedIface c"
  let ?t = "s\<lparr>heap := free E ?i q (heap s), bufs := (bufs s)(q := None), cur_ctx := NULL\<rparr>"
  let ?a' = "if bytes = [] then Recv_state else Done (Received bytes)"
  have q: "private_buf E s ?i q" using st by simp
  have step: "micro E m p ?a s = Some (?a', ?t)"
    using c by (simp add: mem_wf_get_conn [OF wf] setMallocContext_def free_block_def)
  have wf': "mem_wf E ?t"
    using mem_wf_free_buf [OF wf q] by simp
  have iq: "(?i, q) \<in> live E (heap s)"
    using q by (simp add: private_buf_def entry_ok_def)
  have lv: "live E (heap ?t) = live E (heap s) - {(?i, q)}"
    using free_live [OF mem_wfD(3) [OF wf] iq] by simp
  have notin: "u \<noteq> q" if "conns s r = Some d" "u \<in> set (opt_elems E (recvBuffer md d))" for r d u md
    using recv_elems_conn_bufs [OF wf that] q that(1) by (auto simp: private_buf_def)
  have "private_buf E ?t j u" if "private_buf E s j u" "u \<noteq> q" for j u
    using that lv by (auto simp: private_buf_def entry_ok_def)
  then have sp: "spares E closer m (held ?a) s ?t"
    using notin [where md = "peer m"] by (auto simp: spares_def)
  have "recv_queue E md u ?t = recv_queue E md u s" for md u
  proof (cases "conns s u")
    case (Some d)
    have "map (payload_at ?t) (opt_elems E (recvBuffer md d)) = map (payload_at s) (opt_elems E (recvBuffer md d))"
      using notin [OF Some] by (intro map_cong [OF refl] payload_at_other) auto
    with Some show ?thesis by (simp add: recv_queue_def)
  qed (simp add: recv_queue_def)
  then have fl: "moves E m p (puts ?a) (gets ?a ?a') s ?t"
    by (intro moves_at) simp_all
  have "sound_step E closer m p ?a s (?a', ?t)"
    using wf' sp fl c i by (simp add: sound_step_def thread_ok_def)
  with step show thesis by (rule that)
qed

section \<open>Steps of connect and accept\<close>

text \<open>A new connection is nobody else's, and in no list.\<close>

lemma offer_new_step:
  assumes wf: "mem_wf E s" and full: "never_full E" and i: "i \<in> dom (ifaces s)"
  obtains q c m' where "micro E m p (Offer_new i own remote) s =
      Some (Offer_link q, s\<lparr>heap := m', conns := (conns s)(q \<mapsto> c), cur_ctx := NULL\<rparr>)"
    and "mem_wf E (s\<lparr>heap := m', conns := (conns s)(q \<mapsto> c), cur_ctx := NULL\<rparr>)"
    and "created E m i own remote c" and "conns s q = None" and "bufs s q = None"
    and "live E m' = insert (i, q) (live E (heap s))" and "i \<noteq> NULL"
    and "\<And>j. q \<notin> set (iface_conns E s j)"
proof -
  obtain r where r: "ifaces s i = Some r" using i by auto
  obtain q m' where m: "malloc E i sizeof_connection (heap s) = (q, m')" by fastforce
  then have q: "q \<noteq> NULL" using full unfolding never_full_def by (metis fst_conv)
  note fresh = mem_wf_fresh [OF wf m q]
  obtain c where op: "createNewConnection E m i own remote s =
      Some (q, s\<lparr>heap := m', conns := (conns s)(q \<mapsto> c), cur_ctx := NULL\<rparr>)"
    and new: "created E m i own remote c"
    using createNewConnection_eq [OF mem_wfD(2) [OF wf] m, of m own remote] q by auto
  have wf': "mem_wf E (s\<lparr>heap := m', conns := (conns s)(q \<mapsto> c), cur_ctx := NULL\<rparr>)"
    by (rule createNewConnection_wf [OF wf r op])
  have "q \<notin> set (iface_conns E s j)" for j
  proof (cases "ifaces s j")
    case (Some w)
    show ?thesis
      by (rule iface_list [OF wf Some]) (use fresh(1) in force)
  qed (simp add: iface_conns_def)
  with op wf' new fresh mem_wf_iface(2) [OF wf r] show thesis
    by (intro that) simp_all
qed

lemma sound_offer_new:
  assumes wf: "mem_wf E s" and full: "never_full E" and i: "i \<in> dom (ifaces s)"
  obtains x where "micro E m p (Offer_new i own remote) s = Some x"
    and "sound_step E closer m p (Offer_new i own remote) s x"
proof -
  obtain q c m' where step: "micro E m p (Offer_new i own remote) s =
      Some (Offer_link q, s\<lparr>heap := m', conns := (conns s)(q \<mapsto> c), cur_ctx := NULL\<rparr>)"
    and wf': "mem_wf E (s\<lparr>heap := m', conns := (conns s)(q \<mapsto> c), cur_ctx := NULL\<rparr>)"
    and new: "created E m i own remote c" and fresh: "conns s q = None" "bufs s q = None"
      "live E m' = insert (i, q) (live E (heap s))" and inz: "i \<noteq> NULL"
    and out: "\<And>j. q \<notin> set (iface_conns E s j)"
    by (rule offer_new_step [OF wf full i, of m p own remote]) blast
  let ?t = "s\<lparr>heap := m', conns := (conns s)(q \<mapsto> c), cur_ctx := NULL\<rparr>"
  have cb: "conn_bufs E c = []"
    using new by (auto simp: created_def conn_bufs_def opt_elems_def)
  have rq: "opt_elems E (recvBuffer md c) = []" for md
    using new by (cases md) (auto simp: created_def opt_elems_def view_defs)
  have "unlisted E ?t q"
    using out by (simp add: unlisted_def iface_conns_def)
  moreover have "on_iface ?t q"
    using new inz by (simp add: on_iface_def created_def)
  ultimately have ok: "thread_ok E closer ?t m p (Offer_link q)"
    by (simp add: thread_ok_def)
  have "private_buf E ?t j u" if "private_buf E s j u" for j u
    using that fresh(3) cb by (auto simp: private_buf_def entry_ok_def)
  moreover have "u \<noteq> q" if "conns s u = Some d" for u d
    using that fresh(1) by auto
  moreover have "unlisted E ?t = unlisted E s"
    by (simp add: unlisted_def iface_conns_def fun_eq_iff)
  ultimately have sp: "spares E closer m None s ?t"
    unfolding spares_def by simp
  have mv: "moves E m p [] [] s ?t"
    by (rule moves_none)
      (use fresh(1) rq in \<open>simp add: recv_queue_def payload_at_def [abs_def] split: option.split\<close>)
  have "\<not> own_object E s q"
    by (rule not_own_object) (use fresh in \<open>auto simp: private_buf_def entry_ok_def\<close>)
  then have "sound_step E closer m p (Offer_new i own remote) s (Offer_link q, ?t)"
    by (intro sound_stepI wf' ok) (use sp mv in simp_all)
  with step show thesis by (rule that)
qed

lemma sound_offer_link:
  assumes wf: "mem_wf E s" and q: "on_iface s q" "unlisted E s q"
  obtains x where "micro E m p (Offer_link q) s = Some x"
    and "sound_step E closer m p (Offer_link q) s x"
proof -
  obtain c where c: "conns s q = Some c" "pAssociatedIface c \<noteq> NULL"
    using q(1) by (auto simp: on_iface_def)
  have new: "q \<notin> set (iface_conns E s (pAssociatedIface c))"
    using q(2) by (simp add: unlisted_def)
  obtain r' where op: "initiateNewConnection E q s = Some (True, s\<lparr>ifaces := (ifaces s)(pAssociatedIface c \<mapsto> r')\<rparr>)"
    and wf': "mem_wf E (s\<lparr>ifaces := (ifaces s)(pAssociatedIface c \<mapsto> r')\<rparr>)"
    and l: "opt_elems E (connectionList r') = q # iface_conns E s (pAssociatedIface c)"
    by (rule initiateNewConnection_wf [OF wf c new]) blast
  let ?t = "s\<lparr>ifaces := (ifaces s)(pAssociatedIface c \<mapsto> r')\<rparr>"
  have "pAssociatedIface c \<in> dom (ifaces s)"
    using mem_wf_conn(1) [OF wf c(1)] c(2) by (simp add: conn_ok_def)
  moreover have "unlisted E ?t u" if "unlisted E s u" "u \<noteq> q" for u
    using that l by (auto simp: unlisted_def iface_conns_def)
  ultimately have "spares E closer m (Some q) s ?t"
    by (auto simp: spares_def private_buf_def entry_ok_def)
  moreover have "moves E m p [] [] s ?t"
    by (rule moves_none) (simp add: recv_queue_def payload_at_def [abs_def] split: option.split)
  ultimately have "sound_step E closer m p (Offer_link q) s (Done (Offered q), ?t)"
    using wf' by (intro sound_stepI) (simp_all add: thread_ok_def)
  moreover have "micro E m p (Offer_link q) s = Some (Done (Offered q), ?t)"
    using op by simp
  ultimately show thesis by (rule that [rotated])
qed

lemma sound_accept_get:
  assumes wf: "mem_wf E s" and i: "i \<in> dom (ifaces s)"
  obtains x where "micro E m p (Accept_get i port k) s = Some x"
    and "sound_step E closer m p (Accept_get i port k) s x"
proof -
  obtain r where r: "ifaces s i = Some r" using i by auto
  obtain l where l: "connectionList r = Some l" "llist_ok E l" "NULL \<notin> set (llist_elems E l)"
    "\<And>q. q \<in> set (llist_elems E l) \<Longrightarrow> \<exists>c. conns s q = Some c \<and> pAssociatedIface c = i"
    by (rule iface_list [OF wf r]) blast
  let ?q = "if 0 \<le> k \<and> k < int (length (llist_elems E l)) then llist_elems E l ! nat k else NULL"
  let ?b = "if ?q = NULL then Done (Accepted NULL) else Accept_test i port k ?q"
  have "micro E m p (Accept_get i port k) s = Some (?b, s)"
    using r l(1) by (simp add: mem_wf_get_iface [OF wf] llist_get_n_val [OF l(2)])
  moreover have "?q \<noteq> NULL \<Longrightarrow> on_iface s ?q"
    using l(4) [of ?q] mem_wf_iface(2) [OF wf r] by (auto simp: on_iface_def nat_less_iff)
  then have "thread_ok E closer s m p ?b"
    using i by (simp add: thread_ok_def)
  then have "sound_step E closer m p (Accept_get i port k) s (?b, s)"
    by (intro sound_look [OF wf]) simp_all
  ultimately show thesis by (rule that)
qed

lemma setting_up_sound:
  assumes wf: "mem_wf E s" and ok: "setting_up E s a" and full: "never_full E"
  shows "\<exists>x. micro E m p a s = Some x \<and> sound_step E closer m p a s x"
proof -
  note get = mem_wf_get_conn [OF wf]
  consider i own remote where "a = Offer_new i own remote" "i \<in> dom (ifaces s)"
    | q where "a = Offer_link q" "on_iface s q" "unlisted E s q"
    | i port k where "a = Accept_get i port k" "i \<in> dom (ifaces s)"
    | i port k q where "a = Accept_test i port k q" "i \<in> dom (ifaces s)" "on_iface s q"
    | q where "a = Accept_open q" "on_iface s q"
    using ok by (cases a) auto
  then show ?thesis
  proof cases
    case 1
    then show ?thesis using sound_offer_new [OF wf full] by blast
  next
    case 2
    then show ?thesis using sound_offer_link [OF wf] by blast
  next
    case 3
    then show ?thesis using sound_accept_get [OF wf] by blast
  next
    case 4
    then obtain c where c: "conns s q = Some c" by (auto simp: on_iface_def)
    let ?b = "if connState c = c_create \<and> own_port m c = port then Accept_open q else Accept_get i port (k + 1)"
    have "thread_ok E closer s m p ?b"
      using 4 by (simp add: thread_ok_def)
    then have "sound_step E closer m p a s (?b, s)"
      using 4(1) by (intro sound_look [OF wf]) simp_all
    with c 4(1) show ?thesis by (simp add: get)
  next
    case 5
    then obtain c where c: "conns s q = Some c" "pAssociatedIface c \<noteq> NULL" by (auto simp: on_iface_def)
    have "sound_step E closer m p a s (Done (Accepted q), put_conn q (c\<lparr>connState := c_open\<rparr>) s)"
      by (rule sound_put [OF wf c]) (use 5(1) in \<open>simp_all add: thread_ok_def\<close>)
    with c 5(1) show ?thesis by (simp add: get)
  qed
qed

text \<open>Every step of a process that stands where it may stand is defined and sound.\<close>

lemma micro_sound:
  assumes wf: "mem_wf E s" and ok: "thread_ok E closer s m p a" and full: "never_full E"
  shows "\<exists>x. micro E m p a s = Some x \<and> sound_step E closer m p a s x"
proof (cases "(\<exists>r. a = Done r) \<or> setting_up E s a")
  case True
  then show ?thesis using sound_done [OF wf] setting_up_sound [OF wf _ full] by fastforce
next
  case False
  with ok obtain c where c: "conns s p = Some c" "pAssociatedIface c \<noteq> NULL"
    and st: "stands E closer s m c a"
    by (auto simp: thread_ok_def)
  have get: "get_conn p s = Some c"
    using c by (simp add: mem_wf_get_conn [OF wf])
  obtain rb where rb: "recvBuffer m c = Some rb" "llist_ok E rb"
    using chan_buffers [OF wf c, of m] by metis
  have first: "llist_get_first E rb cur = (case llist_elems E rb of [] \<Rightarrow> NULL | x # _ \<Rightarrow> x, cur)" for cur
    by (rule llist_get_first_val [OF rb(2)])
  have data: "hasDataList E rb \<longleftrightarrow> llist_elems E rb \<noteq> []"
    using ll.has_data [OF rb(2)] by (simp add: hasDataList_def)
  note read = sound_read [OF wf c] and field = sound_field [OF wf c]
  show ?thesis
  proof (cases a)
    case (Send_alloc bs len)
    obtain q m' where "malloc E (pAssociatedIface c) (packet_size len) (heap s) = (q, m')" by fastforce
    moreover from this full have "q \<noteq> NULL" unfolding never_full_def by (metis fst_conv)
    ultimately obtain x where "micro E m p (Send_alloc bs len) s = Some x"
      using get st Send_alloc by (auto simp: malloc_block_def setMallocContext_def mem_read_def)
    with sound_alloc [OF wf c] st Send_alloc show ?thesis by auto
  next
    case (Send_link q bs len)
    with st sound_link [OF wf c] show ?thesis by blast
  next
    case (Recv_copy q len)
    with st sound_copy [OF wf c] show ?thesis by blast
  next
    case (Recv_unlink q bytes)
    with st sound_unlink [OF wf c] show ?thesis by blast
  next
    case (Recv_free q bytes)
    with st sound_free [OF wf c] show ?thesis by blast
  next
    case (Done r)
    with False show ?thesis by simp
  qed (use get st rb first data in \<open>auto simp: setMallocContext_def opt_elems_def
        intro!: read field sound_done [OF wf] split: list.split\<close>)
qed


section \<open>Interleaved runs\<close>

text \<open>
  The shared memory, where each process is (on which connection), and the bytes put into and
  taken from every stream.
\<close>

record ('m, 'l, 'k) race =
  mem :: "('m, 'l, 'k) st"
  at :: "mode \<Rightarrow> ptr \<times> pc"
  put_in :: history
  taken :: history

fun call_start :: "pc \<Rightarrow> bool" where
  "call_start (Send_state bs len) \<longleftrightarrow> True"
| "call_start (Recv_len len) \<longleftrightarrow> True"
| "call_start Close_state \<longleftrightarrow> True"
| "call_start (Offer_new i own remote) \<longleftrightarrow> True"
| "call_start (Accept_get i port k) \<longleftrightarrow> k = 0"
| "call_start (Scan_test em) \<longleftrightarrow> True"
| "call_start _ \<longleftrightarrow> False"

text \<open>
  One step of one process; a process that is done may begin another call, on any connection,
  if \<open>may\<close> allows it there.
\<close>

inductive rstep ::
  "('m, 'l, 'k) ext \<Rightarrow> (('m, 'l, 'k) st \<Rightarrow> mode \<Rightarrow> ptr \<Rightarrow> pc \<Rightarrow> bool)
    \<Rightarrow> ('m, 'l, 'k) race \<Rightarrow> ('m, 'l, 'k) race \<Rightarrow> bool"
  for E :: "('m, 'l, 'k) ext" and may :: "('m, 'l, 'k) st \<Rightarrow> mode \<Rightarrow> ptr \<Rightarrow> pc \<Rightarrow> bool" where
  access: "at x m = (p, a) \<Longrightarrow> micro E m p a (mem x) = Some (a', s') \<Longrightarrow>
    rstep E may x (x\<lparr>mem := s', at := (at x)(m := (p, a')),
      put_in := (put_in x)(m := (put_in x m)(p := put_in x m p @ puts a)),
      taken := (taken x)(m := (taken x m)(p := taken x m p @ gets a a'))\<rparr>)"
| begin_call: "at x m = (u, Done r) \<Longrightarrow> call_start a \<Longrightarrow> may (mem x) m p a \<Longrightarrow>
    rstep E may x (x\<lparr>at := (at x)(m := (p, a))\<rparr>)"

inductive_cases rstepE: "rstep E may x y"

inductive rreach ::
  "('m, 'l, 'k) ext \<Rightarrow> (('m, 'l, 'k) st \<Rightarrow> mode \<Rightarrow> ptr \<Rightarrow> pc \<Rightarrow> bool)
    \<Rightarrow> ('m, 'l, 'k) race \<Rightarrow> ('m, 'l, 'k) race \<Rightarrow> bool"
  for E :: "('m, 'l, 'k) ext" and may :: "('m, 'l, 'k) st \<Rightarrow> mode \<Rightarrow> ptr \<Rightarrow> pc \<Rightarrow> bool"
    and x0 :: "('m, 'l, 'k) race" where
  rstart: "rreach E may x0 x0"
| rmore: "rreach E may x0 x \<Longrightarrow> rstep E may x y \<Longrightarrow> rreach E may x0 y"

text \<open>
  Valid calls of which only \<open>closer\<close> closes, and only open connections; valid calls with either
  process closing, and any connection.
\<close>

abbreviation one_closes :: "('m, 'l, 'k) ext \<Rightarrow> mode \<Rightarrow> ('m, 'l, 'k) st \<Rightarrow> mode \<Rightarrow> ptr \<Rightarrow> pc \<Rightarrow> bool" where
  "one_closes E closer \<equiv> thread_ok E closer"

definition both_close :: "('m, 'l, 'k) ext \<Rightarrow> ('m, 'l, 'k) st \<Rightarrow> mode \<Rightarrow> ptr \<Rightarrow> pc \<Rightarrow> bool" where
  "both_close E s m p a \<longleftrightarrow> thread_ok E m s m p a \<or> a = Close_state \<and> on_iface s p"

text \<open>Both processes are between two calls; what is queued counts as put in.\<close>

definition race_start :: "('m, 'l, 'k) ext \<Rightarrow> ('m, 'l, 'k) st \<Rightarrow> ('m, 'l, 'k) race" where
  "race_start E s = \<lparr>mem = s, at = (\<lambda>_. (NULL, Done No_data)),
     put_in = (\<lambda>m p. concat (recv_queue E (peer m) p s)), taken = (\<lambda>_ _. [])\<rparr>"

definition race_ok :: "('m, 'l, 'k) ext \<Rightarrow> mode \<Rightarrow> ('m, 'l, 'k) race \<Rightarrow> bool" where
  "race_ok E closer x \<longleftrightarrow> mem_wf E (mem x)
     \<and> (\<forall>m. thread_ok E closer (mem x) m (fst (at x m)) (snd (at x m)))
     \<and> (\<forall>m q. held (snd (at x m)) = Some q \<longrightarrow> held (snd (at x (peer m))) \<noteq> Some q)
     \<and> (\<forall>p m. put_in x (peer m) p = taken x m p @ concat (recv_queue E m p (mem x)))"

lemma race_start_ok: "mem_wf E s \<Longrightarrow> race_ok E closer (race_start E s)"
  by (simp add: race_ok_def race_start_def thread_ok_def)

text \<open>What somebody has for himself is his own, so the two never hold the same object.\<close>

lemma held_own:
  assumes "thread_ok E closer s m p a" and "held a = Some q"
  shows "own_object E s q"
  using assms by (cases a) (auto simp: thread_ok_def own_object_def)

lemma rstep_access_ok:
  assumes ok: "race_ok E closer x" and full: "never_full E" and at: "at x m = (p, a)"
    and step: "micro E m p a (mem x) = Some (a', s')"
  shows "race_ok E closer (x\<lparr>mem := s', at := (at x)(m := (p, a')),
      put_in := (put_in x)(m := (put_in x m)(p := put_in x m p @ puts a)),
      taken := (taken x)(m := (taken x m)(p := taken x m p @ gets a a'))\<rparr>)"
    (is "race_ok E closer ?y")
proof -
  obtain p2 b where at2: "at x (peer m) = (p2, b)" by fastforce
  have wf: "mem_wf E (mem x)" and th: "thread_ok E closer (mem x) m p a"
    and th2: "thread_ok E closer (mem x) (peer m) p2 b"
    using ok at at2 unfolding race_ok_def by (metis fst_conv snd_conv)+
  have h: "held a = Some q \<Longrightarrow> held b \<noteq> Some q" for q
    using ok at at2 unfolding race_ok_def by (metis snd_conv)
  have s: "sound_step E closer m p a (mem x) (a', s')"
    using micro_sound [OF wf th full] step by simp
  then have wf': "mem_wf E s'"
    and th': "thread_ok E closer s' m p a'" and sp: "spares E closer m (held a) (mem x) s'"
    and new: "held a' = Some q \<Longrightarrow> held a \<noteq> Some q \<Longrightarrow> \<not> own_object E (mem x) q"
    and fl: "moves E m p (puts a) (gets a a') (mem x) s'" for q
    by (simp_all add: sound_step_def)
  have th2': "thread_ok E closer s' (peer m) p2 b"
    by (rule spares_stable [OF sp th2]) (use h in auto)
  have h': "held a' = Some q \<Longrightarrow> held b \<noteq> Some q" for q
    using h [of q] new [of q] held_own [OF th2, of q] by blast
  have streams: "put_in ?y (peer n) u = taken ?y n u @ concat (recv_queue E n u s')" for u n
  proof -
    have old: "put_in x (peer k) u = taken x k u @ concat (recv_queue E k u (mem x))" for k
      using ok by (simp add: race_ok_def)
    note F = fl [unfolded moves_def, rule_format, of u]
    show ?thesis
    proof (cases "n = m")
      case True
      with old [of m] F show ?thesis by auto
    next
      case False
      then have n: "n = peer m" by (cases n; cases m) simp_all
      with old [of "peer m"] F show ?thesis by auto
    qed
  qed
  have who: "n = m \<or> n = peer m" for n
    by (cases n; cases m) simp_all
  have "thread_ok E closer s' n (fst (at ?y n)) (snd (at ?y n))" for n
    using who [of n] th' th2' at2 by auto
  moreover have "held (snd (at ?y n)) = Some q \<longrightarrow> held (snd (at ?y (peer n))) \<noteq> Some q" for n q
    using who [of n] h' [of q] at2 by auto
  ultimately show ?thesis
    unfolding race_ok_def using wf' streams by simp
qed

lemma rstep_ok:
  assumes "rstep E (one_closes E closer) x y" and "race_ok E closer x" and "never_full E"
  shows "race_ok E closer y"
  using assms(1)
proof cases
  case (access m p a a' s')
  with rstep_access_ok [OF assms(2,3)] show ?thesis by simp
next
  case (begin_call m u r a p)
  have "held a = None"
    using begin_call(3) by (cases a) simp_all
  with begin_call assms(2) show ?thesis
    by (auto simp: race_ok_def)
qed

lemma rreach_ok:
  assumes "rreach E (one_closes E closer) x0 x" and "race_ok E closer x0" and "never_full E"
  shows "race_ok E closer x"
  using assms by induction (auto intro: rstep_ok)

text \<open>In a reachable state every process can go on, and no byte is lost or out of order.\<close>

lemma interleaved:
  assumes wf: "mem_wf E s" and full: "never_full E" and reach: "rreach E (one_closes E closer) (race_start E s) x"
  shows "mem_wf E (mem x)" and "at x m = (p, a) \<Longrightarrow> micro E m p a (mem x) \<noteq> None"
    and "put_in x (peer m) p = taken x m p @ concat (recv_queue E m p (mem x))"
proof -
  have ok: "race_ok E closer x"
    by (rule rreach_ok [OF reach race_start_ok [OF wf] full])
  then show wf': "mem_wf E (mem x)"
    and "put_in x (peer m) p = taken x m p @ concat (recv_queue E m p (mem x))"
    by (simp_all add: race_ok_def)
  assume "at x m = (p, a)"
  then have "thread_ok E closer (mem x) m p a"
    using ok unfolding race_ok_def by (metis fst_conv snd_conv)
  from micro_sound [OF wf' this full] show "micro E m p a (mem x) \<noteq> None" by auto
qed

end
