(* ===== verification/Races.thy ===== *)
theory Races
  imports Interleaving
begin

text \<open>
  What can go wrong between the steps of \<open>Interleaving\<close>: runs that start in any running system
  with an open connection and end in a result no sequence of whole calls can have.
\<close>

section \<open>Building runs\<close>

text \<open>A run from \<open>x0\<close> that ends in \<open>s\<close> with the process \<open>md\<close> at \<open>a\<close> and its peer at \<open>b\<close>.\<close>

definition reaches ::
  "('m, 'l, 'k) ext \<Rightarrow> (('m, 'l, 'k) st \<Rightarrow> mode \<Rightarrow> ptr \<Rightarrow> pc \<Rightarrow> bool) \<Rightarrow> ('m, 'l, 'k) race
    \<Rightarrow> mode \<Rightarrow> ptr \<times> pc \<Rightarrow> ptr \<times> pc \<Rightarrow> ('m, 'l, 'k) st \<Rightarrow> bool" where
  "reaches E may x0 md a b s \<longleftrightarrow>
     (\<exists>x. rreach E may x0 x \<and> mem x = s \<and> at x md = a \<and> at x (peer md) = b)"

lemma reaches_start: "reaches E may (race_start E s) md (NULL, Done No_data) (NULL, Done No_data) s"
  unfolding reaches_def by (intro exI [of _ "race_start E s"]) (simp add: rstart race_start_def)

lemma reaches_swap: "reaches E may x0 (peer md) a b s = reaches E may x0 md b a s"
  by (auto simp: reaches_def)

lemma reaches_micro:
  assumes "reaches E may x0 md (p, a) b s" and "micro E md p a s = Some (a', s')"
  shows "reaches E may x0 md (p, a') b s'"
proof -
  obtain x where x: "rreach E may x0 x" "mem x = s" "at x md = (p, a)" "at x (peer md) = b"
    using assms(1) by (auto simp: reaches_def)
  from access [OF x(3), of E a' s' may] assms(2) x(2) rmore [OF x(1)]
  show ?thesis
    unfolding reaches_def using x(4) by fastforce
qed

lemma reaches_micros:
  assumes "reaches E may x0 md (p, a) b s" and "micros E md p n a s = Some (a', s')"
  shows "reaches E may x0 md (p, a') b s'"
  using assms
proof (induction n arbitrary: a s)
  case (Suc n)
  then show ?case by (auto split: Option.bind_splits dest: reaches_micro)
qed simp

lemma reaches_begin:
  assumes "reaches E may x0 md (u, Done r) b s" and "call_start a" and "may s md p a"
  shows "reaches E may x0 md (p, a) b s"
proof -
  obtain x where x: "rreach E may x0 x" "mem x = s" "at x md = (u, Done r)" "at x (peer md) = b"
    using assms(1) by (auto simp: reaches_def)
  from begin_call [OF x(3) assms(2), of may p E] assms(3) x(2) rmore [OF x(1)]
  show ?thesis
    unfolding reaches_def using x(4) by fastforce
qed

text \<open>The first steps of a call, by \<open>md\<close> or by its peer.\<close>

lemma reaches_call:
  assumes "reaches E may x0 md (u, Done r) b s" and "micros E md p n a s = Some (a', s')"
    and "call_start a" and "may s md p a"
  shows "reaches E may x0 md (p, a') b s'"
  by (rule reaches_micros [OF reaches_begin [OF assms(1,3,4)] assms(2)])

lemma reaches_peer_call:
  assumes "reaches E may x0 md b (u, Done r) s" and "micros E (peer md) p n a s = Some (a', s')"
    and "call_start a" and "may s (peer md) p a"
  shows "reaches E may x0 md b (p, a') s'"
  using reaches_call [of E may x0 "peer md" u r b s p n a a' s'] assms by (simp add: reaches_swap)

section \<open>Calls on an open connection\<close>

lemma open_iface:
  assumes "mem_wf E s" and "conns s p = Some c" and "connState c = c_open"
  shows "pAssociatedIface c \<noteq> NULL"
  using mem_wf_conn(1) [OF assms(1,2)] assms(3) by (auto simp: conn_ok_def split: if_splits)

lemma thread_okI:
  "conns s p = Some c \<Longrightarrow> pAssociatedIface c \<noteq> NULL \<Longrightarrow> stands E closer s m c a
    \<Longrightarrow> thread_ok E closer s m p a"
  by (auto simp: thread_ok_def)

lemma send_alone:
  assumes wf: "mem_wf E s" and full: "never_full E" and c: "conns s p = Some c" "connState c = c_open"
    and args: "0 \<le> len" "len \<le> int (length bs)"
  obtains s1 c1 where "micros E m p 5 (Send_state bs len) s = Some (Done (Sent len), s1)"
    and "mem_wf E s1" and "conns s1 p = Some c1" and "connState c1 = c_open"
    and "recv_queue E (peer m) p s1 = recv_queue E (peer m) p s @ [take (nat len) bs]"
proof -
  note i = open_iface [OF wf c]
  obtain r s1 where send: "sendConnection E m p bs len s = Some (r, s1)"
    using sendConnection_defined [OF wf c(1) i full args, of m] by auto
  obtain q b c1 m' sb' where r: "r = len" and s1: "s1 = s\<lparr>heap := m', bufs := (bufs s)(q \<mapsto> b),
        conns := (conns s)(p \<mapsto> c1), cur_ctx := NULL\<rparr>"
    and wf1: "mem_wf E s1"
    and c1: "c1 = set_remote_events m (SET_EVENT (remote_events m c) EPOLLIN) (set_sendBuffer m (Some sb') c)"
    using sendConnection_wf [OF wf c(1) i send] by metis
  have "micros E m p 5 (Send_state bs len) s = Some (Done (Sent len), s1)"
    unfolding micros_send using c send r by (simp add: mem_wf_get_conn [OF wf])
  then show thesis
    by (rule that [where ?c1.0 = c1]) (use wf1 s1 c1 c(2) sendConnection_queues(1) [OF wf c(1) i send] in simp_all)
qed

lemma close_alone:
  assumes wf: "mem_wf E s" and c: "conns s p = Some c" "connState c = c_open"
  obtains s1 c1 where "micros E m p 4 Close_state s = Some (Done Closed, s1)"
    and "mem_wf E s1" and "conns s1 p = Some c1" and "connState c1 = c_close"
    and "\<And>md. recv_queue E md p s1 = recv_queue E md p s"
    and "own_events (peer m) c1 = SET_EVENT (own_events (peer m) c) EPOLLHUP"
proof -
  let ?c = "set_remote_events m (SET_EVENT (remote_events m c) EPOLLHUP) (c\<lparr>connState := c_close\<rparr>)"
  have st: "connState c \<in> {c_open, c_listen}" using c(2) by simp
  note mark = closeConnection_mark [OF wf c(1) st, where md = m]
  show thesis
  proof (rule that)
    show "micros E m p 4 Close_state s = Some (Done Closed, put_conn p ?c s)"
      using micros_mark [of p s c E m] mark(1) c by (simp add: mem_wf_get_conn [OF wf])
    show "mem_wf E (put_conn p ?c s)" by (rule mark(2))
    show "conns (put_conn p ?c s) p = Some ?c" by (simp add: put_conn_def)
    show "connState ?c = c_close" by (cases m) simp_all
    show "recv_queue E md p (put_conn p ?c s) = recv_queue E md p s" for md
      by (simp add: recv_queue_put_conn [OF c(1)] recv_queue_eq [OF c(1)])
    show "own_events (peer m) ?c = SET_EVENT (own_events (peer m) c) EPOLLHUP"
      by (simp add: view_defs split: mode.splits)
  qed
qed

section \<open>The end of the stream too early\<close>

text \<open>
  \<open>recv\<close> finds the queue empty, then the peer sends and closes, then \<open>recv\<close> looks at the state.
\<close>

lemma end_of_stream_race:
  fixes n :: int
  assumes wf: "mem_wf E s" and full: "never_full E" and c: "conns s p = Some c" "connState c = c_open"
    and queue: "recv_queue E md p s = []" and args: "0 \<le> len" "len \<le> int (length bs)" "0 \<le> n"
  shows "\<exists>x. rreach E (one_closes E (peer md)) (race_start E s) x
    \<and> at x md = (p, Done End_of_stream) \<and> at x (peer md) = (p, Done Closed)
    \<and> recv_queue E md p (mem x) = [take (nat len) bs]"
proof -
  let ?R = "reaches E (one_closes E (peer md)) (race_start E s) md"
  note i = open_iface [OF wf c]
  obtain rb where rb: "recvBuffer md c = Some rb" "llist_ok E rb"
    using chan_buffers [OF wf c(1) i, of md] by metis
  have "llist_elems E rb = []"
    using queue rb(1) c(1) by (simp add: recv_queue_def opt_elems_def)
  then have 1: "micros E md p 1 (Recv_len n) s = Some (Recv_state, s)"
    using c rb ll.has_data [OF rb(2)] by (simp add: mem_wf_get_conn [OF wf] hasDataList_def)
  obtain s1 c1 where s1: "micros E (peer md) p 5 (Send_state bs len) s = Some (Done (Sent len), s1)"
    "mem_wf E s1" "conns s1 p = Some c1" "connState c1 = c_open"
    "recv_queue E md p s1 = [take (nat len) bs]"
    by (rule send_alone [OF wf full c args(1,2), of "peer md"]) (use queue in simp)
  obtain s2 c2 where s2: "micros E (peer md) p 4 Close_state s1 = Some (Done Closed, s2)"
    "mem_wf E s2" "conns s2 p = Some c2" "connState c2 = c_close"
    "recv_queue E md p s2 = [take (nat len) bs]"
    by (rule close_alone [OF s1(2-4), of "peer md"]) (use s1(5) in simp)
  have 4: "micro E md p Recv_state s2 = Some (Done End_of_stream, s2)"
    using s2(3,4) by (simp add: mem_wf_get_conn [OF s2(2)])
  have ok: "one_closes E (peer md) s md p (Recv_len n)"
    "one_closes E (peer md) s (peer md) p (Send_state bs len)"
    "one_closes E (peer md) s1 (peer md) p Close_state"
    by (rule thread_okI [OF c(1) i] thread_okI [OF s1(3) open_iface [OF s1(2-4)]];
        use args s1(4) in simp)+
  have "?R (p, Recv_state) (NULL, Done No_data) s"
    by (rule reaches_call [OF reaches_start 1]) (simp_all add: ok)
  then have "?R (p, Recv_state) (p, Done (Sent len)) s1"
    by (rule reaches_peer_call [OF _ s1(1)]) (simp_all add: ok)
  then have "?R (p, Recv_state) (p, Done Closed) s2"
    by (rule reaches_peer_call [OF _ s2(1)]) (simp_all add: ok)
  from reaches_micro [OF this 4] s2(5) show ?thesis
    unfolding reaches_def by auto
qed

section \<open>Two closes at once\<close>

lemma both_closeI: "on_iface s p \<Longrightarrow> both_close E s m p Close_state"
  by (simp add: both_close_def)

lemma open_on_iface: "mem_wf E s \<Longrightarrow> conns s p = Some c \<Longrightarrow> connState c = c_open \<Longrightarrow> on_iface s p"
  using open_iface by (auto simp: on_iface_def)

text \<open>The first step of a close, and both processes behind it.\<close>

lemma both_at_mark:
  assumes wf: "mem_wf E s" and c: "conns s p = Some c" "connState c = c_open"
  shows "micros E m p 1 Close_state s = Some (Close_mark, s)"
    and "reaches E (both_close E) (race_start E s) md (p, Close_mark) (p, Close_mark) s"
proof -
  show 1: "micros E m p 1 Close_state s = Some (Close_mark, s)" for m
    using c by (simp add: mem_wf_get_conn [OF wf])
  note may = both_closeI [OF open_on_iface [OF wf c], of E]
  have "reaches E (both_close E) (race_start E s) md (p, Close_mark) (NULL, Done No_data) s"
    by (rule reaches_call [OF reaches_start 1]) (simp_all add: may)
  then show "reaches E (both_close E) (race_start E s) md (p, Close_mark) (p, Close_mark) s"
    by (rule reaches_peer_call [OF _ 1]) (simp_all add: may)
qed

text \<open>
  Both processes find the connection open: both mark it, neither removes it, and no later call
  of either process can reach it.
\<close>

lemma close_race_leak:
  assumes wf: "mem_wf E s" and c: "conns s p = Some c" "connState c = c_open"
  shows "\<exists>x. rreach E (both_close E) (race_start E s) x
    \<and> at x md = (p, Done Closed) \<and> at x (peer md) = (p, Done Closed)
    \<and> p \<in> dom (conns (mem x))"
proof -
  obtain s1 c1 where s1: "micros E md p 4 Close_state s = Some (Done Closed, s1)"
    "mem_wf E s1" "conns s1 p = Some c1"
    by (rule close_alone [OF wf c])
  have first: "micros E md p 3 Close_mark s = Some (Done Closed, s1)"
    using s1(1) c by (simp add: eval_nat_numeral mem_wf_get_conn [OF wf])
  have "\<exists>t. micros E (peer md) p 3 Close_mark s1 = Some (Done Closed, t) \<and> p \<in> dom (conns t)"
    using s1(3) by (simp add: eval_nat_numeral mem_wf_get_conn [OF s1(2)]) (simp add: put_conn_def)
  then obtain t where t: "micros E (peer md) p 3 Close_mark s1 = Some (Done Closed, t)" "p \<in> dom (conns t)"
    by blast
  have "reaches E (both_close E) (race_start E s) md (p, Done Closed) (p, Close_mark) s1"
    by (rule reaches_micros [OF both_at_mark(2) [OF wf c] first])
  then have "reaches E (both_close E) (race_start E s) (peer md) (p, Done Closed) (p, Done Closed) t"
    by (intro reaches_micros [OF _ t(1)]) (simp add: reaches_swap)
  with t(2) show ?thesis unfolding reaches_def by auto
qed

text \<open>
  The first to close makes the new state visible before it sets the peer's mask.  In between
  the second removes the connection, and the first writes to freed memory.
\<close>

lemma close_race_freed:
  assumes wf: "mem_wf E s" and c: "conns s p = Some c" "connState c = c_open"
  shows "\<exists>x. rreach E (both_close E) (race_start E s) x
    \<and> at x md = (p, Close_load) \<and> at x (peer md) = (p, Done Closed)
    \<and> micro E md p Close_load (mem x) = None"
proof -
  let ?c = "c\<lparr>connState := c_close\<rparr>"
  let ?s = "put_conn p ?c s"
  let ?R = "reaches E (both_close E) (race_start E s) md"
  have wf1: "mem_wf E ?s"
    by (rule mem_wf_put_conn_same [OF wf c(1)]) simp_all
  have c1: "conns ?s p = Some ?c" by (simp add: put_conn_def)
  have i1: "pAssociatedIface ?c \<noteq> NULL" using open_iface [OF wf c] by simp
  obtain t where rem: "removeConnection E (peer md) p ?s = Some (True, t)" and t: "conns t p = None"
    by (rule removeConnection_wf [OF wf1 c1 i1, where md = "peer md"]) simp
  have "closeConnection E (peer md) p ?s = Some t"
    using closeConnection_remove [OF wf1 c1, of "peer md"] rem by simp
  with micros_close [OF wf1 c1 order_refl, of "peer md"]
  obtain n where remove: "micros E (peer md) p n Close_state ?s = Some (Done Closed, t)"
    by simp
  have mark: "micros E md p 2 Close_state s = Some (Close_load, ?s)"
    using c by (simp add: eval_nat_numeral mem_wf_get_conn [OF wf])
  note may = both_closeI [OF open_on_iface [OF wf c], of E]
  have "?R (NULL, Done No_data) (p, Close_state) s"
    by (subst reaches_swap [symmetric], rule reaches_begin [OF reaches_start])
      (simp_all add: may)
  then have "?R (p, Close_load) (p, Close_state) ?s"
    by (rule reaches_call [OF _ mark]) (simp_all add: may)
  then have "reaches E (both_close E) (race_start E s) (peer md) (p, Done Closed) (p, Close_load) t"
    by (intro reaches_micros [OF _ remove]) (simp add: reaches_swap)
  then obtain x where "rreach E (both_close E) (race_start E s) x" "mem x = t"
    "at x md = (p, Close_load)" "at x (peer md) = (p, Done Closed)"
    by (auto simp: reaches_def)
  with t show ?thesis by (auto simp: get_conn_def)
qed

section \<open>A removal that removes another connection\<close>

text \<open>\<open>connect\<close>, alone: a connection that was not there, first in the list of its interface.\<close>

lemma offer_alone:
  assumes wf: "mem_wf E s" and full: "never_full E" and i: "i \<in> dom (ifaces s)"
  obtains q t where "micros E m p 2 (Offer_new i own remote) s = Some (Done (Offered q), t)"
    and "mem_wf E t" and "conns s q = None" and "\<And>u d. conns s u = Some d \<Longrightarrow> conns t u = Some d"
    and "iface_conns E t i = q # iface_conns E s i"
proof -
  obtain q c m' where make: "micro E m p (Offer_new i own remote) s =
      Some (Offer_link q, s\<lparr>heap := m', conns := (conns s)(q \<mapsto> c), cur_ctx := NULL\<rparr>)"
    and wf1: "mem_wf E (s\<lparr>heap := m', conns := (conns s)(q \<mapsto> c), cur_ctx := NULL\<rparr>)"
    and new: "created E m i own remote c" and fresh: "conns s q = None" and inz: "i \<noteq> NULL"
    and out: "\<And>j. q \<notin> set (iface_conns E s j)"
    by (rule offer_new_step [OF wf full i, of m p own remote]) blast
  let ?s = "s\<lparr>heap := m', conns := (conns s)(q \<mapsto> c), cur_ctx := NULL\<rparr>"
  have c: "conns ?s q = Some c" "pAssociatedIface c = i"
    using new by (simp_all add: created_def)
  have same: "iface_conns E ?s j = iface_conns E s j" for j
    by (simp add: iface_conns_def)
  obtain r where link: "initiateNewConnection E q ?s = Some (True, ?s\<lparr>ifaces := (ifaces ?s)(i \<mapsto> r)\<rparr>)"
    and wf2: "mem_wf E (?s\<lparr>ifaces := (ifaces ?s)(i \<mapsto> r)\<rparr>)"
    and l: "opt_elems E (connectionList r) = q # iface_conns E s i"
    by (rule initiateNewConnection_wf [OF wf1 c(1), unfolded c(2) same, OF inz out]) blast
  show thesis
  proof (rule that)
    show "micros E m p 2 (Offer_new i own remote) s =
        Some (Done (Offered q), ?s\<lparr>ifaces := (ifaces ?s)(i \<mapsto> r)\<rparr>)"
      using make link by (simp add: eval_nat_numeral)
    show "conns (?s\<lparr>ifaces := (ifaces ?s)(i \<mapsto> r)\<rparr>) u = Some d" if "conns s u = Some d" for u d
      using that fresh by auto
    show "iface_conns E (?s\<lparr>ifaces := (ifaces ?s)(i \<mapsto> r)\<rparr>) i = q # iface_conns E s i"
      using l by (simp add: iface_conns_def)
  qed (use wf2 fresh in simp_all)
qed

text \<open>The end of a removal, alone: what is at the index goes from the list, \<open>p\<close> is freed.\<close>

lemma cut_alone:
  assumes wf: "mem_wf E s" and c: "conns s p = Some c" and i: "pAssociatedIface c = i" "i \<noteq> NULL"
    and j: "j < length (iface_conns E s i)"
  obtains t where "micros E m p 4 (Drop_cut (int j)) s = Some (Done Closed, t)"
    and "conns t = (conns s)(p := None)"
    and "iface_conns E t i = take j (iface_conns E s i) @ drop (Suc j) (iface_conns E s i)"
    and "\<exists>r l. ifaces t i = Some r \<and> connectionList r = Some l \<and> llist_ok E l"
proof -
  obtain r where r: "ifaces s i = Some r"
    using mem_wf_conn(1) [OF wf c] i by (auto simp: conn_ok_def)
  obtain l where l: "connectionList r = Some l" "llist_ok E l" "iface_conns E s i = llist_elems E l"
    by (rule iface_list [OF wf r]) blast
  obtain x l' where cut: "llist_remove_n E l (int j) (cur_ctx s) = (x, l', cur_ctx s)" "llist_ok E l'"
    "llist_elems E l' = take j (llist_elems E l) @ drop (Suc j) (llist_elems E l)"
    using llist_remove_n_ok [OF l(2), of "int j" "cur_ctx s"] j l(3) by auto
  obtain rb sb where b: "recvBuffer m c = Some rb" "sendBuffer m c = Some sb"
    using chan_buffers [OF wf c, of m] i by metis
  let ?s = "put_iface i (r\<lparr>connectionList := Some l'\<rparr>) s"
  obtain t where t: "micros E m p 4 (Drop_cut (int j)) s = Some (Done Closed, t)"
    "conns t = (conns s)(p := None)" "ifaces t = ifaces ?s"
    using c i r l(1) cut(1) b mem_wf_conn(3) [OF wf c]
    by (simp add: eval_nat_numeral mem_wf_get_conn [OF wf] mem_wf_get_iface [OF wf] llist_delete_def Let_def
        free_block_def setMallocContext_def put_conn_def put_iface_def get_conn_def)
  show thesis
    by (rule that [OF t(1,2)])
      (use l(3) cut in \<open>simp_all add: t(3) iface_conns_def put_iface_def opt_elems_def\<close>)
qed

text \<open>
  \<open>llist_remove\<close> finds the connection at an index; the peer offers a connection, which moves it
  to the next one; then the entry at the old index is removed.  The connection is freed but
  stays in the list.
\<close>

lemma removal_race:
  assumes wf: "mem_wf E s" and full: "never_full E" and c: "conns s p = Some c" "connState c = c_close"
    and i: "pAssociatedIface c = i" "i \<noteq> NULL" and list: "iface_conns E s i = xs @ p # ys"
  shows "\<exists>x q. rreach E (both_close E) (race_start E s) x
    \<and> at x md = (p, Done Closed) \<and> at x (peer md) = (p, Done (Offered q))
    \<and> conns (mem x) p = None \<and> iface_conns E (mem x) i = butlast (q # xs) @ p # ys
    \<and> (\<exists>r l. ifaces (mem x) i = Some r \<and> connectionList r = Some l \<and> llist_ok E l)"
proof -
  let ?j = "length xs"
  let ?R = "reaches E (both_close E) (race_start E s) md"
  obtain r where r: "ifaces s i = Some r"
    using mem_wf_conn(1) [OF wf c(1)] i by (auto simp: conn_ok_def)
  obtain l where l: "connectionList r = Some l" "llist_ok E l" "iface_conns E s i = llist_elems E l"
    "distinct (llist_elems E l)" "NULL \<notin> set (llist_elems E l)"
    by (rule iface_list [OF wf r]) blast
  have elems: "llist_elems E l = xs @ p # ys" "p \<notin> set xs"
    using list l(3,4) by auto
  have "\<forall>n < ?j. llist_elems E l ! n \<noteq> p"
    using elems by (auto simp: nth_append dest: nth_mem)
  then have "micros E md p ?j (Drop_get 0) s = Some (Drop_get (int ?j), s)"
    using micros_drop_get [OF wf c(1) _ l(1,2,5), of 0 ?j md] r i elems(1) by simp
  moreover have "micro E md p Close_state s = Some (Drop_get 0, s)"
    "micro E md p (Drop_get (int ?j)) s = Some (Drop_cut (int ?j), s)"
    using c r i l(1) elems(1) mem_wf_conn(3) [OF wf c(1)]
    by (simp_all add: mem_wf_get_conn [OF wf] mem_wf_get_iface [OF wf] llist_get_n_val [OF l(2)])
  ultimately have find: "micros E md p (Suc (?j + 1)) Close_state s = Some (Drop_cut (int ?j), s)"
    using micros_add [of E md p ?j 1 "Drop_get 0" s] by (simp del: micro.simps)
  obtain q t where offer: "micros E (peer md) p 2 (Offer_new i 0 0) s = Some (Done (Offered q), t)"
    "mem_wf E t" "conns t p = Some c" "iface_conns E t i = q # xs @ p # ys"
    by (rule offer_alone [OF wf full, of i "peer md" p 0 0]) (use r c(1) list in auto)
  obtain u where cut: "micros E md p 4 (Drop_cut (int ?j)) t = Some (Done Closed, u)"
    "conns u = (conns t)(p := None)" "iface_conns E u i = butlast (q # xs) @ p # ys"
    "\<exists>r l. ifaces u i = Some r \<and> connectionList r = Some l \<and> llist_ok E l"
    by (rule cut_alone [OF offer(2,3) i, of ?j md])
      (use offer(4) in \<open>auto simp: butlast_conv_take take_Cons' drop_Cons'\<close>)
  have may: "both_close E s md p Close_state" "both_close E s (peer md) p (Offer_new i 0 0)"
    using c(1) i r by (auto simp: both_close_def thread_ok_def on_iface_def)
  have "?R (p, Drop_cut (int ?j)) (NULL, Done No_data) s"
    by (rule reaches_call [OF reaches_start find]) (simp_all add: may)
  then have "?R (p, Drop_cut (int ?j)) (p, Done (Offered q)) t"
    by (rule reaches_peer_call [OF _ offer(1)]) (simp_all add: may)
  then have "?R (p, Done Closed) (p, Done (Offered q)) u"
    by (rule reaches_micros [OF _ cut(1)])
  then obtain x where "rreach E (both_close E) (race_start E s) x" "mem x = u"
    "at x md = (p, Done Closed)" "at x (peer md) = (p, Done (Offered q))"
    by (auto simp: reaches_def)
  with cut(2-4) show ?thesis by auto
qed

text \<open>Who next looks for a connection to accept on this interface reads the freed one.\<close>

lemma dangling_search:
  assumes "ifaces t i = Some r" and "connectionList r = Some l" and "llist_ok E l" and "i \<noteq> NULL"
    and "iface_conns E t i = p # ys" and "p \<noteq> NULL" and "conns t p = None"
  shows "searchNewConnectionOnIface E m i port t = None"
proof -
  have "llist_elems E l = p # ys"
    using assms(1,2,5) by (simp add: iface_conns_def opt_elems_def)
  then have "fst (llist_get_n E l 0 (cur_ctx t)) = p"
    by (simp add: llist_get_n_val [OF assms(3)])
  then show ?thesis
    using assms by (simp add: searchNewConnectionOnIface_def get_iface_def get_conn_def FOREACH_LIST_def)
qed

lemma removal_race_newest:
  assumes wf: "mem_wf E s" and full: "never_full E" and c: "conns s p = Some c" "connState c = c_close"
    and i: "pAssociatedIface c = i" "i \<noteq> NULL" and list: "iface_conns E s i = p # ys"
  shows "\<exists>x q. rreach E (both_close E) (race_start E s) x
    \<and> at x md = (p, Done Closed) \<and> at x (peer md) = (p, Done (Offered q))
    \<and> conns (mem x) p = None \<and> iface_conns E (mem x) i = p # ys
    \<and> (\<forall>m port. searchNewConnectionOnIface E m i port (mem x) = None)"
proof -
  obtain x q r l where x: "rreach E (both_close E) (race_start E s) x" "at x md = (p, Done Closed)"
    "at x (peer md) = (p, Done (Offered q))" "conns (mem x) p = None" "iface_conns E (mem x) i = p # ys"
    and l: "ifaces (mem x) i = Some r" "connectionList r = Some l" "llist_ok E l"
    using removal_race [OF wf full c i, of "[]" ys md] list by auto
  have "searchNewConnectionOnIface E m i port (mem x) = None" for m port
    by (rule dangling_search [OF l i(2) x(5) mem_wf_conn(3) [OF wf c(1)] x(4)])
  with x show ?thesis by blast
qed

section \<open>A hangup that is never reported\<close>

text \<open>
  \<open>CLEAR_EVENT\<close> stores back a mask that was loaded before the peer set its bit.
\<close>

lemma hangup_race:
  assumes wf: "mem_wf E s" and c: "conns s p = Some c" "connState c = c_open"
    and ev: "IS_EVENT_SET (own_events md c) em" "\<not> IS_EVENT_SET (own_events md c) EPOLLHUP"
  shows "\<exists>x r c'. rreach E (one_closes E (peer md)) (race_start E s) x
    \<and> at x md = (p, Done (Reported (Some r))) \<and> at x (peer md) = (p, Done Closed)
    \<and> conns (mem x) p = Some c' \<and> connState c' = c_close
    \<and> \<not> IS_EVENT_SET r EPOLLHUP \<and> \<not> IS_EVENT_SET (own_events md c') EPOLLHUP"
proof -
  let ?R = "reaches E (one_closes E (peer md)) (race_start E s) md"
  let ?m = "own_events md c"
  let ?a = "Scan_store em (?m AND em) ?m"
  note i = open_iface [OF wf c]
  have scan: "micros E md p 3 (Scan_test em) s = Some (?a, s)"
    using c ev by (simp add: eval_nat_numeral mem_wf_get_conn [OF wf])
  obtain s1 c1 where s1: "micros E (peer md) p 4 Close_state s = Some (Done Closed, s1)"
    "mem_wf E s1" "conns s1 p = Some c1" "connState c1 = c_close"
    by (rule close_alone [OF wf c])
  let ?c = "set_own_events md (CLEAR_EVENT ?m em) c1"
  have store: "micro E md p ?a s1 = Some (Done (Reported (Some (?m AND em))), put_conn p ?c s1)"
    using s1(3) by (simp add: mem_wf_get_conn [OF s1(2)])
  have ok: "one_closes E (peer md) s md p (Scan_test em)" "one_closes E (peer md) s (peer md) p Close_state"
    by (rule thread_okI [OF c(1) i]; use c in simp)+
  have "?R (p, ?a) (NULL, Done No_data) s"
    by (rule reaches_call [OF reaches_start scan]) (simp_all add: ok)
  then have "?R (p, ?a) (p, Done Closed) s1"
    by (rule reaches_peer_call [OF _ s1(1)]) (simp_all add: ok)
  then have "?R (p, Done (Reported (Some (?m AND em)))) (p, Done Closed) (put_conn p ?c s1)"
    by (rule reaches_micro [OF _ store])
  then obtain x where x: "rreach E (one_closes E (peer md)) (race_start E s) x" "mem x = put_conn p ?c s1"
    "at x md = (p, Done (Reported (Some (?m AND em))))" "at x (peer md) = (p, Done Closed)"
    by (auto simp: reaches_def)
  have "(?m AND w) AND EPOLLHUP = 0" for w
    using ev(2) and.assoc [of w ?m EPOLLHUP] by (simp add: IS_EVENT_SET_def and.commute [of ?m w])
  then have "\<not> IS_EVENT_SET (?m AND em) EPOLLHUP" "\<not> IS_EVENT_SET (CLEAR_EVENT ?m em) EPOLLHUP"
    by (simp_all only: IS_EVENT_SET_def CLEAR_EVENT_def not_not)
  moreover have "own_events md ?c = CLEAR_EVENT ?m em"
    by (simp add: view_defs split: mode.splits)
  ultimately show ?thesis
    using x s1(4) by (intro exI [of _ x] exI [of _ "?m AND em"] exI [of _ ?c]) (simp add: put_conn_def)
qed

end
