(* ===== verification/Progress.thy ===== *)
theory Progress
  imports Interleaving
begin

text \<open>
  No call waits for the other process in the middle: every access brings it closer to its end,
  whatever the other process does in between.  The number of accesses left is a constant for
  all calls but \<open>accept\<close>, whose search goes through a list that the other process may make
  longer meanwhile.
\<close>

section \<open>The accesses left\<close>

text \<open>
  An upper bound, for the list of connections as it is in the state \<open>t\<close>.  The steps of a removal
  are not among those that may interleave (\<open>stands\<close>).
\<close>

fun accesses_left :: "('m, 'l, 'k) ext \<Rightarrow> ('m, 'l, 'k) st \<Rightarrow> pc \<Rightarrow> nat" where
  "accesses_left E t (Send_state bs len) = 5"
| "accesses_left E t (Send_alloc bs len) = 4"
| "accesses_left E t (Send_link q bs len) = 3"
| "accesses_left E t (Send_load len) = 2"
| "accesses_left E t (Send_store ev len) = 1"
| "accesses_left E t (Recv_len len) = 6"
| "accesses_left E t (Recv_first len) = 5"
| "accesses_left E t (Recv_copy q len) = 4"
| "accesses_left E t (Recv_unlink q bytes) = 3"
| "accesses_left E t (Recv_free q bytes) = 2"
| "accesses_left E t Recv_state = 1"
| "accesses_left E t Close_state = 4"
| "accesses_left E t Close_mark = 3"
| "accesses_left E t Close_load = 2"
| "accesses_left E t (Close_store ev) = 1"
| "accesses_left E t (Scan_test em) = 4"
| "accesses_left E t (Scan_report em) = 3"
| "accesses_left E t (Scan_load em r) = 2"
| "accesses_left E t (Scan_store em r ev) = 1"
| "accesses_left E t (Offer_new i own remote) = 2"
| "accesses_left E t (Offer_link q) = 1"
| "accesses_left E t (Accept_get i port k) = 2 * (length (iface_conns E t i) - nat k) + 3"
| "accesses_left E t (Accept_test i port k q) = 2 * (length (iface_conns E t i) - nat (k + 1)) + 4"
| "accesses_left E t (Accept_open q) = 1"
| "accesses_left E t _ = 0"

lemma accesses_left_zero:
  "thread_ok E closer s m p a \<Longrightarrow> accesses_left E t a = 0 \<Longrightarrow> \<exists>r. a = Done r"
  by (cases a) (auto simp: thread_ok_def)

text \<open>The lists of connections only grow.\<close>

lemma micro_ifaces:
  assumes "micro E m p a s = Some (a', s')" and "\<And>q. a \<noteq> Offer_link q"
    and "\<And>i own remote. a \<noteq> Offer_new i own remote" and "\<And>k. a \<noteq> Drop_cut k"
  shows "ifaces s' = ifaces s"
  using assms
  by (cases a) (auto simp: Let_def setMallocContext_def malloc_block_def free_block_def
      split: Option.bind_splits prod.splits if_splits)

lemma micro_lists_grow:
  assumes wf: "mem_wf E s" and ok: "thread_ok E closer s m p a" and full: "never_full E"
    and step: "micro E m p a s = Some (a', s')"
  shows "length (iface_conns E s i) \<le> length (iface_conns E s' i)"
proof -
  have same: "ifaces s' = ifaces s \<Longrightarrow> ?thesis"
    by (simp add: iface_conns_def)
  show ?thesis
  proof (cases a)
    case (Offer_new j own remote)
    then have "j \<in> dom (ifaces s)"
      using ok by (simp add: thread_ok_def)
    then obtain q c m' where "micro E m p (Offer_new j own remote) s =
        Some (Offer_link q, s\<lparr>heap := m', conns := (conns s)(q \<mapsto> c), cur_ctx := NULL\<rparr>)"
      by (rule offer_new_step [OF wf full]) blast
    with step Offer_new have "ifaces s' = ifaces s"
      by (simp del: micro.simps) auto
    then show ?thesis by (rule same)
  next
    case (Offer_link q)
    then obtain c where c: "conns s q = Some c" "pAssociatedIface c \<noteq> NULL" and new: "unlisted E s q"
      using ok by (auto simp: thread_ok_def on_iface_def)
    have "q \<notin> set (iface_conns E s (pAssociatedIface c))"
      using new by (simp add: unlisted_def)
    then obtain r' where "initiateNewConnection E q s =
        Some (True, s\<lparr>ifaces := (ifaces s)(pAssociatedIface c \<mapsto> r')\<rparr>)"
      and l: "opt_elems E (connectionList r') = q # iface_conns E s (pAssociatedIface c)"
      by (rule initiateNewConnection_wf [OF wf c]) blast
    with step Offer_link have "ifaces s' = (ifaces s)(pAssociatedIface c \<mapsto> r')"
      by auto
    with l show ?thesis
      by (simp add: iface_conns_def)
  next
    case (Drop_cut k)
    with ok show ?thesis by (simp add: thread_ok_def)
  qed (rule same, rule micro_ifaces [OF step], simp, simp, simp)+
qed

text \<open>An access of a call in progress, in a state whose lists are no longer than those of \<open>t\<close>.\<close>

lemma accesses_decrease:
  assumes wf: "mem_wf E s" and ok: "thread_ok E closer s m p a" and busy: "\<nexists>r. a = Done r"
    and step: "micro E m p a s = Some (a', s')"
    and grow: "\<And>i. length (iface_conns E s i) \<le> length (iface_conns E t i)"
  shows "accesses_left E t a' < accesses_left E t a"
proof (cases a)
  case (Accept_get i port k)
  then have "i \<in> dom (ifaces s)"
    using ok by (simp add: thread_ok_def)
  then obtain r where r: "ifaces s i = Some r" by auto
  obtain l where l: "connectionList r = Some l" "llist_ok E l" "iface_conns E s i = llist_elems E l"
    by (rule iface_list [OF wf r]) blast
  have "0 \<le> k \<and> nat k < length (iface_conns E t i)" if "a' = Accept_test i port k q" for q
    using step that r l grow [of i] unfolding Accept_get
    by (auto simp: mem_wf_get_iface [OF wf] llist_get_n_val [OF l(2)] nat_less_iff split: if_splits)
  with step Accept_get show ?thesis
    by (auto simp: nat_add_distrib split: if_splits Option.bind_splits prod.splits) 
next
  case Close_state
  then obtain c where "conns s p = Some c" "connState c = c_open"
    using ok by (auto simp: thread_ok_def)
  with step Close_state show ?thesis
    by (auto simp: mem_wf_get_conn [OF wf])
qed (use step ok busy in \<open>auto simp: thread_ok_def Let_def split: Option.bind_splits prod.splits if_splits\<close>)

section \<open>Runs in which a call goes on\<close>

text \<open>
  The process \<open>m\<close> makes \<open>n\<close> accesses of the call it is in, the other one any steps in between.
\<close>

inductive goes_on ::
  "('m, 'l, 'k) ext \<Rightarrow> (('m, 'l, 'k) st \<Rightarrow> mode \<Rightarrow> ptr \<Rightarrow> pc \<Rightarrow> bool) \<Rightarrow> mode \<Rightarrow> nat
    \<Rightarrow> ('m, 'l, 'k) race \<Rightarrow> ('m, 'l, 'k) race \<Rightarrow> bool"
  for E :: "('m, 'l, 'k) ext" and may :: "('m, 'l, 'k) st \<Rightarrow> mode \<Rightarrow> ptr \<Rightarrow> pc \<Rightarrow> bool" and m :: mode where
  rest: "goes_on E may m 0 x x"
| own_access: "goes_on E may m n x y \<Longrightarrow> rstep E may y z \<Longrightarrow> \<nexists>r. snd (at y m) = Done r \<Longrightarrow>
    at z m \<noteq> at y m \<Longrightarrow> goes_on E may m (Suc n) x z"
| other_step: "goes_on E may m n x y \<Longrightarrow> rstep E may y z \<Longrightarrow> at z m = at y m \<Longrightarrow> goes_on E may m n x z"

lemma race_okD:
  assumes "race_ok E closer x" and "at x m = (p, a)"
  shows "mem_wf E (mem x)" and "thread_ok E closer (mem x) m p a"
  using assms unfolding race_ok_def by (metis fst_conv snd_conv)+

lemma rstep_lists_grow:
  assumes "rstep E (one_closes E closer) x y" and ok: "race_ok E closer x" and full: "never_full E"
  shows "length (iface_conns E (mem x) i) \<le> length (iface_conns E (mem y) i)"
  using assms(1)
proof cases
  case (access m p a a' s')
  then show ?thesis
    using micro_lists_grow [OF race_okD [OF ok access(2)] full access(3)] by simp
qed simp

text \<open>A step that moves a busy process is an access of its call.\<close>

lemma own_step:
  assumes "rstep E may x y" and "at x m = (p, a)" and "\<nexists>r. a = Done r" and "at y m \<noteq> at x m"
  obtains a' where "micro E m p a (mem x) = Some (a', mem y)" and "at y m = (p, a')"
  using assms(1)
proof cases
  case (access m' q b b' s')
  with assms(2,4) have "m' = m"
    by (auto split: if_splits)
  with access assms(2) show thesis
    by (intro that [of b']) auto
next
  case (begin_call m' u r b q)
  with assms(2-4) show thesis
    by (cases "m' = m") auto
qed

lemma goes_on_left:
  assumes "goes_on E (one_closes E closer) m n x y" and "race_ok E closer x" and full: "never_full E"
  shows "race_ok E closer y \<and> (\<forall>t. (\<forall>i. length (iface_conns E (mem y) i) \<le> length (iface_conns E t i)) \<longrightarrow>
    n + accesses_left E t (snd (at y m)) \<le> accesses_left E t (snd (at x m)))"
  using assms(1,2)
proof (induction rule: goes_on.induct)
  case (rest x)
  then show ?case by simp
next
  case (own_access n x y z)
  then have y: "race_ok E closer y" by blast
  obtain p a where a: "at y m = (p, a)" by fastforce
  have busy: "\<nexists>r. a = Done r"
    using own_access.hyps(3) a by simp
  obtain a' where a': "micro E m p a (mem y) = Some (a', mem z)" "at z m = (p, a')"
    by (rule own_step [OF own_access.hyps(2) a busy own_access.hyps(4)])
  show ?case
  proof (intro conjI allI impI)
    show "race_ok E closer z"
      by (rule rstep_ok [OF own_access.hyps(2) y full])
    fix t
    assume t: "\<forall>i. length (iface_conns E (mem z) i) \<le> length (iface_conns E t i)"
    have le: "length (iface_conns E (mem y) i) \<le> length (iface_conns E t i)" for i
      using rstep_lists_grow [OF own_access.hyps(2) y full, of i] t le_trans by blast
    then have "n + accesses_left E t a \<le> accesses_left E t (snd (at x m))"
      using own_access.IH own_access.prems a by simp
    moreover have "accesses_left E t a' < accesses_left E t a"
      by (rule accesses_decrease [OF race_okD [OF y a] busy a'(1) le])
    ultimately show "Suc n + accesses_left E t (snd (at z m)) \<le> accesses_left E t (snd (at x m))"
      using a'(2) by simp
  qed
next
  case (other_step n x y z)
  then have y: "race_ok E closer y" by blast
  have "length (iface_conns E (mem y) i) \<le> length (iface_conns E (mem z) i)" for i
    by (rule rstep_lists_grow [OF other_step.hyps(2) y full])
  then show ?case
    using other_step rstep_ok [OF other_step.hyps(2) y full] by (metis le_trans)
qed

text \<open>A process that is not done can go on.\<close>

lemma own_access_possible:
  assumes ok: "race_ok E closer x" and full: "never_full E" and busy: "\<nexists>r. snd (at x m) = Done r"
  obtains y where "rstep E (one_closes E closer) x y" and "at y m \<noteq> at x m"
proof -
  obtain p a where a: "at x m = (p, a)" by fastforce
  note here = race_okD [OF ok a]
  obtain a' s' where step: "micro E m p a (mem x) = Some (a', s')"
    using micro_sound [OF here full] by auto
  have "accesses_left E (mem x) a' < accesses_left E (mem x) a"
    by (rule accesses_decrease [OF here _ step]) (use busy a in auto)
  then have "a' \<noteq> a" by auto
  then show thesis
    using a by (intro that [OF rstep.access [OF a step]]) simp
qed

text \<open>
  A call that has made \<open>n\<close> accesses has not used up its bound before it is done; until then it
  can make one more.
\<close>

lemma call_progress:
  assumes wf: "mem_wf E s" and full: "never_full E"
    and reach: "rreach E (one_closes E closer) (race_start E s) x"
    and run: "goes_on E (one_closes E closer) m n x y"
  shows "n \<le> accesses_left E (mem y) (snd (at x m))"
    and "(\<exists>r. snd (at y m) = Done r) \<or> n < accesses_left E (mem y) (snd (at x m))
      \<and> (\<exists>z. goes_on E (one_closes E closer) m (Suc n) x z)"
proof -
  have x: "race_ok E closer x"
    by (rule rreach_ok [OF reach race_start_ok [OF wf] full])
  have y: "race_ok E closer y"
    and n: "n + accesses_left E (mem y) (snd (at y m)) \<le> accesses_left E (mem y) (snd (at x m))"
    using goes_on_left [OF run x full] by auto
  then show "n \<le> accesses_left E (mem y) (snd (at x m))" by simp
  show "(\<exists>r. snd (at y m) = Done r) \<or> n < accesses_left E (mem y) (snd (at x m))
      \<and> (\<exists>z. goes_on E (one_closes E closer) m (Suc n) x z)"
  proof (cases "\<exists>r. snd (at y m) = Done r")
    case False
    obtain p a where a: "at y m = (p, a)" by fastforce
    have "accesses_left E (mem y) a \<noteq> 0"
      using accesses_left_zero [OF race_okD(2) [OF y a]] False a by auto
    moreover obtain z where "rstep E (one_closes E closer) y z" "at z m \<noteq> at y m"
      by (rule own_access_possible [OF y full False])
    ultimately show ?thesis
      using n a goes_on.own_access [OF run _ False] by auto
  qed blast
qed

end
