(* ===== verification/Refusal.thy ===== *)
theory Refusal
  imports PollReports
begin

text \<open>
  A \<open>poll\<close> that is refused: the entries before the one \<open>epoll_ctl\<close> rejects keep their listeners
  on the static epoll descriptor, and every later poll on one of them fails.
\<close>

section \<open>Registration that stops\<close>

lemma poll_add_append:
  "poll_add E epfd k (xs @ ys) s = do {
     (r, s1) \<leftarrow> poll_add E epfd k xs s;
     if r = -1 then Some (-1, s1) else poll_add E epfd (k + length xs) ys s1 }"
  by (induction xs arbitrary: k s) (auto split: Option.bind_splits prod.splits)

text \<open>The listeners that are registered are in use, and stay in the way.\<close>

lemma poll_table_in_use:
  assumes "known s ps"
  shows "l \<in> set (poll_table s k ps) \<Longrightarrow> fd_active (fds s ! lfd_fd l)"
    and "p \<in> set ps \<Longrightarrow> \<exists>l \<in> set (poll_table s k ps). lfd_active l \<and> num (fds s ! lfd_fd l) = poll_fd p"
  using assms
  by (induction ps arbitrary: k)
    (auto simp: poll_listener_def elim!: known_Cons dest: getFdByNumD(2,3))

lemma poll_registered:
  assumes i: "i < length (pollfds s)" and known: "known s ps" and p: "p \<in> set ps"
    and olds: "\<forall>l \<in> set olds. \<not> lfd_active l"
  obtains j where "getListenerForFd i (poll_fd p) (with_lfds i (poll_table s k ps @ olds) s) =
    (Some j, with_lfds i (poll_table s k ps @ olds) s)"
proof -
  let ?ls = "poll_table s k ps @ olds"
  let ?P = "\<lambda>l. lfd_active l \<and> num (fds s ! lfd_fd l) = poll_fd p"
  have "\<exists>l \<in> set ?ls. ?P l"
    using poll_table_in_use(2) [OF known p] by auto
  then obtain j where j: "first_slot ?P ?ls = Some j"
    using first_slot_None [of ?P ?ls] by (cases "first_slot ?P ?ls") auto
  have "?ls ! j \<in> set ?ls" "?P (?ls ! j)"
    using first_slotD [OF j] nth_mem by blast+
  then have "?ls ! j \<in> set (poll_table s k ps)"
    using olds by auto
  then have "fd_active (fds s ! lfd_fd (?ls ! j))"
    by (rule poll_table_in_use(1) [OF known])
  with j show thesis
    by (intro that [of j]) (simp add: getListenerForFd_def i)
qed

text \<open>
  An entry is refused if its number is unknown, if it is there twice, or if all listeners of the
  epoll descriptor are in use.
\<close>

definition refused :: "('m, 'l, 'k) st \<Rightarrow> pollfd list \<Rightarrow> pollfd \<Rightarrow> errno option" where
  "refused s ps p =
     (if getFdByNum (poll_fd p) s = None then Some EBADF
      else if poll_fd p \<in> poll_fd ` set ps then Some EEXIST
      else if length ps = MAX_FDS_LISTEN then Some ENOMEM
      else None)"

lemma poll_add_refused:
  assumes i: "getPollfdByNum epfd s = Some i" "i < length (pollfds s)"
    and len: "length (lfds (pollfds s ! i)) = MAX_FDS_LISTEN"
    and off: "\<forall>l \<in> set (lfds (pollfds s ! i)). \<not> lfd_active l"
    and good: "known s ps" "length ps \<le> MAX_FDS_LISTEN"
    and bad: "refused s ps p = Some e" "FD_START \<le> poll_fd p"
  shows "poll_add E epfd 0 (ps @ p # qs) s = fail e
    (with_lfds i (poll_table s 0 ps @ drop (length ps) (lfds (pollfds s ! i))) s)"
proof -
  let ?ls = "poll_table s 0 ps @ drop (length ps) (lfds (pollfds s ! i))"
  let ?s = "with_lfds i ?ls s"
  note sel = with_lfds_sel [OF i(2)]
  have olds: "\<forall>l \<in> set (drop (length ps) (lfds (pollfds s ! i))). \<not> lfd_active l"
    using off by (auto dest: in_set_dropD)
  have add: "poll_add E epfd 0 ps s = Some (0, ?s)"
    using poll_add_all [OF i(2,1) good(1), where before = "[]" and olds = "lfds (pollfds s ! i)" and k = 0 and E = E]
      off good(2) len by simp
  have gp: "getPollfdByNum epfd ?s = Some i"
    using i(1) by (simp add: sel(3))
  have "epoll_ctl E epfd EPOLL_CTL_ADD (poll_fd p) ev ?s = fail e ?s" for ev
  proof (cases "getFdByNum (poll_fd p) s")
    case None
    with bad gp show ?thesis by (simp add: refused_def epoll_ctl_def)
  next
    case (Some f)
    show ?thesis
    proof (cases "poll_fd p \<in> poll_fd ` set ps")
      case True
      then obtain q where "q \<in> set ps" "poll_fd q = poll_fd p" by force
      then obtain j where "getListenerForFd i (poll_fd p) ?s = (Some j, ?s)"
        using poll_registered [OF i(2) good(1) _ olds, of q 0] by metis
      with epoll_ctl_present(1) [OF gp bad(2) _ this] Some True bad(1) show ?thesis
        by (simp add: refused_def)
    next
      case False
      with Some bad(1) have full: "length ps = MAX_FDS_LISTEN" "e = ENOMEM"
        by (simp_all add: refused_def split: if_splits)
      then have ls: "lfds (pollfds ?s ! i) = poll_table s 0 ps"
        using len i(2) by simp
      have "getListenerForFd i (poll_fd p) ?s = (None, ?s)"
      proof (rule no_listener)
        show "\<forall>l \<in> set (lfds (pollfds ?s ! i)). \<not> listens ?s (poll_fd p) l"
          unfolding ls
          using poll_table_nums(2) [OF good(1), of _ 0] False by simp metis
      qed
      moreover have "\<forall>l \<in> set (lfds (pollfds ?s ! i)). lfd_active l"
        unfolding ls using poll_table_nums(1) [OF good(1)] by blast
      ultimately show ?thesis
        using epoll_ctl_full [OF gp bad(2)] Some full(2) by simp
    qed
  qed
  with add show ?thesis
    by (simp add: poll_add_append fail_def)
qed

text \<open>After that, a poll that begins with one of the registered entries fails, for good.\<close>

lemma poll_blocked:
  assumes i: "getPollfdByNum epfd s = Some i" "i < length (pollfds s)" and num: "poll_epollfd s = epfd" "epfd \<noteq> -1"
    and known: "known s ps" and p: "p \<in> set ps" and olds: "\<forall>l \<in> set olds. \<not> lfd_active l"
    and s': "s' = (with_lfds i (poll_table s 0 ps @ olds) s)\<lparr>errno := e\<rparr>"
    and q: "poll_fd q = poll_fd p"
  shows "poll rounds env E md (q # qs) timeout s' = Some (Some (-1, q # qs), s'\<lparr>errno := EEXIST\<rparr>)"
proof -
  let ?s = "with_lfds i (poll_table s 0 ps @ olds) s"
  obtain j where "getListenerForFd i (poll_fd p) ?s = (Some j, ?s)"
    by (rule poll_registered [OF i(2) known p olds])
  then have l: "getListenerForFd i (poll_fd p) s' = (Some j, s')"
    by (auto simp: s' getListenerForFd_def handleFdCloseInEvents_def split: option.splits if_splits)
  obtain f where f: "getFdByNum (poll_fd p) s = Some f" "FD_START \<le> poll_fd p"
    using known p by (auto simp: known_def)
  have fs: "getFdByNum (poll_fd p) s' = Some f"
    using f(1) by (simp add: s' getFdByNum_def)
  have gp: "getPollfdByNum epfd s' = Some i"
    using i with_lfds_sel(3) [OF i(2), of epfd] by (simp add: s' getPollfdByNum_def)
  have "poll_epollfd s' = epfd" using num by (simp add: s')
  with epoll_ctl_present(1) [OF gp f(2) fs l] num(2) show ?thesis
    by (simp add: poll_def poll_descriptor_def q fail_def)
qed

lemma poll_refusal:
  assumes d: "poll_descriptor s = Some (epfd, s1)" "own_ok s1"
    and idle: "poll_idle epfd i s1" and epfd: "epfd \<noteq> -1"
    and good: "known s ps" "length ps \<le> MAX_FDS_LISTEN"
    and bad: "refused s ps p = Some e" "FD_START \<le> poll_fd p"
  shows "\<exists>s'. poll rounds env E md (ps @ p # qs) timeout s = Some (Some (-1, ps @ p # qs), s'\<lparr>errno := e\<rparr>)
    \<and> (\<forall>q \<in> set ps. \<forall>x rounds env qs timeout.
         poll rounds env E md (q # qs) timeout (s'\<lparr>errno := x\<rparr>) =
           Some (Some (-1, q # qs), s'\<lparr>errno := EEXIST\<rparr>))"
proof -
  have i: "getPollfdByNum epfd s1 = Some i" "i < length (pollfds s1)" and num: "poll_epollfd s1 = epfd"
    and off: "\<forall>l \<in> set (lfds (pollfds s1 ! i)). \<not> lfd_active l"
    using idle getPollfdByNumD(1) by (auto simp: poll_idle_def)
  have fr: "fds s1 = fds s" using poll_descriptor_frame [OF d(1)] by simp
  then have g1: "known s1 ps" "refused s1 ps p = Some e"
    using good(1) bad(1) by (simp_all add: known_def refused_def getFdByNum_def)
  let ?olds = "drop (length ps) (lfds (pollfds s1 ! i))"
  let ?s = "with_lfds i (poll_table s1 0 ps @ ?olds) s1"
  have olds: "\<forall>l \<in> set ?olds. \<not> lfd_active l"
    using off by (auto dest: in_set_dropD)
  have "length (lfds (pollfds s1 ! i)) = MAX_FDS_LISTEN"
    using own_okD(6) [OF d(2)] i(2) by simp
  note add = poll_add_refused [OF i this off g1(1) good(2) g1(2) bad(2)]
  have "poll rounds env E md (ps @ p # qs) timeout s = Some (Some (-1, ps @ p # qs), ?s\<lparr>errno := e\<rparr>)"
    using d(1) epfd add by (simp add: poll_def fail_def)
  moreover have "poll rounds env E md (q # qs) timeout (?s\<lparr>errno := x\<rparr>) =
      Some (Some (-1, q # qs), ?s\<lparr>errno := EEXIST\<rparr>)" if "q \<in> set ps" for q x rounds env qs timeout
    using poll_blocked [OF i num epfd g1(1) that olds refl refl] by simp
  ultimately show ?thesis by (intro exI [of _ ?s]) blast
qed

end
