(* ===== verification/Spec2Isabelle.thy ===== *)
theory Spec2Isabelle
  imports Demo Setup Locking Races Progress Refusal
begin

text \<open>
  shmsock: the socket API over shared memory.

  The program is a library of about 2000 lines of C that is loaded in front of the C library.
  It replaces the calls of the socket and epoll API for descriptors from 700 on by ones that
  work on shared memory between two processes, one compiled as server (\<open>MODE_SERVER\<close>) and one
  as client.  It has these parts.

  \<^item> \<open>list.c\<close>: a wrapper that runs the operations of a linked-list library in the malloc
    context of the list.  Theory \<open>LList\<close>: record \<open>llist\<close>, one definition per operation, the
    contract \<open>list_object\<close>, interpreted on the wrapper.
  \<^item> \<open>util.c\<close>, interfaces: a shared region, announced through a file with its address.  Theory
    \<open>Interface\<close>: \<open>registerInterface\<close>, \<open>createSharedRegion\<close>, \<open>getAddressFromFile\<close> and the
    lookups; the formatting and scanning of \<open>%llu\<close> is written out.
  \<^item> \<open>util.c\<close>, connections: an object in the region with two lists of packets.  Theory
    \<open>Connection\<close> has the operations of its life, \<open>Channel\<close> has \<open>sendConnection\<close> and
    \<open>recvConnection\<close>.
  \<^item> \<open>socket.c\<close>: the table of descriptors and the calls of the socket API.  Theories \<open>Tables\<close>
    and \<open>Socket\<close>.
  \<^item> \<open>event.c\<close>: epoll descriptors with their listeners, \<open>epoll_ctl\<close>, \<open>epoll_pwait\<close>, \<open>poll\<close> and
    \<open>ppoll\<close>.  Theories \<open>Tables\<close> and \<open>Event\<close>.

  State.  The record \<open>st\<close> of theory \<open>State\<close> is what one call works on: the shared objects as maps
  from addresses (\<open>ifaces\<close>, \<open>conns\<close>, \<open>bufs\<close>) with the allocator's \<open>heap\<close>, the kernel and its
  files, and the static variables of the process.  A pointer is a natural number, \<open>NULL\<close> is 0;
  following a \<open>NULL\<close> or freed pointer, or leaving an array, makes a call undefined (\<open>None\<close>).
  The macros that swap the fields of the two sides (\<open>own_events\<close>, \<open>remote_events\<close>, ...) take
  the mode as their first argument.  \<open>errno\<close> is part of the state; a C function that returns -1
  does so in the model.

  Code outside the repository is the record \<open>ext\<close> of theory \<open>Extern\<close>: the linked lists and the
  allocator (git submodules, absent here) and the kernel.  What the program relies on is
  \<open>lib_ok\<close> (the laws of lists and of the allocator), \<open>never_full\<close> (an allocation succeeds; the
  code does not check it) and, for the registration, \<open>shm_ok\<close>.  \<open>ref_lib\<close> is an instance that
  meets them, used in every witness.

  Concurrency.  The sources define \<open>NOLOCK\<close>, so a process is taken to be single-threaded; and
  theory \<open>World\<close> takes each API call as one atomic step on the shared memory.  A blocking call sleeps
  between its rounds: \<open>wait_loop\<close> of theory \<open>Prelude\<close> runs them, with the rest of the system
  as the function \<open>env\<close> applied in each sleep, and fuel for the number of rounds; what is proved
  about blocking calls says how many rounds are enough.  Theory \<open>World\<close> puts two processes on one
  memory: \<open>wstep\<close> is one call of one of them (a blocking call one round), \<open>reachable\<close> any sequence
  of them, \<open>running\<close> such a sequence after the registration; its calls are the whole API.  But the
  source has no lock between the two processes.  Theory \<open>Steps\<close> therefore cuts what \<open>connect\<close>,
  \<open>accept\<close>, \<open>send\<close>, \<open>recv\<close>, \<open>close\<close> and the event check of \<open>epoll_pwait\<close> do to a connection into
  the single accesses to shared memory (\<open>micro\<close>); in \<open>Interleaving\<close>, \<open>rstep\<close> is one access of one
  process and \<open>rreach\<close> any interleaving.  The operations of the linked-list library and of the
  allocator stay atomic there: their code is not in the repository.
  Theory \<open>Locking\<close> has the lock
  macros of \<open>api-tools.h\<close> for a build without \<open>NOLOCK\<close>.

  Lemmas.  \<open>Memory\<close>: well-formed shared memory \<open>mem_wf\<close>.  \<open>Lifecycle\<close>: search, accept, close and
  remove as equations.  \<open>Delivery\<close>: a connection meets the contract \<open>packet_channel\<close>, and what
  follows from that contract.  \<open>Ownership\<close>: the invariant \<open>owned\<close> that counts the descriptors
  of each connection.  \<open>Calls\<close>, \<open>IoCalls\<close>, \<open>EventCalls\<close>: every call keeps it and is defined under
  stated conditions (\<open>outcome\<close>).  \<open>Streams\<close>: the effect of every call on the queues, and the
  histories of the bytes sent and received.  \<open>Protocol\<close>: the abstract life of a connection
  (\<open>astep\<close>) and the proof that every call is a step of it.  \<open>Boot\<close>: the registration of both
  processes leads to a world that satisfies \<open>booted\<close>.  \<open>Setup\<close>: the constructor that registers the
  interfaces named by the environment.  \<open>Behaviour\<close>: single calls as equations.  \<open>Establish\<close> and
  \<open>Handshake\<close>: how a connection comes about.  \<open>Readiness\<close> and \<open>Watching\<close>: what \<open>epoll_pwait\<close>
  reports and the life of a listener.  \<open>Polling\<close>, \<open>PollReports\<close> and \<open>Refusal\<close>: \<open>poll\<close> is defined,
  restores its epoll descriptor, what it reports, and what a refused one leaves behind.  \<open>Steps\<close>: the accesses of a call run alone are the
  call.  \<open>Interleaving\<close>: interleaved, each of them keeps what the other process relies on
  (\<open>thread_ok\<close>, \<open>spares\<close>), unless connections are removed.  \<open>Progress\<close>: each access brings its call
  closer to the end, whatever the other process does (\<open>goes_on\<close>, \<open>accesses_left\<close>).  \<open>Races\<close>:
  interleavings with results no order of whole calls has.  \<open>Demo\<close>: the scenarios of the
  witnesses, evaluated by the kernel.

  Bounds and fuel.  The tables have the sizes of the source (50 descriptors, 50 epoll
  descriptors with 20 listeners, 10 interfaces).  \<open>FOREACH_LIST\<close> gets the length of the list as
  fuel, which the loop uses up at its end at the latest.  \<open>epoll_pwait\<close> with a timeout of
  \<open>t\<close> ms needs at most \<open>10 * t + 2\<close> rounds.  An interleaved call makes at most \<open>accesses_left\<close>
  accesses: a constant between 2 and 6, and for the search of \<open>accept\<close> twice the length of the
  list plus 3.

  Not modelled: the debugging macros, the printing of lists, the spin-loop variant of
  \<open>SLEEP_LOCKED\<close>, the test programs and the Python tools, the submodules; \<open>setupSharedMemory\<close> and
  the table of regions of the enclave build come from a header that is not in the repository
  (\<open>setupIface2\<close> takes the table as an argument).
\<close>
section \<open>What holds in every run\<close>

text \<open>
  C1. The bytes one process has sent on a connection are exactly the bytes its peer has
  received followed by the bytes still queued for the peer, in every state any sequence of API
  calls of the two processes can reach: nothing is lost, duplicated, reordered or invented.
\<close>

theorem stream_integrity:
  assumes "booted E w0" and "run E w0 w S R" and "p \<in> dom (conns (w md))"
  shows "S (peer md) p = R md p @ concat (recv_queue E md p (w md))"
proof -
  have "conns (w md) = conns (w Server)"
    using running_ok(3) [of E w] shared_okD(3) run_reachable [OF assms(2)] assms(1)
    unfolding running_def by metis
  with run_streams [OF assms(2,1), of p md] assms(3) show ?thesis by simp
qed

theorem stream_integrity_witness:
  "\<exists>S R. run ref_lib (\<lambda>_. demo_start) (demo exchange) S R
     \<and> S Client 2 = [1, 2, 3] \<and> R Server 2 = [1, 2]
     \<and> S Client 2 = R Server 2 @ concat (recv_queue ref_lib Server 2 (demo exchange Server))"
proof -
  obtain S R where run: "run ref_lib (\<lambda>_. demo_start) (demo exchange) S R"
    and S: "\<forall>m. S m 2 = both (fst (snd (demo_run exchange))) m"
    and R: "\<forall>m. R m 2 = both (snd (snd (demo_run exchange))) m"
    using demo_is_run [of exchange] by blast
  have "2 \<in> dom (conns (demo exchange Server))"
    using exchange_facts(2) [of Server] by auto
  from stream_integrity [OF demo_booted run this] run S R show ?thesis
    by (intro exI [of _ S] exI [of _ R]) (simp add: exchange_bytes both_def)
qed

text \<open>
  C2. No API call in a running system follows a \<open>NULL\<close>, dangling or uninitialised pointer or
  goes out of an array, as long as the caller meets the obligations \<open>valid\<close> lists and the
  allocator does not run out: the call is defined, and the system it leaves is a running
  system again.
\<close>

theorem api_calls_defined:
  assumes "running E w" and "valid E c (w md)"
  shows "\<exists>r s'. exec E md c (w md) = Some (r, s') \<and> running E (commit md s' w)"
  using outcome_returns [OF exec_outcome [OF running_ok(1,2) [OF assms(1)]] assms(2), of md]
    running_step [OF assms(1)]
  by force

theorem api_calls_defined_witness:
  "\<exists>r s'. exec ref_lib Client (C_send 700 [4, 5] 2 0) (demo exchange Client) = Some (r, s')
     \<and> running ref_lib (commit Client s' (demo exchange))"
  by (rule api_calls_defined [OF demo_running])
    (simp add: ref_lib_never_full send_args_def size_to_int_def)

text \<open>
  C3. The descriptors that refer to a connection, counted over both processes, are as many as
  its state says: one while it is offered, two while it is open, one after the first close,
  none when it is freed.
\<close>

theorem descriptors_count:
  assumes "running E w" and "p \<noteq> NULL"
  shows "refs p (fds (w Server)) + refs p (fds (w Client)) = expected (conns (w md) p)"
  using ownedD(4) [OF running_ok(1) [OF assms(1), of md] assms(2)]
  by (cases md) simp_all

theorem descriptors_count_witness:
  "refs 2 (fds (demo exchange Server)) + refs 2 (fds (demo exchange Client)) = 2"
  using descriptors_count [OF demo_running, of 2 exchange Server] exchange_facts(2) [of Server]
  by (auto simp: expected_def split: option.splits)

text \<open>
  C4. A descriptor in use never dangles: without a connection it is a fresh or bound socket,
  otherwise the connection exists and is in a state that fits the descriptor's (an open
  descriptor, say, has an open or a half-closed connection).
\<close>

theorem descriptors_never_dangle:
  assumes "running E w" and "f \<in> set (fds (w md))" and "fd_active f"
  shows "if fstate f = s_created \<or> fstate f = s_bound then fd_pConn f = NULL
    else \<exists>c. conns (w md) (fd_pConn f) = Some c \<and> fits (fstate f) c"
  using ownedD(2) [OF running_ok(1) [OF assms(1)] assms(2)] assms(3) by (simp add: fd_ok_def)

theorem descriptors_never_dangle_witness:
  "\<exists>f \<in> set (fds (demo exchange Server)). fd_active f \<and> fstate f = s_open
     \<and> (\<exists>c. conns (demo exchange Server) (fd_pConn f) = Some c \<and> fits s_open c)"
proof -
  obtain i where i: "getFdByNum 701 (demo exchange Server) = Some i"
    "fstate (fds (demo exchange Server) ! i) = s_open"
    using exchange_facts(1) by (auto simp: conn_of_def split: option.splits if_splits)
  let ?f = "fds (demo exchange Server) ! i"
  have f: "?f \<in> set (fds (demo exchange Server))" "fd_active ?f"
    using getFdByNumD [OF i(1)] by simp_all
  from descriptors_never_dangle [OF demo_running f] f i(2) show ?thesis
    by (intro bexI [of _ ?f]) simp_all
qed

text \<open>
  C5. The packets of a connection are live blocks of its interface with all their bytes inside
  the block, and no packet is queued twice: not in one direction, not in both, not on two
  connections.
\<close>

theorem packets_sound:
  assumes "running E w" and "conns (w md) p = Some c" and "q \<in> set (conn_bufs E c)"
  shows "(pAssociatedIface c, q) \<in> live E (heap (w md))
    \<and> (\<exists>b. bufs (w md) q = Some b \<and> 0 \<le> offset b \<and> 0 \<le> datasize b
          \<and> offset b + datasize b = int (length (data_bytes b)))
    \<and> distinct (conn_bufs E c)
    \<and> (\<forall>p' c'. conns (w md) p' = Some c' \<longrightarrow> p' \<noteq> p \<longrightarrow> q \<notin> set (conn_bufs E c'))"
proof -
  note wf = running_ok(4) [OF assms(1), of md]
  have "entry_ok E (w md) (pAssociatedIface c) q"
    using conn_bufs_live [OF wf assms(2,3)] by simp
  then show ?thesis
    using mem_wf_conn(2) [OF wf assms(2)] mem_wf_disjoint [OF wf assms(2)] assms(3)
    by (auto simp: entry_ok_def)
qed

theorem packets_sound_witness:
  "\<exists>c q b. conns (demo exchange Server) 2 = Some c \<and> q \<in> set (conn_bufs ref_lib c)
     \<and> (pAssociatedIface c, q) \<in> live ref_lib (heap (demo exchange Server))
     \<and> bufs (demo exchange Server) q = Some b"
proof -
  obtain c where c: "conns (demo exchange Server) 2 = Some c" "connState c = c_open"
    using exchange_facts(2) [of Server] by auto
  then have i: "pAssociatedIface c \<noteq> NULL"
    using open_has_iface [OF running_ok(4) [OF demo_running]] by blast
  have "opt_elems ref_lib (recvBuffer Server c) \<noteq> []"
    using exchange_facts(3) c(1) by (auto simp: recv_queue_def)
  then obtain q where "q \<in> set (opt_elems ref_lib (recvBuffer Server c))"
    using hd_in_set by blast
  then have q: "q \<in> set (conn_bufs ref_lib c)"
    by (simp add: opt_elems_conn_bufs [OF i, where md = Server])
  from packets_sound [OF demo_running c(1) q] c(1) q show ?thesis by blast
qed

section \<open>Single accesses to the shared memory\<close>



text \<open>
  C7. The accesses of the two processes may interleave in any order, on any connections, offering
  and accepting new ones, as long as only one process closes and none removes a connection:
  every access is defined, the memory stays well formed, and the bytes put into a stream are the
  bytes taken from it followed by the bytes queued.  No lock is needed for that.
\<close>

theorem interleaved_streams:
  assumes "running E w" and "never_full E" and "rreach E (one_closes E closer) (race_start E (w md)) x"
  shows "mem_wf E (mem x) \<and> micro E m (fst (at x m)) (snd (at x m)) (mem x) \<noteq> None
    \<and> put_in x (peer m) p = taken x m p @ concat (recv_queue E m p (mem x))"
  using interleaved [OF running_ok(4) [OF assms(1)] assms(2,3)]
  by (simp add: surjective_pairing)

theorem interleaved_streams_witness:
  "\<exists>x. rreach ref_lib (one_closes ref_lib Client) (race_start ref_lib (demo handshake Server)) x
     \<and> at x Server = (2, Done End_of_stream) \<and> put_in x Client 2 = taken x Server 2 @ [7, 8]"
proof -
  obtain c where c: "conns (demo handshake Server) 2 = Some c" "connState c = c_open"
    using handshake_facts(2) [of Server] by auto
  obtain x where x: "rreach ref_lib (one_closes ref_lib Client) (race_start ref_lib (demo handshake Server)) x"
    "at x Server = (2, Done End_of_stream)" "recv_queue ref_lib Server 2 (mem x) = [[7, 8]]"
    using end_of_stream_race [OF running_ok(4) [OF demo_running] ref_lib_never_full c handshake_facts(3),
        of 2 "[7, 8]" 4] by auto
  from interleaved_streams [OF demo_running ref_lib_never_full x(1), of Server 2] x show ?thesis
    by auto
qed



text \<open>
  C9. The end of the stream can come too early.  \<open>recv\<close> looks at the queue first and at the state
  of the connection second; a peer that sends and closes in between makes it report the end of
  the stream with the last packet still in the queue, which no order of whole calls can
  (\<open>recv_without_data\<close>).
\<close>

theorem end_of_stream_too_early:
  assumes "running E w" and "never_full E" and "conns (w md) p = Some c" and "connState c = c_open"
    and "recv_queue E md p (w md) = []" and "0 \<le> len" and "len \<le> int (length bs)"
  shows "\<exists>x. rreach E (one_closes E (peer md)) (race_start E (w md)) x
    \<and> at x md = (p, Done End_of_stream) \<and> at x (peer md) = (p, Done Closed)
    \<and> recv_queue E md p (mem x) = [take (nat len) bs]"
  by (rule end_of_stream_race [where n = 0, OF running_ok(4) [OF assms(1)] assms(2-7)]) simp

theorem end_of_stream_too_early_witness:
  "\<exists>x. rreach ref_lib (one_closes ref_lib Client) (race_start ref_lib (demo handshake Server)) x
     \<and> at x Server = (2, Done End_of_stream) \<and> recv_queue ref_lib Server 2 (mem x) = [[7, 8]]"
proof -
  obtain c where c: "conns (demo handshake Server) 2 = Some c" "connState c = c_open"
    using handshake_facts(2) [of Server] by auto
  from end_of_stream_too_early [OF demo_running ref_lib_never_full c handshake_facts(3), of 2 "[7, 8]"]
  show ?thesis by auto
qed

text \<open>
  C10. Two processes that close one connection at the same time.  If both test its state before
  either marks it, neither removes it and it is leaked, as the source says.  But there is more:
  the mark is visible before the peer's event mask has been written, so the second close can
  remove the connection in between, and the first one then writes to freed memory.
\<close>

theorem concurrent_close:
  assumes "running E w" and "conns (w md) p = Some c" and "connState c = c_open"
  shows "(\<exists>x. rreach E (both_close E) (race_start E (w md)) x
      \<and> at x md = (p, Done Closed) \<and> at x (peer md) = (p, Done Closed) \<and> p \<in> dom (conns (mem x)))
    \<and> (\<exists>x. rreach E (both_close E) (race_start E (w md)) x
      \<and> at x md = (p, Close_load) \<and> at x (peer md) = (p, Done Closed)
      \<and> micro E md p Close_load (mem x) = None)"
  using close_race_leak [OF running_ok(4) [OF assms(1)] assms(2,3)]
    close_race_freed [OF running_ok(4) [OF assms(1)] assms(2,3)]
  by (rule conjI)

theorem concurrent_close_witness:
  "\<exists>x. rreach ref_lib (both_close ref_lib) (race_start ref_lib (demo handshake Server)) x
     \<and> at x Server = (2, Close_load) \<and> micro ref_lib Server 2 Close_load (mem x) = None"
proof -
  obtain c where c: "conns (demo handshake Server) 2 = Some c" "connState c = c_open"
    using handshake_facts(2) [of Server] by auto
  from concurrent_close [OF demo_running c] show ?thesis by auto
qed

text \<open>
  C11. A removal can hit another connection.  \<open>llist_remove\<close> looks for the connection entry by entry
  and then removes by index; a \<open>connect\<close> of the peer in between puts its connection first and
  moves the others.  The last close of the newest connection then takes the connection just
  offered out of the list, frees its own and leaves it there, and from then on every search for
  connections to accept on that interface, by \<open>accept\<close> or \<open>epoll_pwait\<close>, reads freed memory.
\<close>

theorem removal_hits_another:
  assumes "running E w" and "never_full E" and "conns (w md) p = Some c" and "connState c = c_close"
    and "pAssociatedIface c = i" and "i \<noteq> NULL" and "iface_conns E (w md) i = p # ys"
  shows "\<exists>x q. rreach E (both_close E) (race_start E (w md)) x
    \<and> at x md = (p, Done Closed) \<and> at x (peer md) = (p, Done (Offered q))
    \<and> conns (mem x) p = None \<and> iface_conns E (mem x) i = p # ys
    \<and> (\<forall>m port. searchNewConnectionOnIface E m i port (mem x) = None)"
  by (rule removal_race_newest [OF running_ok(4) [OF assms(1)] assms(2-7)])

theorem removal_hits_another_witness:
  "\<exists>x q. rreach ref_lib (both_close ref_lib) (race_start ref_lib (demo hangup Server)) x
     \<and> at x Server = (2, Done Closed) \<and> at x Client = (2, Done (Offered q))
     \<and> searchNewConnectionOnIface ref_lib Server 1 80 (mem x) = None"
proof -
  have "map_option (\<lambda>c. (connState c, pAssociatedIface c)) (conns (demo hangup Server) 2) = Some (c_close, 1)
    \<and> iface_conns ref_lib (demo hangup Server) 1 = [2]"
    by code_simp
  then obtain c where c: "conns (demo hangup Server) 2 = Some c" "connState c = c_close"
    "pAssociatedIface c = 1" "iface_conns ref_lib (demo hangup Server) 1 = [2]"
    by auto
  from removal_hits_another [OF demo_running ref_lib_never_full c(1-3) _ c(4)] show ?thesis
    by (simp del: One_nat_def) blast
qed

text \<open>
  C12. A hangup can get lost.  The check of an edge-triggered listener loads the event mask of the
  connection, clears the reported events and stores the mask back; a close of the peer in
  between sets \<open>EPOLLHUP\<close> in the mask that is overwritten.  The wait does not report it, and the
  mask does not keep it for the next one.
\<close>

theorem hangup_lost:
  assumes "running E w" and "conns (w md) p = Some c" and "connState c = c_open"
    and "IS_EVENT_SET (own_events md c) em" and "\<not> IS_EVENT_SET (own_events md c) EPOLLHUP"
  shows "\<exists>x r c'. rreach E (one_closes E (peer md)) (race_start E (w md)) x
    \<and> at x md = (p, Done (Reported (Some r))) \<and> at x (peer md) = (p, Done Closed)
    \<and> conns (mem x) p = Some c' \<and> connState c' = c_close
    \<and> \<not> IS_EVENT_SET r EPOLLHUP \<and> \<not> IS_EVENT_SET (own_events md c') EPOLLHUP"
  by (rule hangup_race [OF running_ok(4) [OF assms(1)] assms(2-5)])

theorem hangup_lost_witness:
  "\<exists>x r c'. rreach ref_lib (one_closes ref_lib Client)
       (race_start ref_lib (demo (watched 0x80000001) Server)) x
     \<and> at x Server = (2, Done (Reported (Some r))) \<and> conns (mem x) 2 = Some c' \<and> connState c' = c_close
     \<and> \<not> IS_EVENT_SET (own_events Server c') EPOLLHUP"
proof -
  obtain c where c: "conns (demo (watched 0x80000001) Server) 2 = Some c" "own_events Server c = 1"
    using edge_facts by (auto simp: get_conn_def split: option.splits if_splits)
  have "connState c = c_open"
    using edge_client c(1) by simp
  from hangup_lost [OF demo_running c(1) this, of "0x80000001"] c(2) show ?thesis
    by (auto simp: IS_EVENT_SET_def EPOLLHUP_def)
qed
section \<open>Data\<close>

text \<open>
  C13. A message cut into packets and sent over an idle connection arrives byte for byte and in
  order, however small the buffers of the receiver are, once it has received often enough; at
  the end nothing is left in the queue.
\<close>

theorem message_arrives:
  assumes "running E w" and "conn_of n (w md) = Some p" and "recv_queue E md p (w md) = []"
    and "put_all (chan_put E (peer md) p) bss (w md) = Some t"
    and "\<forall>k \<in> set ks. 0 < k" and "length bss + length (concat bss) \<le> length ks"
  shows "\<exists>t'. get_all (chan_get E md p) ks t = Some (concat bss, t') \<and> recv_queue E md p t' = []"
proof (rule chan.transfer [OF _ assms(3-6)])
  show "chan_inv E p (w md)"
    by (rule conn_of_obtain [OF running_ok(1) [OF assms(1)] assms(2)])
      (use running_ok(4) [OF assms(1)] in \<open>auto simp: chan_inv_def\<close>)
qed

theorem message_arrives_witness:
  "\<exists>t'. get_all (chan_get ref_lib Server 2) [1, 2, 2, 2, 2, 2]
       (the (put_all (chan_put ref_lib Client 2) [[1, 2, 3], [4]] (demo handshake Server))) =
     Some ([1, 2, 3, 4], t') \<and> recv_queue ref_lib Server 2 t' = []"
proof -
  have p: "conn_of 701 (demo handshake Server) = Some 2"
    using handshake_facts(1) by simp
  have "put_all (chan_put ref_lib Client 2) [[1, 2, 3], [4]] (demo handshake Server) \<noteq> None"
    by code_simp
  then obtain t where
    t: "put_all (chan_put ref_lib Client 2) [[1, 2, 3], [4]] (demo handshake Server) = Some t"
    by blast
  have "\<exists>t'. get_all (chan_get ref_lib Server 2) [1, 2, 2, 2, 2, 2] t =
      Some (concat [[1, 2, 3], [4]], t') \<and> recv_queue ref_lib Server 2 t' = []"
    by (rule message_arrives [OF demo_running p handshake_facts(3)]) (use t in simp_all)
  then show ?thesis by (simp add: t del: put_all.simps get_all.simps)
qed

text \<open>
  C14. \<open>send\<close> on a connected descriptor.  While the connection is open it returns the number of
  bytes, appends one packet with exactly these bytes to what the peer will read, tells the peer
  with \<open>EPOLLIN\<close>, and touches no other queue in the system.  Once the peer has closed it fails
  with \<open>ENOTCONN\<close>, queues nothing and marks the descriptor closed.
\<close>

theorem send_by_state:
  assumes "running E w" and "getFdByNum n (w md) = Some i" and "fstate (fds (w md) ! i) = s_open"
    and "fd_pConn (fds (w md) ! i) = p" and "conns (w md) p = Some c"
    and "connState c \<noteq> c_close \<longrightarrow> never_full E \<and> send_args buf len"
  shows "if connState c = c_close
    then send E md n buf len flags (w md) =
      Some (-1, (set_fd i (\<lambda>f. f\<lparr>fstate := s_close\<rparr>) (w md))\<lparr>errno := ENOTCONN\<rparr>)
    else \<exists>s' c'. send E md n buf len flags (w md) = Some (size_to_int len, s')
      \<and> recv_queue E (peer md) p s' =
          recv_queue E (peer md) p (w md) @ [take (nat (size_to_int len)) buf]
      \<and> recv_queue E md p s' = recv_queue E md p (w md)
      \<and> (\<forall>m q. q \<noteq> p \<longrightarrow> recv_queue E m q s' = recv_queue E m q (w md))
      \<and> conns s' = (conns (w md))(p \<mapsto> c') \<and> connState c' = c_open
      \<and> own_events (peer md) c' = own_events (peer md) c OR EPOLLIN"
proof (cases "connState c = c_close")
  case True
  with send_closed_call [OF running_ok(1) [OF assms(1)] assms(2,3)] assms(4,5) show ?thesis
    by simp
next
  case False
  have p: "conn_of n (w md) = Some p"
    using assms(2-4) by (simp add: conn_of_def)
  have "connState c = c_open"
    by (rule conn_of_obtain [OF running_ok(1) [OF assms(1)] p]) (use assms(5) False in auto)
  note s = send_open_call [OF running_ok(1,2) [OF assms(1)] p assms(5) this, where buf = buf and len = len and flags = flags]
  show ?thesis
    by (rule s) (use assms(6) False in auto)
qed

theorem send_by_state_witness:
  "(\<exists>s'. send ref_lib Client 700 [4, 5] 2 0 (demo exchange Client) = Some (2, s')
      \<and> recv_queue ref_lib Server 2 s' = recv_queue ref_lib Server 2 (demo exchange Client) @ [[4, 5]])
   \<and> (\<exists>i. send ref_lib Server 701 [4, 5] 2 0 (demo hangup Server) =
        Some (-1, (set_fd i (\<lambda>f. f\<lparr>fstate := s_close\<rparr>) (demo hangup Server))\<lparr>errno := ENOTCONN\<rparr>))"
proof -
  obtain i where i: "getFdByNum 700 (demo exchange Client) = Some i"
    "fstate (fds (demo exchange Client) ! i) = s_open" "fd_pConn (fds (demo exchange Client) ! i) = 2"
    using exchange_facts(1) by (auto simp: conn_of_def split: option.splits if_splits)
  obtain c where c: "conns (demo exchange Client) 2 = Some c" "connState c = c_open"
    using exchange_facts(2) [of Client] by auto
  obtain j where j: "getFdByNum 701 (demo hangup Server) = Some j"
    "fstate (fds (demo hangup Server) ! j) = s_open" "fd_pConn (fds (demo hangup Server) ! j) = 2"
    using hangup_facts(1) by (auto simp: conn_of_def split: option.splits if_splits)
  obtain d where d: "conns (demo hangup Server) 2 = Some d" "connState d = c_close"
    using hangup_facts(2) [of Server] by auto
  from send_by_state [OF demo_running i c(1), where buf = "[4, 5]" and len = 2 and flags = 0]
    send_by_state [OF demo_running j d(1), where buf = "[4, 5]" and len = 2 and flags = 0] c(2) d(2)
  show ?thesis by (auto simp: ref_lib_never_full send_args_def size_to_int_def)
qed

text \<open>
  C15. \<open>recv\<close> returns the first packet, or as much of it as the buffer holds; the rest of the
  packet stays at the head of the queue.  With data waiting it does so at once, in any mode; a
  blocking \<open>recv\<close> that finds nothing sleeps and looks again: when the data come during its k-th
  sleep, it returns them as soon as it has more than k rounds, whatever the environment does
  after that.
\<close>

theorem recv_delivers:
  assumes "getFdByNum n (w md) = Some i" and "fstate (fds (w md) ! i) = s_open"
    and "after_sleeps k env 0 (recv_round E md i len flags) (w md) = Some (v md)" and "k < rounds"
    and "running E v" and "getFdByNum n (v md) = Some i" and "fstate (fds (v md) ! i) = s_open"
    and "fd_pConn (fds (v md) ! i) = p" and "recv_queue E md p (v md) = x # xs"
    and "x \<noteq> []" and "0 < size_to_int len"
  shows "\<exists>s'. recv rounds env E md n len flags (w md) =
      Some (Some (int (length (take (nat (size_to_int len)) x)), take (nat (size_to_int len)) x), s')
    \<and> recv_queue E md p s' =
        (if int (length x) \<le> size_to_int len then xs else drop (nat (size_to_int len)) x # xs)"
proof -
  obtain s' where s': "recv_round E md i len flags (0 + k) (v md) = Some (Some (Inr
      (int (length (take (nat (size_to_int len)) x)), take (nat (size_to_int len)) x)), s')"
    "recv_queue E md p s' =
      (if int (length x) \<le> size_to_int len then xs else drop (nat (size_to_int len)) x # xs)"
    using recv_round_data [OF running_ok(1) [OF assms(5)] assms(6,7), where md = md and x = x and xs = xs]
      assms(8-11) by metis
  from wait_loop_returns_after [OF assms(3) s'(1) assms(4)] s'(2) assms(1,2) show ?thesis
    by (auto simp: recv_def)
qed

theorem recv_delivers_witness:
  "(\<exists>s'. recv 1 (\<lambda>_ t. t) ref_lib Server 701 8 0 (demo exchange Server) = Some (Some (1, [3]), s')
      \<and> recv_queue ref_lib Server 2 s' = [])
   \<and> (\<exists>s'. recv 2 (\<lambda>_ _. demo exchange Server) ref_lib Server 701 8 0 (demo handshake Server) =
        Some (Some (1, [3]), s') \<and> recv_queue ref_lib Server 2 s' = [])"
proof -
  obtain i where i: "getFdByNum 701 (demo handshake Server) = Some i"
    "fstate (fds (demo handshake Server) ! i) = s_open"
    "after_sleeps 1 (\<lambda>_ _. demo exchange Server) 0 (recv_round ref_lib Server i 8 0)
       (demo handshake Server) = Some (demo exchange Server)"
    and j: "getFdByNum 701 (demo exchange Server) = Some i"
    "fstate (fds (demo exchange Server) ! i) = s_open" "fd_pConn (fds (demo exchange Server) ! i) = 2"
    using blocked_facts by blast
  have "after_sleeps 0 (\<lambda>_ t. t) 0 (recv_round ref_lib Server i 8 0) (demo exchange Server) =
      Some (demo exchange Server)"
    by simp
  from recv_delivers [where w = "demo exchange" and v = "demo exchange" and md = Server and rounds = 1,
      OF j(1,2) this _ demo_running j exchange_facts(3)]
    recv_delivers [where w = "demo handshake" and v = "demo exchange" and md = Server and rounds = 2,
      OF i _ demo_running j exchange_facts(3)]
  show ?thesis by (simp add: size_to_int_def del: One_nat_def)
qed

text \<open>
  C16. \<open>recv\<close> with nothing to deliver.  On a connection the peer has closed it returns 0, the end of
  the stream, in every mode, and marks the descriptor, which rejects every further \<open>recv\<close>; on an
  open connection it fails at once with \<open>EAGAIN\<close> and no other effect when the descriptor or the
  call is non-blocking.  With data at the head of the queue it delivers them (\<open>recv_delivers\<close>), so
  a close does not cut the stream short.  But a packet without bytes, which \<open>send\<close> of 0 bytes
  queues, counts as nothing to deliver: the packets behind it are hidden, and lost for the
  caller once the peer has closed.
\<close>

theorem recv_without_data:
  assumes "running E w" and "getFdByNum n (w md) = Some i" and "fstate (fds (w md) ! i) = s_open"
    and "fd_pConn (fds (w md) ! i) = p" and "recv_queue E md p (w md) = q" and "q = [] \<or> hd q = []"
    and "conns (w md) p = Some c" and "q \<noteq> [] \<longrightarrow> 0 \<le> size_to_int len"
    and "connState c = c_close \<or> flagNonblock (fds (w md) ! i) \<noteq> 0 \<or> flags AND MSG_DONTWAIT \<noteq> 0"
    and "0 < rounds"
  shows "\<exists>t. recv_queue E md p t = tl q \<and> fds t = fds (w md) \<and> (q = [] \<longrightarrow> t = w md)
    \<and> (if connState c = c_close
       then let s' = set_fd i (\<lambda>f. f\<lparr>fstate := s_close\<rparr>) t
         in recv rounds env E md n len flags (w md) = Some (Some (0, []), s')
          \<and> recv rounds env E md n len flags s' = Some (Some (-1, []), s'\<lparr>errno := EBADF\<rparr>)
       else recv rounds env E md n len flags (w md) = Some (Some (-1, []), t\<lparr>errno := EAGAIN\<rparr>))"
proof -
  obtain t where t: "recv_round E md i len flags 0 (w md) = Some (
      if connState c = c_close then (Some (Inr (0, [])), handleCloseWhileIO i t)
      else if flagNonblock (fds (w md) ! i) \<noteq> 0 \<or> flags AND MSG_DONTWAIT \<noteq> 0 then (Some (Inl EAGAIN), t)
      else (None, t))"
    "recv_queue E md p t = tl q" "fds t = fds (w md)" "q = [] \<longrightarrow> t = w md"
    by (rule recv_round_no_data [OF running_ok(1) [OF assms(1)] assms(2-8), of flags 0]) blast
  have "getFdByNum n (handleCloseWhileIO i t) = Some i"
    "fstate (fds (handleCloseWhileIO i t) ! i) = s_close"
    using assms(2) getFdByNumD(1) [OF assms(2)] t(3)
    by (simp_all add: handleCloseWhileIO_def getFdByNum_def first_slot_update)
  with t assms(2,3,9,10) show ?thesis
    by (intro exI [of _ t]) (auto simp: recv_def gr0_conv_Suc handleCloseWhileIO_def Let_def)
qed

theorem recv_without_data_witness:
  "(\<exists>s'. recv 1 (\<lambda>_ t. t) ref_lib Server 701 8 0 (demo drained Server) = Some (Some (0, []), s'))
   \<and> recv 1 (\<lambda>_ t. t) ref_lib Server 701 8 0x40 (demo handshake Server) =
     Some (Some (-1, []), (demo handshake Server)\<lparr>errno := EAGAIN\<rparr>)
   \<and> (\<exists>s'. recv 1 (\<lambda>_ t. t) ref_lib Server 701 8 0 (demo empty_packet Server) = Some (Some (0, []), s')
     \<and> recv_queue ref_lib Server 2 s' = [[9]]
     \<and> recv 1 (\<lambda>_ t. t) ref_lib Server 701 8 0 s' = Some (Some (-1, []), s'\<lparr>errno := EBADF\<rparr>))"
proof -
  obtain i where i: "getFdByNum 701 (demo drained Server) = Some i"
    "fstate (fds (demo drained Server) ! i) = s_open" "fd_pConn (fds (demo drained Server) ! i) = 2"
    using drained_facts(1) by (auto simp: conn_of_def split: option.splits if_splits)
  obtain c where c: "conns (demo drained Server) 2 = Some c" "connState c = c_close"
    using drained_facts(2) [of Server] by auto
  obtain j where j: "getFdByNum 701 (demo handshake Server) = Some j"
    "fstate (fds (demo handshake Server) ! j) = s_open" "fd_pConn (fds (demo handshake Server) ! j) = 2"
    using handshake_facts(1) by (auto simp: conn_of_def split: option.splits if_splits)
  obtain d where d: "conns (demo handshake Server) 2 = Some d" "connState d = c_open"
    using handshake_facts(2) [of Server] by auto
  obtain k where k: "getFdByNum 701 (demo empty_packet Server) = Some k"
    "fstate (fds (demo empty_packet Server) ! k) = s_open" "fd_pConn (fds (demo empty_packet Server) ! k) = 2"
    using empty_packet_facts(1) by (auto simp: conn_of_def split: option.splits if_splits)
  obtain e where e: "conns (demo empty_packet Server) 2 = Some e" "connState e = c_close"
    using empty_packet_facts(2) [of Server] by auto
  note use_it = recv_without_data [OF demo_running, where rounds = 1 and env = "\<lambda>_ t. t" and len = 8]
  have "\<exists>s'. recv 1 (\<lambda>_ t. t) ref_lib Server 701 8 0 (demo empty_packet Server) = Some (Some (0, []), s')
     \<and> recv_queue ref_lib Server 2 s' = [[9]]
     \<and> recv 1 (\<lambda>_ t. t) ref_lib Server 701 8 0 s' = Some (Some (-1, []), s'\<lparr>errno := EBADF\<rparr>)"
    using use_it [OF k empty_packet_facts(3) _ e(1), where flags = 0] e(2) getFdByNumD(1) [OF k(1)]
    by (auto simp: size_to_int_def Let_def handleCloseWhileIO_queue [unfolded handleCloseWhileIO_def]
        simp del: One_nat_def)
  with use_it [OF i drained_facts(3) _ c(1), where flags = 0]
    use_it [OF j handshake_facts(3) _ d(1), where flags = "0x40"] c(2) d(2)
  show ?thesis by (auto simp: MSG_DONTWAIT_def Let_def simp del: One_nat_def)
qed

section \<open>The life of a connection\<close>

text \<open>
  C17. Refinement of the connection protocol: seen as a state and the packets on the way to each
  end, the connections of a running system form a network the abstract protocol can reach from
  the empty one, and every API call of a process is one step of the protocol \<open>astep\<close> (offer,
  listen, accept, withdraw, send, receive, hang up, free) on at most one connection, or none.
  What holds in the protocol holds in the system, for instance that nothing is queued on a
  connection before it is accepted, so that every stream starts empty.
\<close>

theorem calls_refine_protocol:
  assumes "running E w" and "exec E md c (w md) = Some (r, s')"
  shows "areach (aview E (w md))
    \<and> (\<exists>p. (\<forall>q. q \<noteq> p \<longrightarrow> aview E s' q = aview E (w md) q)
         \<and> astep md (aview E (w md) p) (aview E s' p))
    \<and> (\<forall>p xs. aview E (w md) p = Some (c_create, xs) \<longrightarrow> xs = (\<lambda>_. []))"
proof -
  have a: "areach (aview E (w md))"
    using assms(1) reachable_areach unfolding running_def by blast
  then show ?thesis
    using running_protocol [OF assms] areach_offered [OF a] by (auto simp: protocol_step_def)
qed

theorem calls_refine_protocol_witness:
  "\<exists>r s' p. exec ref_lib Client (C_close 700) (demo exchange Client) = Some (r, s')
     \<and> areach (aview ref_lib (demo exchange Client))
     \<and> astep Client (aview ref_lib (demo exchange Client) p) (aview ref_lib s' p)"
proof -
  have "exec ref_lib Client (C_close 700) (demo exchange Client) \<noteq> None"
    by code_simp
  then obtain r s' where ex: "exec ref_lib Client (C_close 700) (demo exchange Client) = Some (r, s')"
    by auto
  from calls_refine_protocol [OF demo_running ex] ex show ?thesis by blast
qed



text \<open>
  C19. \<open>close\<close> by the state of the connection; the descriptor is given back in any case.  The first
  \<open>close\<close> of an open connection marks it, reports \<open>EPOLLHUP\<close> to the peer and leaves every packet
  in flight where it is.  The last one, or one before the peer has accepted, frees the
  connection exactly once, with no descriptor of either process left that refers to it: no
  double free and no use after free; its unread packets are not freed.  Closing a listener only
  marks its connection, which then stays allocated with no descriptor left to free it.
\<close>

theorem close_by_state:
  assumes "running E w" and "FD_START \<le> n" and "n < POLLFD_START"
    and "getFdByNum n (w md) = Some i" and "p = fd_pConn (fds (w md) ! i)"
    and "conns (w md) p = Some c"
  shows "\<exists>s'. close E md n (w md) = Some (0, s') \<and> getFdByNum n s' = None
    \<and> (if connState c = c_close \<or> connState c = c_create
       then conns s' = (conns (w md))(p := None) \<and> bufs s' = bufs (w md)
         \<and> (pAssociatedIface c, p) \<in> live E (heap (w md))
         \<and> live E (heap s') = live E (heap (w md)) - {(pAssociatedIface c, p)}
       else \<exists>c'. conns s' = (conns (w md))(p \<mapsto> c') \<and> connState c' = c_close
         \<and> own_events (peer md) c' = own_events (peer md) c OR EPOLLHUP
         \<and> (\<forall>m q. recv_queue E m q s' = recv_queue E m q (w md)) \<and> heap s' = heap (w md))
    \<and> (connState c \<noteq> c_open \<longrightarrow> refs p (fds s') = 0 \<and> refs p (fds (w (peer md))) = 0)"
proof (cases "connState c = c_close \<or> connState c = c_create")
  case True
  obtain s' where "close E md n (w md) = Some (0, s')" "conns s' = (conns (w md))(p := None)"
    "(pAssociatedIface c, p) \<in> live E (heap (w md))"
    "live E (heap s') = live E (heap (w md)) - {(pAssociatedIface c, p)}" "bufs s' = bufs (w md)"
    "refs p (fds s') = 0" "refs p (fds (w (peer md))) = 0" "getFdByNum n s' = None"
    by (rule close_last [OF running_ok(1,2) [OF assms(1)] assms(2-6) True, of md]) blast
  with True show ?thesis by simp
next
  case False
  then have st: "connState c \<in> {c_open, c_listen}"
    by (cases "connState c") simp_all
  obtain s' c' where "close E md n (w md) = Some (0, s')" "getFdByNum n s' = None"
    "conns s' = (conns (w md))(p \<mapsto> c')" "connState c' = c_close"
    "own_events (peer md) c' = own_events (peer md) c OR EPOLLHUP"
    "\<forall>m q. recv_queue E m q s' = recv_queue E m q (w md)" "heap s' = heap (w md)"
    "connState c = c_listen \<Longrightarrow> refs p (fds s') = 0 \<and> refs p (fds (w (peer md))) = 0"
    by (rule close_mark_call [OF running_ok(1,2) [OF assms(1)] assms(2-6) st, of md]) blast
  with False st show ?thesis by auto
qed

theorem close_by_state_witness:
  "(\<exists>s' c'. close ref_lib Client 700 (demo exchange Client) = Some (0, s')
     \<and> conns s' 2 = Some c' \<and> connState c' = c_close \<and> recv_queue ref_lib Server 2 s' =
         recv_queue ref_lib Server 2 (demo exchange Client))
   \<and> (\<exists>s'. close ref_lib Server 701 (demo hangup Server) = Some (0, s') \<and> conns s' 2 = None
     \<and> refs 2 (fds (demo hangup Client)) = 0)"
proof -
  obtain j where j: "getFdByNum 700 (demo exchange Client) = Some j" "2 = fd_pConn (fds (demo exchange Client) ! j)"
    using exchange_facts(1) by (auto simp: conn_of_def split: option.splits if_splits)
  obtain d where d: "conns (demo exchange Client) 2 = Some d" "connState d = c_open"
    using exchange_facts(2) [of Client] by auto
  obtain i where i: "getFdByNum 701 (demo hangup Server) = Some i"
    "2 = fd_pConn (fds (demo hangup Server) ! i)"
    using hangup_facts(1) by (auto simp: conn_of_def split: option.splits if_splits)
  obtain c where c: "conns (demo hangup Server) 2 = Some c" "connState c = c_close"
    using hangup_facts(2) [of Server] by auto
  have n: "FD_START \<le> 700" "(700::int) < POLLFD_START" "FD_START \<le> 701" "(701::int) < POLLFD_START"
    by (simp_all add: limit_defs)
  from close_by_state [OF demo_running n(1,2) j d(1)] close_by_state [OF demo_running n(3,4) i c(1)] c(2) d(2)
  show ?thesis by auto
qed

section \<open>Establishing a connection\<close>

text \<open>
  C20. The three steps of a connection, each a call of one process: a non-blocking \<open>connect\<close>
  offers a new connection and returns with \<open>EINPROGRESS\<close>; \<open>accept\<close> on a listener of the peer at
  that address and port (or at any address) takes exactly this connection, on a new descriptor
  and with the port of the connecting side as peer port; and the next \<open>connectEx\<close> returns 0.
  Then both descriptors name the same open, empty connection.
\<close>

theorem handshake_establishes:
  assumes "running E w" and "never_full E"
    and "getFdByNum n (w md) = Some i" and "fstate (fds (w md) ! i) = s_created"
    and "flagNonblock (fds (w md) ! i) \<noteq> 0"
    and "getInterfaceBySockaddr md (SOCKADDR a) (w md) = Some pI" and "pI \<noteq> NULL"
    and "pI \<in> set (interfaces (w (peer md)))"
    and "getFdByNum k (w (peer md)) = Some j" and "fds (w (peer md)) ! j = f"
    and "fstate f = s_listen" and "listenPort f = PORT a"
    and "listenAddress f = 0 \<or> listenAddress f = SOCKADDR a"
    and "next_waiting E (peer md) f (w (peer md)) = NULL"
    and "\<exists>g \<in> set (fds (w (peer md))). \<not> fd_active g"
  shows "\<exists>s1 t1 s2 p b'.
      connect (Suc 0) (\<lambda>_ t. t) E md n (Some a) (w md) = Some (Some (-1), s1)
    \<and> errno s1 = EINPROGRESS \<and> conns (w md) p = None
    \<and> accept4 (Suc 0) (\<lambda>_ t. t) E (peer md) k (Some b) flags (share s1 (w (peer md))) =
        Some (Some (currentMaxFd (w (peer md)), Some b'), t1)
    \<and> sin_port b' = TO_PORT (randomPort (w md))
    \<and> connectEx (Suc 0) (\<lambda>_ t. t) E md n None (share t1 s1) = Some (Some 0, s2)
    \<and> conn_of (currentMaxFd (w (peer md))) t1 = Some p \<and> conn_of n s2 = Some p
    \<and> map_option connState (conns s2 p) = Some c_open \<and> (\<forall>m. recv_queue E m p s2 = [])"
  by (rule handshake_steps [OF assms, of b flags]) blast

theorem handshake_establishes_witness:
  "\<exists>s1 t1 s2 p b'.
      connect (Suc 0) (\<lambda>_ t. t) ref_lib Client 700 (sa 80 1) (demo prepared Client) =
        Some (Some (-1), s1)
    \<and> accept4 (Suc 0) (\<lambda>_ t. t) ref_lib Server 700 (sa 0 0) 0 (share s1 (demo prepared Server)) =
        Some (Some (701, Some b'), t1)
    \<and> connectEx (Suc 0) (\<lambda>_ t. t) ref_lib Client 700 None (share t1 s1) = Some (Some 0, s2)
    \<and> conn_of 701 t1 = Some p \<and> conn_of 700 s2 = Some p"
proof -
  let ?a = "\<lparr>sin_family = 2, sin_port = 80, sin_addr = 1\<rparr>"
    and ?b = "\<lparr>sin_family = 2, sin_port = 0, sin_addr = 0\<rparr>"
  note f = prepared_facts
  have a: "SOCKADDR ?a = 1" "PORT ?a = 80"
    by (simp_all add: SOCKADDR_def PORT_def)
  have "length (interfaces (demo prepared Server)) \<noteq> 0"
    by code_simp
  then have "interfaces (demo prepared Server) ! 0 \<in> set (interfaces (demo prepared Server))"
    by simp
  then have "1 \<in> set (interfaces (demo prepared Server))"
    using f by simp
  with handshake_establishes [OF demo_running [of prepared] ref_lib_never_full, where md = Client
      and n = 700 and i = 0 and a = ?a and pI = 1 and k = 700 and j = 0 and b = ?b and flags = 0] f
  show ?thesis
    by (auto simp: a sa_def)
qed





text \<open>
  C23. The answer of \<open>connectEx\<close> on a descriptor that is connecting follows from the state of the
  connection in the first round that does not sleep: 0 and an open descriptor once the peer has
  accepted, \<open>ECONNREFUSED\<close> once it is closed, \<open>EINPROGRESS\<close> while it is offered and the
  descriptor is non-blocking.
\<close>

theorem connect_progress:
  assumes "getFdByNum n (w md) = Some i" and "fstate (fds (w md) ! i) = s_connecting"
    and "after_sleeps k env 0 (connect_round i) (w md) = Some (v md)" and "k < rounds"
    and "running E v" and "getFdByNum n (v md) = Some i" and "fstate (fds (v md) ! i) = s_connecting"
    and "conns (v md) (fd_pConn (fds (v md) ! i)) = Some c"
    and "connState c = c_create \<longrightarrow> flagNonblock (fds (v md) ! i) \<noteq> 0"
  shows "connectEx rounds env E md n addr (w md) = (case connState c of
      c_open \<Rightarrow> Some (Some 0, set_fd i (\<lambda>f. f\<lparr>fstate := s_open\<rparr>) (v md))
    | c_close \<Rightarrow> Some (Some (-1), (v md)\<lparr>errno := ECONNREFUSED\<rparr>)
    | _ \<Rightarrow> Some (Some (-1), (v md)\<lparr>errno := EINPROGRESS\<rparr>))"
proof -
  have "fits s_connecting c"
    using fd_conn [OF running_ok(1) [OF assms(5)] assms(6)] assms(7,8) by force
  then have st: "connState c \<noteq> c_listen"
    using mem_wf_conn(1) [OF running_ok(4) [OF assms(5)] assms(8)]
    by (auto simp: conn_ok_def)
  with connect_round_eq [OF running_ok(4) [OF assms(5)] assms(8), of 0] assms(9)
  obtain x where "connect_round i 0 (v md) = Some (Some x, v md)"
    by (cases "connState c") auto
  from connectEx_after [OF assms(1-4,6,7) this]
  have "connectEx rounds env E md n addr (w md) = connectEx 1 env E md n addr (v md)" .
  with connectEx_waiting [OF running_ok(1) [OF assms(5)] assms(6-8), where r = 0 and env = env and addr = addr]
    assms(9) st
  show ?thesis by (simp split: connectionState.splits)
qed

theorem connect_progress_witness:
  "connectEx 1 (\<lambda>_ t. t) ref_lib Client 700 None (demo offered Client) =
     Some (Some (-1), (demo offered Client)\<lparr>errno := EINPROGRESS\<rparr>)"
proof -
  note f = offered_facts
  have "fd_pConn (fds (demo offered Client) ! 0) = 2
    \<and> map_option connState (conns (demo offered Client) 2) = Some c_create"
    using offered_conn by simp
  then obtain c where c: "conns (demo offered Client) (fd_pConn (fds (demo offered Client) ! 0)) = Some c"
    "connState c = c_create"
    by auto
  have i: "getFdByNum 700 (demo offered Client) = Some 0" "fstate (fds (demo offered Client) ! 0) = s_connecting"
    using f by simp_all
  show ?thesis
    using connect_progress [where w = "demo offered" and v = "demo offered" and md = Client and k = 0
        and rounds = 1 and env = "\<lambda>_ t. t" and addr = None, OF i _ _ demo_running i c(1)] f c(2)
    by simp
qed

text \<open>
  C24. The two ends of an open connection name each other: the address and port \<open>getsockname\<close>
  stores at one end are the ones \<open>getpeername\<close> stores at the other.
\<close>

theorem names_mirror:
  assumes "running E w" and "conn_of n (w md) = Some p" and "conn_of m (w (peer md)) = Some p"
    and "conns (w md) p = Some c" and "connState c = c_open"
  shows "\<exists>a' b'. getsockname md n (Some a) (w md) = Some (0, Some a', w md)
    \<and> getpeername (peer md) m (Some b) (w (peer md)) = Some (0, Some b', w (peer md))
    \<and> sin_port a' = sin_port b' \<and> sin_addr a' = sin_addr b'"
proof -
  have sh: "conns (w (peer md)) p = Some c" "ifaces (w (peer md)) = ifaces (w md)"
    using assms(4) shared_okD(2,3) [OF running_ok(3) [OF assms(1)], of "peer md" md] by simp_all
  obtain i where i: "getFdByNum n (w md) = Some i" "fstate (fds (w md) ! i) = s_open"
    "fd_pConn (fds (w md) ! i) = p"
    by (rule conn_of_obtain [OF running_ok(1) [OF assms(1)] assms(2)])
  obtain j where j: "getFdByNum m (w (peer md)) = Some j" "fd_pConn (fds (w (peer md)) ! j) = p"
    by (rule conn_of_obtain [OF running_ok(1) [OF assms(1)] assms(3)])
  obtain x where x: "ifaces (w md) (pAssociatedIface c) = Some x"
    "getsockname md n (Some a) (w md) = Some (0, Some (a\<lparr>sin_port := TO_PORT (own_port md c),
      sin_addr := TO_SOCKADDR (own_address md x)\<rparr>), w md)"
    using getsockname_open [OF running_ok(1) [OF assms(1)] i(1), unfolded i(2,3), OF _ assms(4,5),
        where md = md and a = a]
    by auto
  obtain y where y: "ifaces (w (peer md)) (pAssociatedIface c) = Some y"
    "getpeername (peer md) m (Some b) (w (peer md)) = Some (0, Some (b\<lparr>sin_family := ucast AF_INET,
      sin_port := TO_PORT (remote_port (peer md) c),
      sin_addr := TO_SOCKADDR (remote_address (peer md) y)\<rparr>), w (peer md))"
    using getpeername_open [OF running_ok(1) [OF assms(1)] j(1), unfolded j(2), OF sh(1) assms(5),
        where md = "peer md" and a = b]
    by auto
  from x y sh(2) show ?thesis by simp
qed

theorem names_mirror_witness:
  "\<exists>a' b'. getsockname Server 701 (sa 0 0) (demo exchange Server) = Some (0, Some a', demo exchange Server)
     \<and> getpeername Client 700 (sa 0 0) (demo exchange Client) = Some (0, Some b', demo exchange Client)
     \<and> sin_port a' = sin_port b' \<and> sin_addr a' = sin_addr b'"
proof -
  obtain c where c: "conns (demo exchange Server) 2 = Some c" "connState c = c_open"
    using exchange_facts(2) [of Server] by auto
  have p: "conn_of 701 (demo exchange Server) = Some 2" "conn_of 700 (demo exchange (peer Server)) = Some 2"
    using exchange_facts(1) by simp_all
  from names_mirror [OF demo_running p c] show ?thesis by (simp add: sa_def)
qed

text \<open>
  C25. A socket that is bound and then listens has the name it was bound to: what \<open>getsockname\<close>
  stores is, bit for bit, the port and address given to \<open>bind\<close>.
\<close>

theorem listener_keeps_name:
  assumes "running E w" and "never_full E" and "getFdByNum n (w md) = Some i"
    and "fstate (fds (w md) ! i) = s_created"
  shows "\<exists>s1 s2. bind n (Some a) (w md) = Some (0, s1) \<and> listen E md n backlog s1 = Some (0, s2)
    \<and> getsockname md n (Some b) s2 =
        Some (0, Some (b\<lparr>sin_port := sin_port a, sin_addr := sin_addr a\<rparr>), s2)"
  by (rule bind_listen_name [OF running_ok(1,2) [OF assms(1)] assms(2-4)]) blast

theorem listener_keeps_name_witness:
  "\<exists>s1 s2. bind 700 (sa 65535 4294967295) (demo prepared Client) = Some (0, s1)
     \<and> listen ref_lib Client 700 5 s1 = Some (0, s2)
     \<and> getsockname Client 700 (sa 0 0) s2 = Some (0, sa 65535 4294967295, s2)"
  using listener_keeps_name [OF demo_running [of prepared] ref_lib_never_full, where md = Client
      and n = 700 and i = 0 and a = "\<lparr>sin_family = 2, sin_port = 65535, sin_addr = 4294967295\<rparr>"
      and b = "\<lparr>sin_family = 2, sin_port = 0, sin_addr = 0\<rparr>" and backlog = 5] prepared_facts
  by (auto simp: sa_def)

section \<open>Waiting for events\<close>

text \<open>
  C26. A wait on level-triggered listeners of connected sockets reports, once it does not sleep any
  more, exactly the listeners with a requested event: \<open>EPOLLIN\<close> while there are packets to read,
  \<open>EPOLLOUT\<close> always, \<open>EPOLLHUP\<close> after the peer has closed; in the order of the slots, at most
  \<open>maxevents\<close>.  Reporting them consumes nothing: the next wait reports the same.
\<close>

theorem epoll_level_exact:
  assumes "getPollfdByNum epfd (w md) = Some i"
    and "after_sleeps d env 0 (epoll_round E md i maxevents timeout) (w md) = Some (v md)"
    and "d < rounds" and "running E v" and "i < length (pollfds (v md))" and "level_watch i (v md)"
    and "\<not> isMixed (pollfds (v md) ! i)" and "level_reports E md i (v md) \<noteq> []" and "0 < maxevents"
  shows "\<exists>evs s'. evs = take (nat maxevents) (level_reports E md i (v md))
    \<and> epoll_pwait rounds env E md epfd maxevents timeout (w md) = Some (Some (int (length evs), evs), s')
    \<and> level_reports E md i s' = level_reports E md i (v md)
    \<and> (\<forall>m p. recv_queue E m p s' = recv_queue E m p (v md))"
  by (rule epoll_pwait_level [OF assms(1-3) running_ok(1,2) [OF assms(4)] assms(5-9)]) blast

theorem epoll_level_exact_witness:
  "\<exists>s'. epoll_pwait 1 (\<lambda>_ t. t) ref_lib Server 900 3 0 (demo (watched 5) Server) =
     Some (Some (1, [\<lparr>ev_events = 5, ev_data = 7\<rparr>]), s')"
  using epoll_level_exact [OF _ _ _ demo_running [of "watched 5"], of 900 "demo (watched 5)" Server 0 0
      "\<lambda>_ t. t" 3 0 1] level_facts
  by auto

text \<open>A send of the peer raises \<open>EPOLLIN\<close> for an edge-triggered listener, and nothing else.\<close>

lemma send_raises_edge:
  assumes run: "running E v" and i: "getPollfdByNum epfd (v md) = Some i"
    and l: "edge_listener i j em p (v md)" and n: "conn_of n (v (peer md)) = Some p"
    and c: "conns (v (peer md)) p = Some c" "connState c = c_open"
    and quiet: "own_events md c AND em = 0" and em: "EPOLLIN AND em \<noteq> 0"
    and io: "never_full E" "send_args buf len" "0 < maxevents"
  obtains t s2 where "send E (peer md) n buf len flags (v (peer md)) = Some (size_to_int len, t)"
    and "epoll_pwait (Suc r) env E md epfd maxevents timeout (share t (v md)) =
      Some (Some (1, [\<lparr>ev_events = EPOLLIN AND em,
        ev_data = ev_data (lfd_event (lfd_at (v md) i j))\<rparr>]), s2)"
proof -
  obtain t c' where t: "send E (peer md) n buf len flags (v (peer md)) = Some (size_to_int len, t)"
    "conns t = (conns (v (peer md)))(p \<mapsto> c')" "own_events md c' = own_events md c OR EPOLLIN"
    by (rule send_open_call [where md = "peer md" and flags = flags,
          OF running_ok(1,2) [OF run] n c io(1,2)]) (simp add: events.peer_own)
  let ?s = "share t (v md)"
  have s: "fds ?s = fds (v md)" "pollfds ?s = pollfds (v md)" "getPollfdByNum epfd ?s = Some i"
    using i by (simp_all add: share_def getPollfdByNum_def)
  have l': "edge_listener i j em p ?s"
    using l edge_listener_cong [OF s(1,2)] by simp
  have "p \<noteq> NULL"
    by (rule mem_wf_conn(3) [OF running_ok(4) [OF run] c(1)])
  then have g: "get_conn p ?s = Some c'"
    by (simp add: get_conn_def share_def t(2))
  have ev: "own_events md c' AND em = EPOLLIN AND em"
    using quiet by (simp add: t(3) bit.conj_disj_distrib2)
  with em have "own_events md c' AND em \<noteq> 0" by simp
  from epoll_pwait_edge [OF s(3) l' g this io(3), where r = r and env = env and E = E and timeout = timeout]
  obtain s2 where "epoll_pwait (Suc r) env E md epfd maxevents timeout ?s =
      Some (Some (1, [\<lparr>ev_events = EPOLLIN AND em,
        ev_data = ev_data (lfd_event (lfd_at (v md) i j))\<rparr>]), s2)"
    unfolding ev s(2) by blast
  with t(1) show thesis by (rule that)
qed

text \<open>
  C27. One edge-triggered listener of a connected socket.  A wait reports the events raised since
  the last report, and reports them once: a second wait goes to sleep, although the data are
  still there.  A send of the peer raises \<open>EPOLLIN\<close> again, and only that: the third wait reports
  it alone.
\<close>

theorem edge_reported_once:
  assumes "running E w" and "getPollfdByNum epfd (w md) = Some i" and "edge_listener i j em p (w md)"
    and "conn_of n (w (peer md)) = Some p" and "conns (w md) p = Some c" and "connState c = c_open"
    and "own_events md c AND em \<noteq> 0" and "EPOLLIN AND em \<noteq> 0"
    and "never_full E" and "send_args buf len" and "0 < maxevents"
  shows "\<exists>s1 t s2. epoll_pwait (Suc r) env E md epfd maxevents timeout (w md) =
      Some (Some (1, [\<lparr>ev_events = own_events md c AND em,
        ev_data = ev_data (lfd_event (lfd_at (w md) i j))\<rparr>]), s1)
    \<and> recv_queue E md p s1 = recv_queue E md p (w md)
    \<and> epoll_pwait (Suc 0) (\<lambda>_ t. t) E md epfd maxevents (-1) s1 = Some (None, s1)
    \<and> send E (peer md) n buf len flags (share s1 (w (peer md))) = Some (size_to_int len, t)
    \<and> epoll_pwait (Suc r) env E md epfd maxevents timeout (share t s1) =
        Some (Some (1, [\<lparr>ev_events = EPOLLIN AND em,
          ev_data = ev_data (lfd_event (lfd_at (w md) i j))\<rparr>]), s2)"
proof -
  let ?d = "set_own_events md (own_events md c AND NOT em) c"
  let ?s1 = "put_conn p ?d (w md)"
  have c: "get_conn p (w md) = Some c"
    using assms(5) mem_wf_get_conn [OF running_ok(4) [OF assms(1)]] by simp
  note wait = epoll_pwait_edge [OF assms(2,3) c assms(7,11)]
  have once: "epoll_pwait (Suc r) env E md epfd maxevents timeout (w md) =
      Some (Some (1, [\<lparr>ev_events = own_events md c AND em,
        ev_data = ev_data (lfd_event (lfd_at (w md) i j))\<rparr>]), ?s1)"
    "epoll_pwait (Suc 0) (\<lambda>_ t. t) E md epfd maxevents (-1) ?s1 = Some (None, ?s1)" for r env timeout
    by (rule wait [where r = r and env = env and E = E and timeout = timeout]; simp)+
  have "exec E md (C_epoll_pwait epfd maxevents timeout) (w md) = Some ((Some 1, []), ?s1)"
    using once(1) [of 0 "\<lambda>_ t. t"] by simp
  then have run: "running E (commit md ?s1 w)"
    by (rule running_step [OF assms(1)])
  have v: "commit md ?s1 w md = ?s1" "commit md ?s1 w (peer md) = share ?s1 (w (peer md))"
    by (simp_all add: commit_def)
  have sel: "getPollfdByNum epfd ?s1 = Some i" "edge_listener i j em p ?s1"
    "conn_of n (share ?s1 (w (peer md))) = Some p" "lfd_at ?s1 i j = lfd_at (w md) i j"
    "conns (share ?s1 (w (peer md))) p = Some ?d"
    using assms(2,4) edge_listener_cong [of ?s1 "w md"] assms(3)
    by (simp_all add: put_conn_def getPollfdByNum_def conn_of_def getFdByNum_def share_def
        cong: option.case_cong if_cong)
  obtain t s2 where "send E (peer md) n buf len flags (share ?s1 (w (peer md))) = Some (size_to_int len, t)"
    and "epoll_pwait (Suc r) env E md epfd maxevents timeout (share t ?s1) =
      Some (Some (1, [\<lparr>ev_events = EPOLLIN AND em,
        ev_data = ev_data (lfd_event (lfd_at (w md) i j))\<rparr>]), s2)"
    by (rule send_raises_edge [where md = md, OF run, unfolded v, OF sel(1-3,5) _ _ assms(8-11), unfolded sel(4)])
      (simp_all add: assms(6) and.assoc)
  moreover have "recv_queue E md p ?s1 = recv_queue E md p (w md)"
    by (rule masks_only_sel(3) [OF masks_only_put [OF assms(5)]]) simp_all
  ultimately show ?thesis
    using once by blast
qed

theorem edge_reported_once_witness:
  "\<exists>s1 t s2. epoll_pwait 1 (\<lambda>_ t. t) ref_lib Server 900 3 0 (demo (watched 0x80000001) Server) =
     Some (Some (1, [\<lparr>ev_events = 1, ev_data = 7\<rparr>]), s1)
     \<and> epoll_pwait 1 (\<lambda>_ t. t) ref_lib Server 900 3 (-1) s1 = Some (None, s1)
     \<and> send ref_lib Client 700 [9] 1 0 (share s1 (demo (watched 0x80000001) Client)) = Some (1, t)
     \<and> epoll_pwait 1 (\<lambda>_ t. t) ref_lib Server 900 3 0 (share t s1) =
         Some (Some (1, [\<lparr>ev_events = 1, ev_data = 7\<rparr>]), s2)"
proof -
  obtain c where c: "conns (demo (watched 0x80000001) Server) 2 = Some c" "own_events Server c = 1"
    using edge_facts by (auto simp: get_conn_def split: option.splits if_splits)
  have p: "conn_of 700 (demo (watched 0x80000001) (peer Server)) = Some 2"
    "map_option connState (conns (demo (watched 0x80000001) Server) 2) = Some c_open"
    using edge_client by simp_all
  from edge_reported_once [OF demo_running _ _ p(1) c(1) _ _ _ ref_lib_never_full, where buf = "[9]"
      and len = 1 and flags = 0 and epfd = 900 and i = 0 and j = 0 and em = "0x80000001"
      and maxevents = 3 and r = 0 and env = "\<lambda>_ t. t" and timeout = 0] c p(2) edge_facts
  show ?thesis by (auto simp: send_args_def size_to_int_def EPOLLIN_def)
qed



text \<open>
  C29. A wait with a timeout of \<open>t\<close> ms returns within \<open>10 * t + 2\<close> rounds, whatever happens in its
  sleeps as long as the invariants of the memory and the listeners are kept.
\<close>

theorem epoll_times_out:
  assumes "running E w" and "getPollfdByNum epfd (w md) = Some i" and "listeners_ready i (w md)"
    and "0 \<le> timeout" and "timeout \<le> 2147483" and "10 * nat timeout + 2 \<le> rounds"
    and "\<forall>k t. (\<exists>gs. owned E t gs) \<and> own_ok t \<and> i < length (pollfds t) \<and> listeners_ready i t
       \<longrightarrow> (\<exists>gs. owned E (env k t) gs) \<and> own_ok (env k t) \<and> i < length (pollfds (env k t))
         \<and> listeners_ready i (env k t)"
  shows "\<exists>v s'. epoll_pwait rounds env E md epfd maxevents timeout (w md) = Some (Some v, s')"
  using epoll_pwait_returns [OF assms(4-6), of E i env "w md" epfd md maxevents]
    assms(2,3,7) running_ok(1,2) [OF assms(1)] by blast

theorem epoll_times_out_witness:
  "\<exists>v s'. epoll_pwait 12 (\<lambda>_ t. t) ref_lib Server 900 3 1 (demo (watched 0x80000001) Server) =
     Some (Some v, s')"
  by (rule epoll_times_out [OF demo_running, where i = 0]) (use edge_facts in simp_all)

text \<open>
  C30. Waiting on a socket that is not connected yet is undefined: the code follows the \<open>NULL\<close>
  pointer to its connection.  Registering such a socket is not refused.
\<close>

theorem epoll_unconnected_undefined:
  assumes "running E w" and "getPollfdByNum epfd (w md) = Some i" and "\<not> listeners_ready i (w md)"
    and "sole_listener i j (w md)" and "0 < maxevents"
  shows "epoll_pwait (Suc r) env E md epfd maxevents timeout (w md) = None"
proof -
  have "scan_listener E md i j [] (w md) = None"
    by (rule scan_not_ready [OF running_ok(1,2) [OF assms(1)] assms(2-4)])
  then have "scan_listeners E md i maxevents [0..<MAX_FDS_LISTEN] [] (w md) = None"
    by (rule scan_sole_stuck [OF assms(4) _ assms(5)])
  with assms(2) show ?thesis
    by (simp add: epoll_pwait_def epoll_round_def)
qed

theorem epoll_unconnected_undefined_witness:
  "\<exists>w. running ref_lib w \<and> epoll_pwait 1 (\<lambda>_ t. t) ref_lib Server 900 3 0 (w Server) = None"
  using epoll_unconnected_undefined [OF demo_running [of watched_new], where epfd = 900 and md = Server
      and i = 0 and j = 0 and maxevents = 3 and r = 0 and env = "\<lambda>_ t. t" and timeout = 0]
    new_stage demo_running by auto

text \<open>
  C31. The life of a listener: a descriptor without one is added at a free slot, adding it again
  fails with \<open>EEXIST\<close>, a modification replaces the events, deleting it frees the slot, and
  deleting it again fails with \<open>ENOENT\<close>.
\<close>

theorem epoll_ctl_lifecycle:
  assumes "running E w" and "getPollfdByNum epfd (w md) = Some i" and "FD_START \<le> n"
    and "getFdByNum n (w md) = Some f"
    and "\<forall>l \<in> set (lfds (pollfds (w md) ! i)). lfd_active l \<longrightarrow> num (fds (w md) ! lfd_fd l) \<noteq> n"
    and "\<exists>l \<in> set (lfds (pollfds (w md) ! i)). \<not> lfd_active l"
  shows "\<exists>s1 s2 s3 j l. epoll_ctl E epfd EPOLL_CTL_ADD n (Some e) (w md) = Some (0, s1)
    \<and> epoll_ctl E epfd EPOLL_CTL_ADD n x s1 = Some (-1, s1\<lparr>errno := EEXIST\<rparr>)
    \<and> epoll_ctl E epfd EPOLL_CTL_MOD n (Some e') s1 = Some (0, s2)
    \<and> epoll_ctl E epfd EPOLL_CTL_DEL n x s2 = Some (0, s3)
    \<and> epoll_ctl E epfd EPOLL_CTL_DEL n x s3 = Some (-1, s3\<lparr>errno := ENOENT\<rparr>)
    \<and> lfd_fd l = f \<and> s1 = set_lfd i j (\<lambda>_. set_listener e l) (w md)
    \<and> s2 = set_lfd i j (\<lambda>_. set_listener e' l) (w md)
    \<and> map lfd_active (lfds (pollfds s3 ! i)) = map lfd_active (lfds (pollfds (w md) ! i))"
proof -
  have new: "\<forall>l \<in> set (lfds (pollfds (w md) ! i)). \<not> (lfd_active l \<and> num (fds (w md) ! lfd_fd l) = n)"
    using assms(5) by blast
  show ?thesis
    by (rule epoll_ctl_life [OF running_ok(2) [OF assms(1)] assms(2-4) new assms(6), where E = E and e = e
          and x = x and e' = e', unfolded fail_def]) blast
qed

theorem epoll_ctl_lifecycle_witness:
  "\<exists>s1 s2 s3. epoll_ctl ref_lib 900 1 700 (Some \<lparr>ev_events = 1, ev_data = 5\<rparr>)
       (demo (butlast watched_new) Server) = Some (0, s1)
     \<and> epoll_ctl ref_lib 900 3 700 (Some \<lparr>ev_events = 4, ev_data = 5\<rparr>) s1 = Some (0, s2)
     \<and> epoll_ctl ref_lib 900 2 700 None s2 = Some (0, s3)
     \<and> epoll_ctl ref_lib 900 2 700 None s3 = Some (-1, s3\<lparr>errno := ENOENT\<rparr>)"
proof -
  have "list_all (\<lambda>l. \<not> lfd_active l) (lfds (pollfds (demo (butlast watched_new) Server) ! 0))
     \<and> lfds (pollfds (demo (butlast watched_new) Server) ! 0) \<noteq> []
     \<and> getPollfdByNum 900 (demo (butlast watched_new) Server) = Some 0
     \<and> getFdByNum 700 (demo (butlast watched_new) Server) = Some 0"
    by code_simp
  then have f: "\<forall>l \<in> set (lfds (pollfds (demo (butlast watched_new) Server) ! 0)). \<not> lfd_active l"
    "\<exists>l \<in> set (lfds (pollfds (demo (butlast watched_new) Server) ! 0)). \<not> lfd_active l"
    "getPollfdByNum 900 (demo (butlast watched_new) Server) = Some 0"
    "getFdByNum 700 (demo (butlast watched_new) Server) = Some 0"
    by (auto simp: list_all_iff neq_Nil_conv)
  from epoll_ctl_lifecycle [OF demo_running f(3) _ f(4) _ f(2), where e = "\<lparr>ev_events = 1, ev_data = 5\<rparr>"
      and x = None and e' = "\<lparr>ev_events = 4, ev_data = 5\<rparr>"] f(1)
  show ?thesis
    by (simp add: FD_START_def ctl_defs) blast
qed

text \<open>
  C32. \<open>poll\<close> on connected sockets of which at least one has something to report: every entry gets
  exactly the requested events that hold for its end of the connection (data, always room to
  send, hangup), the result is the number of entries with any, and the epoll descriptor behind
  the call is left without listeners, ready for the next poll.  The first call creates that
  descriptor.
\<close>

theorem poll_exact:
  assumes "running E w" and "poll_descriptor (w md) = Some (epfd, s1)" and "poll_idle epfd i s1"
    and "epfd \<noteq> -1" and "distinct (map poll_fd ps)" and "length ps \<le> MAX_FDS_LISTEN"
    and "\<forall>p \<in> set ps. poll_entry (w md) p"
    and "\<exists>p \<in> set ps. poll_mask E md (w md) p \<noteq> 0" and "0 < rounds"
  shows "\<exists>s'. poll rounds env E md ps timeout (w md) =
      Some (Some (int (length (filter (\<lambda>p. poll_mask E md (w md) p \<noteq> 0) ps)),
        map (\<lambda>p. p\<lparr>poll_revents := ucast (poll_mask E md (w md) p)\<rparr>) ps), s')
    \<and> poll_idle epfd i s' \<and> fds s' = fds (w md)
    \<and> (\<forall>m p. recv_queue E m p s' = recv_queue E m p (w md))
    \<and> (\<forall>p. map_option connState (conns s' p) = map_option connState (conns (w md) p))"
  by (rule poll_calls [OF running_ok(1,2) [OF assms(1)] assms(2-9)])

theorem poll_exact_witness:
  "\<exists>s'. poll 1 (\<lambda>_ t. t) ref_lib Server [\<lparr>poll_fd = 701, poll_events = 0x15, poll_revents = 9\<rparr>] 0
       (demo exchange Server) =
     Some (Some (1, [\<lparr>poll_fd = 701, poll_events = 0x15, poll_revents = 5\<rparr>]), s')
   \<and> poll_idle 900 0 s'"
proof -
  let ?p = "\<lparr>poll_fd = 701, poll_events = 0x15, poll_revents = 9\<rparr>"
  have f: "map_option (\<lambda>(n, s1). (n, poll_idle 900 0 s1)) (poll_descriptor (demo exchange Server)) = Some (900, True)"
    "getFdByNum 701 (demo exchange Server) = Some 1 \<and> fstate (fds (demo exchange Server) ! 1) = s_open
      \<and> poll_mask ref_lib Server (demo exchange Server) ?p = 5"
    by code_simp+
  then obtain s1 where d: "poll_descriptor (demo exchange Server) = Some (900, s1)" "poll_idle 900 0 s1"
    by auto
  have "poll_entry (demo exchange Server) ?p"
    using f(2) by (simp add: poll_entry_def FD_START_def) (simp add: IS_EVENT_SET_def EPOLLET_def)
  with poll_exact [OF demo_running d, where ps = "[?p]" and rounds = 1 and env = "\<lambda>_ t. t" and timeout = 0] f(2)
  show ?thesis
    by (auto simp: MAX_FDS_LISTEN_def simp del: One_nat_def)
qed

text \<open>
  C33. A refused \<open>poll\<close> blocks the next ones.  When \<open>epoll_ctl\<close> rejects an entry (its number is
  unknown, it is there twice, or it is the 21st), \<open>poll\<close> fails with that error and leaves the
  listeners of the entries before it on its static epoll descriptor; from then on every \<open>poll\<close>
  that begins with one of these entries fails with \<open>EEXIST\<close> and changes nothing, whatever its
  other entries are.
\<close>

theorem poll_refused:
  assumes "running E w" and "poll_descriptor (w md) = Some (epfd, s1)" and "poll_idle epfd i s1"
    and "epfd \<noteq> -1" and "known (w md) ps" and "length ps \<le> MAX_FDS_LISTEN"
    and "refused (w md) ps p = Some e" and "FD_START \<le> poll_fd p"
  shows "\<exists>s'. poll rounds env E md (ps @ p # qs) timeout (w md) =
      Some (Some (-1, ps @ p # qs), s'\<lparr>errno := e\<rparr>)
    \<and> (\<forall>q \<in> set ps. \<forall>x rounds env qs timeout.
         poll rounds env E md (q # qs) timeout (s'\<lparr>errno := x\<rparr>) =
           Some (Some (-1, q # qs), s'\<lparr>errno := EEXIST\<rparr>))"
proof -
  note ok = running_ok(1,2) [OF assms(1), of md]
  have "own_ok s1"
    by (rule poll_descriptor_kept [OF ok]) (use assms(2) keptD(2) in auto)
  from poll_refusal [OF assms(2) this assms(3-8)] show ?thesis .
qed

theorem poll_refused_witness:
  "\<exists>s'. poll 1 (\<lambda>_ t. t) ref_lib Server [\<lparr>poll_fd = 701, poll_events = 1, poll_revents = 0\<rparr>,
       \<lparr>poll_fd = 777, poll_events = 1, poll_revents = 0\<rparr>] 0 (demo exchange Server) =
     Some (Some (-1, [\<lparr>poll_fd = 701, poll_events = 1, poll_revents = 0\<rparr>,
       \<lparr>poll_fd = 777, poll_events = 1, poll_revents = 0\<rparr>]), s'\<lparr>errno := EBADF\<rparr>)
   \<and> poll 1 (\<lambda>_ t. t) ref_lib Server [\<lparr>poll_fd = 701, poll_events = 1, poll_revents = 0\<rparr>] 0
       (s'\<lparr>errno := EBADF\<rparr>) =
     Some (Some (-1, [\<lparr>poll_fd = 701, poll_events = 1, poll_revents = 0\<rparr>]), s'\<lparr>errno := EEXIST\<rparr>)"
proof -
  let ?p = "\<lparr>poll_fd = 701, poll_events = 1, poll_revents = 0\<rparr>"
  let ?q = "\<lparr>poll_fd = 777, poll_events = 1, poll_revents = 0\<rparr>"
  have f: "map_option (\<lambda>(n, s1). (n, poll_idle 900 0 s1)) (poll_descriptor (demo exchange Server)) = Some (900, True)"
    "getFdByNum 701 (demo exchange Server) = Some 1 \<and> getFdByNum 777 (demo exchange Server) = None"
    by code_simp+
  then obtain s1 where d: "poll_descriptor (demo exchange Server) = Some (900, s1)" "poll_idle 900 0 s1"
    by auto
  have p: "known (demo exchange Server) [?p]" "refused (demo exchange Server) [?p] ?q = Some EBADF"
    using f(2) by (simp_all add: known_def refused_def FD_START_def)
  from poll_refused [OF demo_running d _ p(1) _ p(2), where qs = "[]" and rounds = 1 and env = "\<lambda>_ t. t"
      and timeout = 0]
  show ?thesis
    by (simp add: MAX_FDS_LISTEN_def FD_START_def del: One_nat_def) blast
qed
section \<open>Descriptors and arguments\<close>

text \<open>
  C34. The descriptor table of a process is well formed: it has 50 slots, no two active slots carry
  the same number, all numbers in use lie below the next one, and the number a new socket gets
  is not in use.
\<close>

theorem descriptor_table_ok:
  assumes "running E w" and "socket domain type protocol (w md) = Some (r, s')" and "r \<noteq> -1"
  shows "length (fds (w md)) = MAX_FDS \<and> unique_keys fd_active num (fds (w md))
    \<and> keys_below fd_active num (currentMaxFd (w md)) (fds (w md))
    \<and> getFdByNum r (w md) = None"
proof -
  note ok = own_okD(3-5) [OF running_ok(2) [OF assms(1)], of md]
  have "r = currentMaxFd (w md)"
    using assms(2,3) by (auto simp: socket_def fail_def Let_def split: if_splits option.splits prod.splits)
      (auto simp: getEmptyFd_def split: option.splits)
  then have "getFdByNum r (w md) = None"
    using ok(3) unfolding getFdByNum_def first_slot_None
    by (force simp: keys_below_def in_set_conv_nth)
  with ok show ?thesis by simp
qed

theorem descriptor_table_ok_witness:
  "length (fds (demo exchange Server)) = MAX_FDS \<and> getFdByNum 702 (demo exchange Server) = None"
proof -
  have "map_option fst (socket 2 1 0 (demo exchange Server)) = Some 702"
    by code_simp
  then obtain s' where "socket 2 1 0 (demo exchange Server) = Some (702, s')"
    by (auto simp: map_option_case split: option.splits)
  from descriptor_table_ok [OF demo_running this] show ?thesis by simp
qed



text \<open>
  C36. \<open>recv\<close> never stores more bytes than the buffer holds and returns the number of bytes
  stored, or -1 and stores nothing, whatever the peer does while it sleeps.
\<close>

theorem recv_bounds:
  assumes "recv rounds env E md n len flags s = Some (Some (r, bs), s')"
  shows "(r = -1 \<and> bs = []) \<or> (r = int (length bs) \<and> r \<le> max 0 (size_to_int len))"
  by (rule recv_within [OF assms])

theorem recv_bounds_witness:
  "\<exists>r bs. length bs \<le> 2 \<and> map_option fst (recv 1 (\<lambda>_ t. t) ref_lib Server 701 2 0 (demo exchange Server)) =
     Some (Some (r, bs))"
proof -
  have "map_option fst (recv 1 (\<lambda>_ t. t) ref_lib Server 701 2 0 (demo exchange Server)) = Some (Some (1, [3]))"
    by code_simp
  then obtain s' where op: "recv 1 (\<lambda>_ t. t) ref_lib Server 701 2 0 (demo exchange Server) = Some (Some (1, [3]), s')"
    by (auto simp: map_option_case split: option.splits)
  from recv_bounds [OF op] op show ?thesis
    by (auto simp: size_to_int_def)
qed

section \<open>Registration and set-up\<close>



text \<open>
  C38. The address file: what the server writes is what the client reads, for every 64-bit address
  and without an effect on another file.  The reader takes the number with any white space
  before it and anything but a digit after it, and turns one that does not fit into the largest
  64-bit number.
\<close>

theorem address_file:
  assumes "\<forall>c \<in> set ws. is_space c" and "rest = [] \<or> \<not> is_digit (hd rest)"
    and "f' \<noteq> f" and "files s f' = Some (ws @ print_llu n @ rest)"
  shows "getAddressFromFile f (setAddressToFile f addr s) = Some (addr mod 2 ^ 64)
    \<and> getAddressFromFile f' (setAddressToFile f addr s) = Some (if n < 2 ^ 64 then n else 2 ^ 64 - 1)"
  using address_file_roundtrip [of f addr s] scan_print_llu [OF assms(1,2), of n] assms(3,4)
  by (simp add: getAddressFromFile_def setAddressToFile_def)

theorem address_file_witness:
  "getAddressFromFile ''a.addr'' (setAddressToFile ''a.addr'' 140737488347136
       ((demo handshake Server)\<lparr>files := [''b.addr'' \<mapsto> '' 4096 x'']\<rparr>)) = Some 140737488347136
   \<and> getAddressFromFile ''b.addr'' (setAddressToFile ''a.addr'' 140737488347136
       ((demo handshake Server)\<lparr>files := [''b.addr'' \<mapsto> '' 4096 x'']\<rparr>)) = Some 4096"
proof -
  have "'' 4096 x'' = '' '' @ print_llu 4096 @ '' x''"
    by (simp add: print_llu.simps) code_simp
  then show ?thesis
    using address_file [where ws = "'' ''" and rest = "'' x''" and n = 4096 and f = "''a.addr''" and f' = "''b.addr''"
        and addr = 140737488347136 and s = "(demo handshake Server)\<lparr>files := [''b.addr'' \<mapsto> '' 4096 x'']\<rparr>"]
    by (simp add: is_space_def is_digit_def)
qed

text \<open>
  C39. The constructor of the preloaded library takes one slot of the interface table for each
  interface it is told to set up; it ends regularly only if they all fit.
\<close>

theorem setup_takes_slots:
  assumes "setupIface E md fixed env False s = Some (Finished, b, s')"
    and "env ''SHMSOCK_IFACE_COUNT'' = Some c" and "scan_d c = Some k"
  shows "b \<and> used s' = used s + nat k \<and> used s + nat k \<le> length (interfaces s)
    \<and> setupIface E md fixed env b s' = Some (Finished, True, s')"
proof -
  obtain i where loop: "setup_loop E md fixed env (nat k) i s = Some (Finished, s')" and b: "b = True"
    using assms by (auto simp: setupIface_def split: option.splits Option.bind_splits)
  have "used s' = used s + nat k"
    by (rule setup_loop_used [OF loop])
  moreover have "used s' \<le> length (interfaces s)"
    using used_bound [of s'] setup_loop_interfaces [OF loop] by simp
  ultimately show ?thesis
    using b by (simp add: setupIface_def)
qed

theorem setup_takes_slots_witness:
  "\<exists>s'. setupIface ref_lib Server False
      [''SHMSOCK_IFACE_COUNT'' \<mapsto> ''1'', ''SHMSOCK_IFACE_START'' \<mapsto> ''0'',
       ''SHMSOCK_OWN_ADDRESS_0'' \<mapsto> ''1'', ''SHMSOCK_REMOTE_ADDRESS_0'' \<mapsto> ''2'']
      False (init_process [] () Map.empty) = Some (Finished, True, s') \<and> used s' = 1"
proof -
  let ?env = "[''SHMSOCK_IFACE_COUNT'' \<mapsto> ''1'', ''SHMSOCK_IFACE_START'' \<mapsto> ''0'',
       ''SHMSOCK_OWN_ADDRESS_0'' \<mapsto> ''1'', ''SHMSOCK_REMOTE_ADDRESS_0'' \<mapsto> ''2'']"
  let ?s = "init_process [] () Map.empty :: (ref_heap, ref_ll, unit) st"
  have names: "straddnum ''SHMSOCK_OWN_ADDRESS_'' 0 = Some ''SHMSOCK_OWN_ADDRESS_0''"
    "straddnum ''SHMSOCK_REMOTE_ADDRESS_'' 0 = Some ''SHMSOCK_REMOTE_ADDRESS_0''"
    "straddnum ''iface.'' 0 = Some ''iface.0''" "straddstr ''./'' ''iface.0'' = Some ''./iface.0''"
    by code_simp+
  have nums: "scan_d ''0'' = Some 0" "scan_d ''1'' = Some 1" "scan_d ''2'' = Some 2"
    by code_simp+
  have "getFreeInterface ?s = Some 0"
    by (simp add: init_process_def)
  then obtain s' where one: "setup_one ref_lib Server False ?env 0 ?s = Some (Finished, s')"
    using setup_one_server [OF names(1,2), of ?env, OF _ _ nums(2,3) _ names(3,4) ref_shm_ok] by auto
  then have op: "setupIface ref_lib Server False ?env False ?s = Some (Finished, True, s')"
    using nums by (simp add: setupIface_def)
  have "used ?s = 0"
    by (simp add: used_def init_process_def)
  with setup_takes_slots [OF op, of "''1''" 1] op nums show ?thesis by simp
qed

section \<open>The lock macros\<close>



end
